(* ===== verification/Prelude.thy ===== *)
theory Prelude
  imports Complex_Main "HOL-Library.Sublist" "HOL-Library.Char_ord"
    "HOL-Library.List_Lexorder" "HOL-Library.Product_Lexorder"
begin

text \<open>
  Shared vocabulary of the development: the Python values and string operations the modelled
  modules use, errors as values, the collections of simplification facts, generic lemmas on
  lists and maps, and the locale every stateful component is an instance of.

  Conventions.
  \<^item> A Python \<open>str\<close> is a \<^typ>\<open>string\<close>; a \<^typ>\<open>char\<close> stands for one code point below 256,
    so \<open>isspace\<close> and \<open>\d\<close> are written out for that range.
  \<^item> A Python \<open>float\<close> is a \<open>pyfloat\<close>: an exact rational, an infinity or NaN. Rounding of
    floating-point arithmetic is not modelled; the non-finite values are.
  \<^item> A dictionary read with \<open>.get\<close> is a map or a record of options; one whose iteration order
    matters is an association list.
  \<^item> An exception is the left summand of a sum type.
\<close>

section \<open>Fact collections\<close>

named_theorems tier_simps \<open>the constants of the queue tier resolver\<close>
named_theorems saga_inv \<open>the updates of the migration world that keep its invariant\<close>

section \<open>Errors and JSON values\<close>

datatype py_error =
  ValueError string | KeyError string | IndexError | TypeError string | OverflowError

type_synonym 'a res = "py_error + 'a"

text \<open>The decoded JSON document an API body or a configuration block arrives as.\<close>

datatype pyfloat = Fin rat | PInf | NInf | NaN

datatype json =
    JNull
  | JBool bool
  | JInt int
  | JFloat pyfloat
  | JStr string
  | JList "json list"
  | JDict "(string \<times> json) list"

definition json_get :: "json \<Rightarrow> string \<Rightarrow> json" where
  "json_get d k = (case d of JDict kvs \<Rightarrow> (case map_of kvs k of Some v \<Rightarrow> v | None \<Rightarrow> JNull)
                             | _ \<Rightarrow> JNull)"

section \<open>Decimal numerals\<close>

text \<open>\<open>str(n)\<close> of an integer.\<close>

definition digit_char :: "nat \<Rightarrow> char" where
  "digit_char d = char_of (48 + d)"

fun str_nat :: "nat \<Rightarrow> string" where
  "str_nat n = (if n < 10 then [digit_char n] else str_nat (n div 10) @ [digit_char (n mod 10)])"

declare str_nat.simps [simp del]

definition str_int :: "int \<Rightarrow> string" where
  "str_int i = (if i < 0 then CHR ''-'' # str_nat (nat (- i)) else str_nat (nat i))"

section \<open>Floating-point values\<close>

definition isfinite :: "pyfloat \<Rightarrow> bool" where
  "isfinite x = (case x of Fin _ \<Rightarrow> True | _ \<Rightarrow> False)"

fun float_gt :: "pyfloat \<Rightarrow> pyfloat \<Rightarrow> bool" where
  "float_gt (Fin a) (Fin b) = (a > b)"
| "float_gt PInf (Fin _) = True"
| "float_gt PInf NInf = True"
| "float_gt (Fin _) NInf = True"
| "float_gt _ _ = False"

fun float_ge :: "pyfloat \<Rightarrow> pyfloat \<Rightarrow> bool" where
  "float_ge NaN _ = False"
| "float_ge _ NaN = False"
| "float_ge a b = (\<not> float_gt b a)"

text \<open>The value of a decimal literal: overflow to an infinity is modelled, rounding is not.\<close>

definition to_pyfloat :: "rat \<Rightarrow> pyfloat" where
  "to_pyfloat r = (if r \<ge> 2 ^ 1024 - 2 ^ 970 then PInf
                   else if - r \<ge> 2 ^ 1024 - 2 ^ 970 then NInf else Fin r)"

section \<open>Truthiness\<close>

text \<open>\<open>x or default\<close> on an optional string: \<open>None\<close> and the empty string are both falsy.\<close>

definition truthy_str :: "string option \<Rightarrow> bool" where
  "truthy_str s = (case s of None \<Rightarrow> False | Some t \<Rightarrow> t \<noteq> [])"

definition or_str :: "string option \<Rightarrow> string option \<Rightarrow> string option" where
  "or_str a b = (if truthy_str a then a else b)"

lemma truthy_str_simps [simp]:
  "truthy_str None = False" "truthy_str (Some t) = (t \<noteq> [])"
  by (simp_all add: truthy_str_def)

lemma truthy_strE:
  assumes "truthy_str s"
  obtains t where "s = Some t" "t \<noteq> []"
  using assms by (cases s) auto

section \<open>Python strings\<close>

abbreviation startswith :: "string \<Rightarrow> string \<Rightarrow> bool" where
  "startswith s p \<equiv> prefix p s"

text \<open>\<open>s.split(c)\<close> for a one-character separator: always at least one part.\<close>

fun split_on :: "char \<Rightarrow> string \<Rightarrow> string list" where
  "split_on c [] = [[]]"
| "split_on c (x # xs) =
     (if x = c then [] # split_on c xs
      else (case split_on c xs of [] \<Rightarrow> [[x]] | y # ys \<Rightarrow> (x # y) # ys))"

text \<open>\<open>s.split(c, n)\<close>: at most \<open>n\<close> cuts, from the left.\<close>

fun split_max :: "nat \<Rightarrow> char \<Rightarrow> string \<Rightarrow> string list" where
  "split_max 0 c s = [s]"
| "split_max (Suc n) c s =
     (if c \<in> set s
      then takeWhile (\<lambda>x. x \<noteq> c) s # split_max n c (tl (dropWhile (\<lambda>x. x \<noteq> c) s))
      else [s])"

text \<open>\<open>s.rsplit(c, 1)\<close> on a string that holds \<open>c\<close>: the parts around the last \<open>c\<close>.\<close>

definition rsplit1 :: "char \<Rightarrow> string \<Rightarrow> string \<times> string" where
  "rsplit1 c s =
     (rev (tl (dropWhile (\<lambda>x. x \<noteq> c) (rev s))), rev (takeWhile (\<lambda>x. x \<noteq> c) (rev s)))"

definition is_space :: "char \<Rightarrow> bool" where
  "is_space c = (let n = of_char c :: nat in
     (9 \<le> n \<and> n \<le> 13) \<or> (28 \<le> n \<and> n \<le> 32) \<or> n = 133 \<or> n = 160)"

definition strip :: "string \<Rightarrow> string" where
  "strip s = rev (dropWhile is_space (rev (dropWhile is_space s)))"

definition is_digit :: "char \<Rightarrow> bool" where
  "is_digit c = (let n = of_char c :: nat in 48 \<le> n \<and> n \<le> 57)"

definition is_alpha :: "char \<Rightarrow> bool" where
  "is_alpha c = (let n = of_char c :: nat in (65 \<le> n \<and> n \<le> 90) \<or> (97 \<le> n \<and> n \<le> 122))"

definition digit_val :: "char \<Rightarrow> int" where
  "digit_val c = int (of_char c) - 48"

definition digits_val :: "string \<Rightarrow> int" where
  "digits_val s = foldl (\<lambda>n c. 10 * n + digit_val c) 0 s"

text \<open>A run of digits with single underscores between digits, as a number literal allows.\<close>

definition digit_run :: "string \<Rightarrow> string option" where
  "digit_run s =
     (let gs = split_on (CHR ''_'') s
      in if list_all (\<lambda>g. g \<noteq> [] \<and> list_all is_digit g) gs then Some (concat gs) else None)"

definition sign_split :: "string \<Rightarrow> bool \<times> string" where
  "sign_split t = (case t of [] \<Rightarrow> (False, [])
                   | c # r \<Rightarrow> if c = CHR ''-'' then (True, r)
                              else if c = CHR ''+'' then (False, r) else (False, t))"

text \<open>
  \<open>int(s)\<close>: surrounding white space, an optional sign, digit groups joined by single
  underscores, at most 4300 digits; \<open>None\<close> is the \<open>ValueError\<close>.
\<close>

definition py_int_str :: "string \<Rightarrow> int option" where
  "py_int_str s =
     (let (neg, u) = sign_split (strip s)
      in case digit_run u of
           None \<Rightarrow> None
         | Some ds \<Rightarrow> if length ds > 4300 then None
                      else Some ((if neg then - 1 else 1) * digits_val ds))"

definition to_lower :: "string \<Rightarrow> string" where
  "to_lower = map (\<lambda>c. let n = of_char c :: nat in
     if (65 \<le> n \<and> n \<le> 90) \<or> (192 \<le> n \<and> n \<le> 222 \<and> n \<noteq> 215) then char_of (n + 32) else c)"

text \<open>
  \<open>float(s)\<close>: white space, a sign, then \<open>inf\<close>, \<open>infinity\<close>, \<open>nan\<close> or a decimal literal with an
  optional fraction and exponent; \<open>None\<close> is the \<open>ValueError\<close>.
\<close>

definition pow10 :: "int \<Rightarrow> rat" where
  "pow10 e = (if 0 \<le> e then 10 ^ nat e else 1 / 10 ^ nat (- e))"

definition opt_digit_run :: "string \<Rightarrow> string option" where
  "opt_digit_run s = (if s = [] then Some [] else digit_run s)"

definition decimal_str :: "string \<Rightarrow> rat option" where
  "decimal_str u =
     (let m = takeWhile (\<lambda>c. c \<noteq> CHR ''e'' \<and> c \<noteq> CHR ''E'') u;
          r = dropWhile (\<lambda>c. c \<noteq> CHR ''e'' \<and> c \<noteq> CHR ''E'') u;
          ex = (case r of [] \<Rightarrow> Some 0
                | _ # x \<Rightarrow> (let (neg, ds) = sign_split x
                            in map_option (\<lambda>d. (if neg then - 1 else 1) * digits_val d) (digit_run ds)));
          (i, f) = (case split_on (CHR ''.'') m of
                      [a] \<Rightarrow> (opt_digit_run a, Some [])
                    | [a, b] \<Rightarrow> (opt_digit_run a, opt_digit_run b)
                    | _ \<Rightarrow> (None, None))
      in case (i, f, ex) of
           (Some i, Some f, Some e) \<Rightarrow>
             if i @ f = [] then None
             else Some (rat_of_int (digits_val (i @ f)) * pow10 (e - int (length f)))
         | _ \<Rightarrow> None)"

definition py_float_str :: "string \<Rightarrow> pyfloat option" where
  "py_float_str s =
     (let (neg, u) = sign_split (strip s); l = to_lower u
      in if l = ''inf'' \<or> l = ''infinity'' then Some (if neg then NInf else PInf)
         else if l = ''nan'' then Some NaN
         else map_option (\<lambda>r. to_pyfloat (if neg then - r else r)) (decimal_str u))"

text \<open>\<open>str.splitlines\<close> and the white-space \<open>str.split()\<close>.\<close>

definition is_linebreak :: "char \<Rightarrow> bool" where
  "is_linebreak c = (let n = of_char c :: nat in (10 \<le> n \<and> n \<le> 13) \<or> (28 \<le> n \<and> n \<le> 30) \<or> n = 133)"

fun splitlines_from :: "string \<Rightarrow> string \<Rightarrow> string list" where
  "splitlines_from acc [] = (if acc = [] then [] else [rev acc])"
| "splitlines_from acc (c # s) =
     (if c = char_of (13 :: nat) \<and> s \<noteq> [] \<and> hd s = char_of (10 :: nat)
      then rev acc # splitlines_from [] (tl s)
      else if is_linebreak c then rev acc # splitlines_from [] s
      else splitlines_from (c # acc) s)"

definition splitlines :: "string \<Rightarrow> string list" where
  "splitlines s = splitlines_from [] s"

definition split_ws :: "string \<Rightarrow> string list" where
  "split_ws s = filter (\<lambda>p. p \<noteq> []) (split_on (CHR '' '') (map (\<lambda>c. if is_space c then CHR '' '' else c) s))"

section \<open>Coercion of JSON values\<close>

text \<open>\<open>bool(v)\<close>, \<open>int(v)\<close> and \<open>float(v)\<close> on a decoded value; an infinite float has no integer.\<close>

definition truthy_json :: "json \<Rightarrow> bool" where
  "truthy_json v = (case v of JNull \<Rightarrow> False | JBool b \<Rightarrow> b | JInt i \<Rightarrow> i \<noteq> 0 | JFloat x \<Rightarrow> x \<noteq> Fin 0
     | JStr s \<Rightarrow> s \<noteq> [] | JList l \<Rightarrow> l \<noteq> [] | JDict d \<Rightarrow> d \<noteq> [])"

definition trunc_rat :: "rat \<Rightarrow> int" where
  "trunc_rat r = (if 0 \<le> r then \<lfloor>r\<rfloor> else - \<lfloor>- r\<rfloor>)"

definition py_int :: "json \<Rightarrow> int res" where
  "py_int v = (case v of
       JBool b \<Rightarrow> Inr (of_bool b)
     | JInt i \<Rightarrow> Inr i
     | JFloat (Fin r) \<Rightarrow> Inr (trunc_rat r)
     | JFloat NaN \<Rightarrow> Inl (ValueError ''nan'')
     | JFloat _ \<Rightarrow> Inl OverflowError
     | JStr s \<Rightarrow> (case py_int_str s of None \<Rightarrow> Inl (ValueError s) | Some i \<Rightarrow> Inr i)
     | _ \<Rightarrow> Inl (TypeError ''int''))"

text \<open>\<open>float(i)\<close> of an integer too large for a double raises.\<close>

definition py_float :: "json \<Rightarrow> pyfloat res" where
  "py_float v = (case v of
       JBool b \<Rightarrow> Inr (Fin (of_bool b))
     | JInt i \<Rightarrow> (case to_pyfloat (of_int i) of Fin r \<Rightarrow> Inr (Fin r) | _ \<Rightarrow> Inl OverflowError)
     | JFloat x \<Rightarrow> Inr x
     | JStr s \<Rightarrow> (case py_float_str s of None \<Rightarrow> Inl (ValueError s) | Some x \<Rightarrow> Inr x)
     | _ \<Rightarrow> Inl (TypeError ''float''))"

subsection \<open>Lemmas on splitting\<close>

lemma split_on_not_Nil [simp]: "split_on c s \<noteq> []"
  by (cases s) (auto split: list.splits)

lemma split_on_free: "c \<notin> set s \<Longrightarrow> split_on c s = [s]"
  by (induction s) auto

lemma split_on_append:
  "c \<notin> set p \<Longrightarrow> split_on c (p @ c # s) = p # split_on c s"
  by (induction p) auto

lemma split_on_parts_free: "p \<in> set (split_on c s) \<Longrightarrow> c \<notin> set p"
proof (induction s arbitrary: p)
  case (Cons x xs)
  then show ?case by (cases "split_on c xs") (auto split: if_splits)
qed simp

lemma split_max_append:
  assumes "c \<notin> set p"
  shows "split_max (Suc n) c (p @ c # s) = p # split_max n c s"
proof -
  have "takeWhile (\<lambda>x. x \<noteq> c) (p @ c # s) = p" and "dropWhile (\<lambda>x. x \<noteq> c) (p @ c # s) = c # s"
    using assms by (auto simp: takeWhile_append dropWhile_append)
  then show ?thesis by simp
qed

lemma split_max_free: "c \<notin> set s \<Longrightarrow> split_max n c s = [s]"
  by (cases n) auto

lemma split_max_length: "length (split_max n c s) \<le> Suc n"
  by (induction n arbitrary: s) auto

lemma set_dropWhile_subset: "set (dropWhile P xs) \<subseteq> set xs"
  by (induction xs) auto

lemma in_set_split:
  assumes "c \<in> set s"
  shows "s = takeWhile (\<lambda>x. x \<noteq> c) s @ c # tl (dropWhile (\<lambda>x. x \<noteq> c) s)"
proof -
  have ne: "dropWhile (\<lambda>x. x \<noteq> c) s \<noteq> []" using assms by (simp add: dropWhile_eq_Nil_conv)
  have "hd (dropWhile (\<lambda>x. x \<noteq> c) s) = c" using hd_dropWhile [OF ne] by simp
  then have "c # tl (dropWhile (\<lambda>x. x \<noteq> c) s) = dropWhile (\<lambda>x. x \<noteq> c) s"
    using list.collapse [OF ne] by simp
  then show ?thesis by simp
qed

lemma rsplit1_append:
  assumes "c \<notin> set q"
  shows "rsplit1 c (p @ c # q) = (p, q)"
proof -
  have "takeWhile (\<lambda>x. x \<noteq> c) (rev q @ c # rev p) = rev q"
    and "dropWhile (\<lambda>x. x \<noteq> c) (rev q @ c # rev p) = c # rev p"
    using assms by (auto simp: takeWhile_append dropWhile_append)
  then show ?thesis by (simp add: rsplit1_def)
qed

lemma rsplit1_join:
  assumes "c \<in> set s"
  shows "s = fst (rsplit1 c s) @ c # snd (rsplit1 c s)"
proof -
  have "rev s = takeWhile (\<lambda>x. x \<noteq> c) (rev s) @ c # tl (dropWhile (\<lambda>x. x \<noteq> c) (rev s))"
    using assms by (intro in_set_split) simp
  from arg_cong [where f = rev, OF this] show ?thesis
    unfolding rev_rev_ident by (simp add: rsplit1_def)
qed

lemma rsplit1_snd_free: "c \<notin> set (snd (rsplit1 c s))"
  by (auto simp: rsplit1_def dest: set_takeWhileD)

lemma prefix_before_sep:
  assumes "prefix p (b @ c # n)" "c \<notin> set p"
  shows "prefix p b"
proof -
  obtain t where "p @ t = b @ c # n" using assms(1) by (auto simp: prefix_def)
  then obtain us where "p = b @ us \<and> us @ t = c # n \<or> p @ us = b \<and> t = us @ c # n"
    by (auto simp: append_eq_append_conv2)
  then show ?thesis using assms(2) by (cases us) (auto simp: prefix_def)
qed

lemma strip_idem [simp]: "strip (strip s) = strip s"
proof -
  have a: "dropWhile P (rev (dropWhile P (rev (dropWhile P xs)))) = rev (dropWhile P (rev (dropWhile P xs)))"
    for P and xs :: string
  proof (cases "dropWhile P xs")
    case Nil
    show ?thesis unfolding Nil by simp
  next
    case (Cons y ys)
    then have "\<not> P y" by (metis hd_dropWhile list.discI list.sel(1))
    obtain zs where "rev (dropWhile P (rev (y # ys))) = y # zs"
    proof -
      have "dropWhile P (rev ys @ [y]) = dropWhile P (rev ys) @ [y]"
        using \<open>\<not> P y\<close> by (auto simp: dropWhile_append)
      then show ?thesis using that by simp
    qed
    with Cons \<open>\<not> P y\<close> show ?thesis by simp
  qed
  show ?thesis by (simp add: strip_def a)
qed

lemma takeWhile_id: "list_all P xs \<Longrightarrow> takeWhile P xs = xs"
  by (induction xs) auto

section \<open>Association lists in insertion order\<close>

text \<open>\<open>d[k] = v\<close> on a dictionary whose iteration order is observed.\<close>

fun alist_set :: "'k \<Rightarrow> 'v \<Rightarrow> ('k \<times> 'v) list \<Rightarrow> ('k \<times> 'v) list" where
  "alist_set k v [] = [(k, v)]"
| "alist_set k v ((k', v') # d) = (if k = k' then (k, v) # d else (k', v') # alist_set k v d)"

lemma alist_set_new: "k \<notin> fst ` set d \<Longrightarrow> alist_set k v d = d @ [(k, v)]"
  by (induction k v d rule: alist_set.induct) auto

lemma map_of_alist_set [simp]: "map_of (alist_set k v d) = (map_of d)(k \<mapsto> v)"
  by (induction k v d rule: alist_set.induct) auto

lemma keys_alist_set: "fst ` set (alist_set k v d) = insert k (fst ` set d)"
  by (induction k v d rule: alist_set.induct) auto

lemma distinct_alist_set: "distinct (map fst d) \<Longrightarrow> distinct (map fst (alist_set k v d))"
proof (induction k v d rule: alist_set.induct)
  case (2 k v k' v' d)
  then show ?case using keys_alist_set [of k v d] by (auto simp: image_iff)
qed simp

section \<open>Counting and summing over lists\<close>

lemma sum_list_nonneg_int: "(\<And>x. x \<in> set xs \<Longrightarrow> 0 \<le> f x) \<Longrightarrow> 0 \<le> (\<Sum>x\<leftarrow>xs. f x :: int)"
  by (induction xs) auto

lemma length_filter_update:
  assumes "i < length xs"
  shows "int (length (filter P (xs[i := y])))
     = int (length (filter P xs)) - of_bool (P (xs ! i)) + of_bool (P y)"
  using assms
proof (induction xs arbitrary: i)
  case (Cons x xs)
  then show ?case by (cases i) auto
qed simp

lemma sum_list_update_int:
  assumes "i < length xs"
  shows "(\<Sum>x\<leftarrow>xs[i := y]. f x) = (\<Sum>x\<leftarrow>xs. f x) - f (xs ! i) + (f y :: int)"
  using assms
proof (induction xs arbitrary: i)
  case (Cons x xs)
  then show ?case by (cases i) auto
qed simp

lemma distinct_map_filter: "distinct (map f xs) \<Longrightarrow> distinct (map f (filter P xs))"
  by (induction xs) auto

section \<open>Stateful components\<close>

text \<open>
  The interface of a component whose operations are a step relation with an invariant. Every
  state machine of the development interprets it; the reachability lemma is proved once.
\<close>

locale invariant_system =
  fixes step :: "'s \<Rightarrow> 's \<Rightarrow> bool"
    and inv :: "'s \<Rightarrow> bool"
  assumes step_inv: "step s t \<Longrightarrow> inv s \<Longrightarrow> inv t"
begin

lemma reach_inv: "step\<^sup>*\<^sup>* s t \<Longrightarrow> inv s \<Longrightarrow> inv t"
  by (induction rule: rtranclp_induct) (auto intro: step_inv)

end

end
