(* ===== verification/Queue_Tiers.thy ===== *)
theory Queue_Tiers
  imports Prelude
begin

text \<open>
  The queue-tier resolver, \<open>isardvdi_common/lib/queue_tiers.py\<close>: the tier a storage task lands
  on, and the parsing and rewriting of queue names \<open>storage.<pool>[.<category>].<tier>\<close>; and the
  two queue classifiers of \<open>lib/governed_worker.py\<close> that read a tier back from a queue name.
  A missing value (\<open>None\<close>) is the \<open>None\<close> of an option; a queue argument that is not a string is
  represented by \<open>None\<close> as well, since both are returned untouched.
\<close>

section \<open>Tiers and action classes\<close>

definition TIERS :: "string list" where
  "TIERS = [''interactive'', ''standard'', ''template'', ''bulk'', ''maintenance'', ''reclaim'',
            ''background'']"

definition GOVERNED_TIERS :: "string list" where
  "GOVERNED_TIERS = [''template'', ''bulk'', ''maintenance'', ''reclaim'', ''background'']"

definition DEFERRABLE_TIERS :: "string list" where
  "DEFERRABLE_TIERS = [''template'', ''maintenance'', ''reclaim'', ''background'']"

definition HEAVY_TIERS :: "string list" where
  "HEAVY_TIERS = [''template'', ''maintenance'']"

definition LEGACY_MAP :: "(string \<times> string) list" where
  "LEGACY_MAP = [(''high'', ''interactive''), (''low'', ''maintenance'')]"

definition STANDARD_ACTIONS :: "string list" where
  "STANDARD_ACTIONS = [''resize'']"

definition RECLAIM_ACTIONS :: "string list" where
  "RECLAIM_ACTIONS = [''delete'', ''move_delete'']"

definition MAINTENANCE_ACTIONS :: "string list" where
  "MAINTENANCE_ACTIONS = [''sparsify'', ''dig_holes'', ''convert'', ''disconnect'', ''virt_win_reg'',
     ''rebase'', ''migration_verify_destination'', ''migration_verify_destination_absent'']"

definition MOVE_ACTIONS :: "string list" where
  "MOVE_ACTIONS = [''move'']"

definition DOWNLOAD_ACTIONS :: "string list" where
  "DOWNLOAD_ACTIONS = [''download_url'', ''download_url_for_domain'']"

definition FAIR_TIERS :: "string list" where
  "FAIR_TIERS = GOVERNED_TIERS"

definition NULL_CATEGORY :: string where
  "NULL_CATEGORY = ''_nocat''"

text \<open>\<open>x in frozenset(...)\<close> where \<open>x\<close> may be \<open>None\<close>.\<close>

definition mem_opt :: "string option \<Rightarrow> string list \<Rightarrow> bool" where
  "mem_opt a xs = (case a of None \<Rightarrow> False | Some x \<Rightarrow> x \<in> set xs)"

section \<open>Resolution\<close>

definition resolve_category :: "string option \<Rightarrow> string" where
  "resolve_category owner_category =
     (if truthy_str owner_category then the owner_category else NULL_CATEGORY)"

definition category_segment :: "string option \<Rightarrow> string" where
  "category_segment category =
     (case category of
        None \<Rightarrow> NULL_CATEGORY
      | Some c \<Rightarrow> if c = [] then NULL_CATEGORY
          else map (\<lambda>x. if x = CHR '':'' then CHR ''_'' else x)
                 (map (\<lambda>x. if x = CHR ''.'' then CHR ''_'' else x) c))"

definition parse_storage_queue :: "string \<Rightarrow> (string \<times> string option \<times> string) option" where
  "parse_storage_queue name =
     (if \<not> startswith name ''storage.'' then None
      else (case split_on (CHR ''.'') name of
              [_, pool, tier] \<Rightarrow> Some (pool, None, tier)
            | [_, pool, category, tier] \<Rightarrow> Some (pool, Some category, tier)
            | _ \<Rightarrow> None))"

definition effective_tier :: "string \<Rightarrow> string" where
  "effective_tier tier = (case map_of LEGACY_MAP tier of None \<Rightarrow> tier | Some t \<Rightarrow> t)"

definition default_tier_for_action :: "string option \<Rightarrow> string" where
  "default_tier_for_action action =
     (if mem_opt action RECLAIM_ACTIONS then ''reclaim''
      else if mem_opt action MAINTENANCE_ACTIONS \<or> mem_opt action MOVE_ACTIONS
              \<or> mem_opt action DOWNLOAD_ACTIONS then ''maintenance''
      else if mem_opt action STANDARD_ACTIONS then ''standard''
      else ''interactive'')"

definition CHECK_INTERACTIVE_MAX_CLUSTERS :: int where
  "CHECK_INTERACTIVE_MAX_CLUSTERS = 1100000"

definition check_tier :: "int option \<Rightarrow> int \<Rightarrow> string" where
  "check_tier allocated_clusters threshold =
     (if (case allocated_clusters of None \<Rightarrow> 0 | Some n \<Rightarrow> n) < threshold
      then ''interactive'' else ''standard'')"

definition repair_tier :: "string \<Rightarrow> string" where
  "repair_tier what = (if what = ''leaks'' then ''standard'' else ''maintenance'')"

text \<open>The role of the requester is accepted and never read, as in the source.\<close>

definition normalize_tier :: "string \<Rightarrow> string option \<Rightarrow> string option \<Rightarrow> string res" where
  "normalize_tier value action role_id =
     (if mem_opt action RECLAIM_ACTIONS then Inr ''reclaim''
      else if mem_opt action MAINTENANCE_ACTIONS then Inr ''maintenance''
      else if mem_opt action MOVE_ACTIONS
      then Inr (if value \<in> set HEAVY_TIERS then value else ''maintenance'')
      else if value = ''default'' then Inr (default_tier_for_action action)
      else (case map_of LEGACY_MAP value of
              Some t \<Rightarrow> Inr t
            | None \<Rightarrow> if value \<in> set TIERS then Inr value else Inl (ValueError value)))"

definition retier_queue :: "string option \<Rightarrow> string option \<Rightarrow> string option \<Rightarrow> string option" where
  "retier_queue queue action category =
     (case queue of
        None \<Rightarrow> None
      | Some q \<Rightarrow>
          if \<not> startswith q ''storage.'' then Some q
          else (case split_max 2 (CHR ''.'') q of
                  [p0, p1, prio] \<Rightarrow>
                    (let head = p0 @ ''.'' @ p1;
                         tier = (case normalize_tier prio action None of
                                   Inr t \<Rightarrow> t
                                 | Inl _ \<Rightarrow> default_tier_for_action action)
                     in if category \<noteq> None \<and> tier \<in> set FAIR_TIERS
                        then Some (head @ ''.'' @ category_segment category @ ''.'' @ tier)
                        else Some (head @ ''.'' @ tier))
                | _ \<Rightarrow> Some q))"

text \<open>The name \<open>f"storage.{pool}.{rest}"\<close> every producer builds a storage lane with.\<close>

definition lane_name :: "string \<Rightarrow> string \<Rightarrow> string" where
  "lane_name pool rest = ''storage.'' @ pool @ ''.'' @ rest"

text \<open>
  A node of a dependents tree: its task, its queue (absent, or present with possibly a \<open>None\<close>
  value) and its nested dependents. An entry that is not a dictionary is skipped.
\<close>

datatype dep_node =
    Dep (dep_task: "string option") (dep_queue: "string option option") (dep_dependents: "dep_node list")
  | NonDict

fun retier_dependents :: "dep_node list \<Rightarrow> string option \<Rightarrow> dep_node list"
  and retier_dep :: "dep_node \<Rightarrow> string option \<Rightarrow> dep_node" where
  "retier_dependents [] category = []"
| "retier_dependents (d # ds) category = retier_dep d category # retier_dependents ds category"
| "retier_dep NonDict category = NonDict"
| "retier_dep (Dep task queue nested) category =
     Dep task (map_option (\<lambda>q. retier_queue q task category) queue) (retier_dependents nested category)"

section \<open>Reading a tier back from a queue name\<close>

definition is_heavy_queue :: "string \<Rightarrow> bool" where
  "is_heavy_queue name =
     (case parse_storage_queue name of
        None \<Rightarrow> False
      | Some (_, _, tier) \<Rightarrow> effective_tier tier \<in> set HEAVY_TIERS)"

definition is_deferrable_queue :: "string \<Rightarrow> bool" where
  "is_deferrable_queue name =
     (case parse_storage_queue name of
        None \<Rightarrow> False
      | Some (_, _, tier) \<Rightarrow> effective_tier tier \<in> set DEFERRABLE_TIERS)"

section \<open>Constants and classes\<close>

lemmas tier_consts [tier_simps] =
  TIERS_def GOVERNED_TIERS_def DEFERRABLE_TIERS_def HEAVY_TIERS_def LEGACY_MAP_def
  STANDARD_ACTIONS_def RECLAIM_ACTIONS_def MAINTENANCE_ACTIONS_def MOVE_ACTIONS_def
  DOWNLOAD_ACTIONS_def FAIR_TIERS_def NULL_CATEGORY_def mem_opt_def

text \<open>The actions whose tier no requested priority can change the class of.\<close>

definition floored :: "string option \<Rightarrow> bool" where
  "floored action \<longleftrightarrow> mem_opt action RECLAIM_ACTIONS \<or> mem_opt action MAINTENANCE_ACTIONS
     \<or> mem_opt action MOVE_ACTIONS"

lemma tiers_dotfree: "t \<in> set TIERS \<Longrightarrow> CHR ''.'' \<notin> set t"
  by (auto simp: TIERS_def)

lemma tiers_not_legacy: "t \<in> set TIERS \<Longrightarrow> map_of LEGACY_MAP t = None \<and> t \<noteq> ''default''"
  by (auto simp: TIERS_def LEGACY_MAP_def)

lemma effective_tier_id: "t \<in> set TIERS \<Longrightarrow> effective_tier t = t"
  by (simp add: effective_tier_def tiers_not_legacy)

lemma governed_subset: "set GOVERNED_TIERS \<subseteq> set TIERS" "set HEAVY_TIERS \<subseteq> set GOVERNED_TIERS"
    "set DEFERRABLE_TIERS \<subseteq> set GOVERNED_TIERS" "set HEAVY_TIERS \<subseteq> set DEFERRABLE_TIERS"
  by (auto simp: tier_simps)

lemma default_tier_in_TIERS: "default_tier_for_action action \<in> set TIERS"
  by (simp add: default_tier_for_action_def TIERS_def)

lemma category_segment_dotfree: "CHR ''.'' \<notin> set (category_segment c)"
  by (auto simp: category_segment_def NULL_CATEGORY_def split: option.splits if_splits)

lemma category_segment_colonfree: "CHR '':'' \<notin> set (category_segment c)"
  by (auto simp: category_segment_def NULL_CATEGORY_def split: option.splits if_splits)

section \<open>The resolver interface\<close>

text \<open>
  What the queue rewriting relies on: whatever tier the resolver or the default yields is one of
  the served tiers, and a served tier is a single dotted segment.
\<close>

locale tier_resolver =
  fixes normalize :: "string \<Rightarrow> string option \<Rightarrow> string res"
    and default :: "string option \<Rightarrow> string"
    and served :: "string set"
  assumes normalize_served: "normalize v a = Inr t \<Longrightarrow> t \<in> served"
    and default_served: "default a \<in> served"
    and served_segment: "t \<in> served \<Longrightarrow> CHR ''.'' \<notin> set t"
begin

lemma resolved_served: "(case normalize v a of Inr t \<Rightarrow> t | Inl _ \<Rightarrow> default a) \<in> served"
  by (auto split: sum.splits intro: normalize_served default_served)

lemma resolved_segment: "CHR ''.'' \<notin> set (case normalize v a of Inr t \<Rightarrow> t | Inl _ \<Rightarrow> default a)"
  by (rule served_segment [OF resolved_served])

end

interpretation tiers: tier_resolver "\<lambda>v a. normalize_tier v a None" default_tier_for_action "set TIERS"
proof unfold_locales
  fix v a t
  assume "normalize_tier v a None = Inr t"
  then show "t \<in> set TIERS"
    using default_tier_in_TIERS [of a]
    by (auto simp: normalize_tier_def TIERS_def HEAVY_TIERS_def LEGACY_MAP_def split: if_splits option.splits)
qed (use default_tier_in_TIERS tiers_dotfree in auto)

section \<open>Rewriting a queue name\<close>

lemma storage_prefix [simp]: "startswith (lane_name pool s) ''storage.''"
  by (simp add: lane_name_def)

lemma split_storage_queue:
  assumes "CHR ''.'' \<notin> set pool"
  shows "split_max 2 (CHR ''.'') (lane_name pool prio) = [''storage'', pool, prio]"
proof -
  have eq: "lane_name pool prio = ''storage'' @ CHR ''.'' # (pool @ CHR ''.'' # prio)"
    by (simp add: lane_name_def)
  have "split_max (Suc 1) (CHR ''.'') (''storage'' @ CHR ''.'' # (pool @ CHR ''.'' # prio))
      = ''storage'' # split_max 1 (CHR ''.'') (pool @ CHR ''.'' # prio)"
    by (rule split_max_append) simp
  also have "split_max 1 (CHR ''.'') (pool @ CHR ''.'' # prio) = [pool, prio]"
    using split_max_append [OF assms, of 0 prio] by simp
  finally show ?thesis unfolding eq by (simp add: numeral_2_eq_2)
qed

lemma parse_flat_queue:
  assumes "CHR ''.'' \<notin> set pool" and "CHR ''.'' \<notin> set t"
  shows "parse_storage_queue (lane_name pool t) = Some (pool, None, t)"
proof -
  have "split_on (CHR ''.'') (''storage'' @ CHR ''.'' # pool @ CHR ''.'' # t) = [''storage'', pool, t]"
    using assms by (simp add: split_on_append split_on_free)
  then show ?thesis by (simp add: parse_storage_queue_def lane_name_def)
qed

lemma parse_category_queue:
  assumes "CHR ''.'' \<notin> set pool" and "CHR ''.'' \<notin> set c" and "CHR ''.'' \<notin> set t"
  shows "parse_storage_queue (lane_name pool (c @ CHR ''.'' # t)) = Some (pool, Some c, t)"
proof -
  have "split_on (CHR ''.'') (''storage'' @ CHR ''.'' # pool @ CHR ''.'' # c @ CHR ''.'' # t)
      = [''storage'', pool, c, t]"
    using assms by (simp add: split_on_append split_on_free)
  then show ?thesis by (simp add: parse_storage_queue_def lane_name_def)
qed

text \<open>The tier the rewriting resolves, and the queue it builds from it.\<close>

definition resolved_tier :: "string \<Rightarrow> string option \<Rightarrow> string" where
  "resolved_tier prio action =
     (case normalize_tier prio action None of Inr t \<Rightarrow> t | Inl _ \<Rightarrow> default_tier_for_action action)"

lemma resolved_tier_served: "resolved_tier prio action \<in> set TIERS"
  unfolding resolved_tier_def by (rule tiers.resolved_served)

lemma resolved_tier_segment: "CHR ''.'' \<notin> set (resolved_tier prio action)"
  unfolding resolved_tier_def by (rule tiers.resolved_segment)

lemma retier_storage:
  assumes "CHR ''.'' \<notin> set pool"
  shows "retier_queue (Some (lane_name pool prio)) action category =
     Some (lane_name pool
       (if category \<noteq> None \<and> resolved_tier prio action \<in> set FAIR_TIERS
        then category_segment category @ CHR ''.'' # resolved_tier prio action
        else resolved_tier prio action))"
  unfolding retier_queue_def option.case storage_prefix simp_thms if_False
    split_storage_queue [OF assms]
  by (auto simp: Let_def resolved_tier_def lane_name_def)

lemma resolved_tier_floored:
  assumes "floored action"
  shows "resolved_tier prio action =
     (if mem_opt action RECLAIM_ACTIONS then ''reclaim''
      else if mem_opt action MOVE_ACTIONS \<and> prio \<in> set HEAVY_TIERS then prio else ''maintenance'')"
  using assms by (auto simp: floored_def resolved_tier_def normalize_tier_def tier_simps split: option.splits)

section \<open>Properties\<close>

text \<open>C21: Rewriting a storage queue name always yields a lane a worker serves: for a pool key
  without dots, whatever priority was requested (dotted or unknown ones included), the result
  parses back to the same pool, to one of the seven tiers, and to the sanitised category exactly
  when a category is given and the tier is fair-scheduled.\<close>

theorem retier_lands_on_served_lane:
  assumes "CHR ''.'' \<notin> set pool"
  shows "\<exists>q cat tier.
     retier_queue (Some (lane_name pool prio)) action category = Some q
     \<and> parse_storage_queue q = Some (pool, cat, tier)
     \<and> tier \<in> set TIERS
     \<and> cat = (if category \<noteq> None \<and> tier \<in> set FAIR_TIERS then Some (category_segment category) else None)"
proof (cases "category \<noteq> None \<and> resolved_tier prio action \<in> set FAIR_TIERS")
  case True
  then show ?thesis
    using parse_category_queue [OF assms category_segment_dotfree resolved_tier_segment]
    by (simp add: retier_storage [OF assms] resolved_tier_served)
next
  case False
  then show ?thesis
    using parse_flat_queue [OF assms resolved_tier_segment]
    by (cases category) (auto simp: retier_storage [OF assms] resolved_tier_served)
qed

theorem retier_lands_on_served_lane_witness:
  "CHR ''.'' \<notin> set ''p1:p2'' \<and> (\<exists>q cat tier.
     retier_queue (Some (lane_name ''p1:p2'' ''a.b'')) (Some ''convert'') (Some ''x.y'') = Some q
     \<and> parse_storage_queue q = Some (''p1:p2'', cat, tier) \<and> tier \<in> set TIERS
     \<and> cat = (if Some ''x.y'' \<noteq> None \<and> tier \<in> set FAIR_TIERS
              then Some (category_segment (Some ''x.y'')) else None))"
proof -
  have h: "CHR ''.'' \<notin> set ''p1:p2''" by simp
  show ?thesis using h retier_lands_on_served_lane [OF h, of "''a.b''" "Some ''convert''" "Some ''x.y''"] by blast
qed





text \<open>The resolver raises on exactly the inputs its documentation names: an action without a
  floor together with a value that is neither a tier, nor \<open>default\<close>, nor a legacy priority. In
  particular the role of the requester never changes the outcome.\<close>

theorem normalize_tier_raises_iff:
  "(\<exists>e. normalize_tier v action role = Inl e) \<longleftrightarrow>
     \<not> floored action \<and> v \<notin> set TIERS \<and> v \<notin> {''default'', ''high'', ''low''}"
proof -
  have "(\<exists>e. normalize_tier v action role = Inl e) \<longleftrightarrow>
      \<not> floored action \<and> v \<noteq> ''default'' \<and> map_of LEGACY_MAP v = None \<and> v \<notin> set TIERS"
    by (auto simp: normalize_tier_def floored_def split: option.splits)
  also have "map_of LEGACY_MAP v = None \<longleftrightarrow> v \<notin> {''high'', ''low''}"
    by (simp add: LEGACY_MAP_def)
  finally show ?thesis by blast
qed

text \<open>
  The resolver does not route a bulk migration to the bulk lane: a move keeps an explicit
  heavy tier only.
\<close>

lemma move_bulk_is_floored: "normalize_tier ''bulk'' (Some ''move'') role = Inr ''maintenance''"
  by (simp add: normalize_tier_def tier_simps)

text \<open>
  Rewriting is not idempotent for an action without a floor: the per-category queue of a bulk
  create is read as an unknown priority the second time and degrades to the action's default.
\<close>

lemma retier_unfloored_not_idempotent:
  "retier_queue (Some ''storage.p.bulk'') (Some ''create'') (Some ''c'') = Some ''storage.p.c.bulk''"
  "retier_queue (Some ''storage.p.c.bulk'') (Some ''create'') (Some ''c'') = Some ''storage.p.interactive''"
  by (simp_all add: retier_queue_def normalize_tier_def default_tier_for_action_def tier_simps
      category_segment_def numeral_2_eq_2)

text \<open>Retiering a chain keeps its shape and its tasks at every level.\<close>

lemma retier_dependents_length: "length (retier_dependents ds c) = length ds"
  by (induction ds) auto

lemma retier_dependents_nth:
  "i < length ds \<Longrightarrow> retier_dependents ds c ! i = retier_dep (ds ! i) c"
proof (induction ds arbitrary: i)
  case (Cons d ds)
  then show ?case by (cases i) auto
qed simp

end
