(* ===== verification/Governor.thy ===== *)
theory Governor
  imports Prelude
begin

text \<open>
  The decision side of the storage resource governor: the pressure readings and the admission
  test of \<open>isardvdi_common/lib/resource_governor.py\<close>, the time-of-day caps of
  \<open>lib/governor_schedule.py\<close>, and the coercion and merge of the live configuration block of
  \<open>lib/governed_worker.py\<close>. A file read is the argument \<open>contents\<close>, \<open>None\<close> for an \<open>OSError\<close>.
  The clock and the time-zone database are the argument \<open>local_now\<close>, which gives for the name of
  a known zone the weekday (Monday is 0) and the minute of the day there.
\<close>

section \<open>Pressure stall information\<close>

fun psi_tokens :: "string list \<Rightarrow> pyfloat option" where
  "psi_tokens [] = None"
| "psi_tokens (token # ts) =
     (if startswith token ''avg10=''
      then Some (case py_float_str (split_max 1 (CHR ''='') token ! 1) of Some v \<Rightarrow> v | None \<Rightarrow> Fin 0)
      else psi_tokens ts)"

fun psi_lines :: "string list \<Rightarrow> pyfloat" where
  "psi_lines [] = Fin 0"
| "psi_lines (l # ls) =
     (let line = strip l
      in if \<not> startswith line ''some '' then psi_lines ls
         else (case psi_tokens (split_ws line) of Some v \<Rightarrow> v | None \<Rightarrow> psi_lines ls))"

definition parse_psi_some_avg10 :: "string option \<Rightarrow> pyfloat" where
  "parse_psi_some_avg10 text =
     (if \<not> truthy_str text then Fin 0 else psi_lines (splitlines (the text)))"

definition read_pressure :: "string option \<Rightarrow> pyfloat" where
  "read_pressure contents =
     (case contents of Some t \<Rightarrow> parse_psi_some_avg10 (Some t) | None \<Rightarrow> Fin 0)"

definition pressure_available :: "string option \<Rightarrow> bool" where
  "pressure_available contents = (case contents of Some t \<Rightarrow> t \<noteq> [] | None \<Rightarrow> False)"

fun any_psi_over :: "pyfloat list \<Rightarrow> pyfloat \<Rightarrow> bool" where
  "any_psi_over [] psi_limit = False"
| "any_psi_over (psi # ps) psi_limit =
     (if \<not> isfinite psi \<or> float_gt psi psi_limit then True else any_psi_over ps psi_limit)"

definition should_defer_heavy ::
  "pyfloat \<Rightarrow> pyfloat \<Rightarrow> int \<Rightarrow> pyfloat \<Rightarrow> int \<Rightarrow> pyfloat \<Rightarrow> bool" where
  "should_defer_heavy cpu_psi io_psi running_heavy psi_limit max_heavy mem_psi =
     (if running_heavy \<ge> max_heavy then True
      else any_psi_over [cpu_psi, io_psi, mem_psi] psi_limit)"

section \<open>Time-of-day caps\<close>

definition MAX_PROFILES :: nat where "MAX_PROFILES = 16"
definition MAX_HEAVY_MIN :: int where "MAX_HEAVY_MIN = 1"
definition MAX_HEAVY_MAX :: int where "MAX_HEAVY_MAX = 64"
definition DEFAULT_TZ :: string where "DEFAULT_TZ = ''UTC''"

definition parse_hhmm :: "json \<Rightarrow> int option" where
  "parse_hhmm value =
     (case value of
        JStr v \<Rightarrow>
          (case split_on (CHR '':'') v of
             [h, m] \<Rightarrow>
               (case (py_int_str h, py_int_str m) of
                  (Some h, Some m) \<Rightarrow>
                    if \<not> (0 \<le> h \<and> h < 24 \<and> 0 \<le> m \<and> m < 60) then None else Some (h * 60 + m)
                | _ \<Rightarrow> None)
           | _ \<Rightarrow> None)
      | _ \<Rightarrow> None)"

fun clean_days_from :: "int set \<Rightarrow> json list \<Rightarrow> int list option" where
  "clean_days_from out [] = Some (sorted_list_of_set out)"
| "clean_days_from out (d # ds) =
     (case d of JInt i \<Rightarrow> if \<not> (0 \<le> i \<and> i \<le> 6) then None else clean_days_from (insert i out) ds
              | _ \<Rightarrow> None)"

definition clean_days :: "json \<Rightarrow> int list option" where
  "clean_days days =
     (case days of JNull \<Rightarrow> Some [] | JList ds \<Rightarrow> clean_days_from {} ds | _ \<Rightarrow> None)"

record profile =
  p_start :: json
  p_end :: json
  p_days :: "int list"
  p_max_heavy :: int

definition clean_profile :: "json \<Rightarrow> string + profile" where
  "clean_profile raw =
     (case raw of
        JDict _ \<Rightarrow>
          (case (parse_hhmm (json_get raw ''start''), parse_hhmm (json_get raw ''end'')) of
             (Some start, Some stop) \<Rightarrow>
               if start = stop then Inl ''start and end must differ''
               else (case clean_days (json_get raw ''days'') of
                       None \<Rightarrow> Inl ''days must be a list of weekdays 0 (Monday) to 6 (Sunday)''
                     | Some days \<Rightarrow>
                         (case json_get raw ''max_heavy'' of
                            JInt value \<Rightarrow>
                              if \<not> (MAX_HEAVY_MIN \<le> value \<and> value \<le> MAX_HEAVY_MAX)
                              then Inl ''max_heavy must be between 1 and 64''
                              else Inr \<lparr>p_start = json_get raw ''start'', p_end = json_get raw ''end'',
                                        p_days = days, p_max_heavy = value\<rparr>
                          | _ \<Rightarrow> Inl ''max_heavy must be an integer''))
           | _ \<Rightarrow> Inl ''start and end must be HH:MM'')
      | _ \<Rightarrow> Inl ''each schedule entry must be an object'')"

text \<open>\<open>ZoneInfo(tz or DEFAULT_TZ)\<close>: a truthy value that is not a string is an unknown zone.\<close>

definition zone :: "(string \<Rightarrow> (int \<times> int) option) \<Rightarrow> json \<Rightarrow> (int \<times> int) option" where
  "zone local_now tz =
     (if \<not> truthy_json tz then local_now DEFAULT_TZ
      else (case tz of JStr z \<Rightarrow> local_now z | _ \<Rightarrow> None))"

definition is_open :: "int \<Rightarrow> int \<Rightarrow> int list \<Rightarrow> int \<Rightarrow> int \<Rightarrow> bool" where
  "is_open start stop days weekday now_min =
     (if start < stop
      then (if \<not> (start \<le> now_min \<and> now_min < stop) then False
            else days = [] \<or> weekday \<in> set days)
      else (if \<not> (now_min \<ge> start \<or> now_min < stop) then False
            else days = [] \<or> (if now_min < stop then (weekday - 1) mod 7 else weekday) \<in> set days))"

fun first_open :: "nat \<Rightarrow> int \<Rightarrow> int \<Rightarrow> json list \<Rightarrow> nat option" where
  "first_open index weekday now_min [] = None"
| "first_open index weekday now_min (raw # rest) =
     (case clean_profile raw of
        Inl _ \<Rightarrow> first_open (Suc index) weekday now_min rest
      | Inr p \<Rightarrow>
          (case (parse_hhmm (p_start p), parse_hhmm (p_end p)) of
             (Some start, Some stop) \<Rightarrow>
               if is_open start stop (p_days p) weekday now_min then Some index
               else first_open (Suc index) weekday now_min rest
           | _ \<Rightarrow> first_open (Suc index) weekday now_min rest))"

type_synonym config_block = "(string \<times> json) list"

definition block_get :: "config_block \<Rightarrow> string \<Rightarrow> json" where
  "block_get block k = json_get (JDict block) k"

definition active_profile :: "(string \<Rightarrow> (int \<times> int) option) \<Rightarrow> config_block \<Rightarrow> nat option" where
  "active_profile local_now block =
     (case block_get block ''schedule'' of
        JList schedule \<Rightarrow>
          if schedule = [] then None
          else (case zone local_now (block_get block ''schedule_tz'') of
                  None \<Rightarrow> None
                | Some (weekday, now_min) \<Rightarrow>
                    first_open 0 weekday now_min (take MAX_PROFILES schedule))
      | _ \<Rightarrow> None)"

text \<open>The cap is the raw \<open>max_heavy\<close> of the entry, not a cleaned copy of it.\<close>

definition effective_max_heavy ::
  "(string \<Rightarrow> (int \<times> int) option) \<Rightarrow> config_block \<Rightarrow> int \<Rightarrow> json \<times> nat option" where
  "effective_max_heavy local_now block base =
     (case active_profile local_now block of
        None \<Rightarrow> (JInt base, None)
      | Some index \<Rightarrow>
          (case block_get block ''schedule'' of
             JList schedule \<Rightarrow> (json_get (schedule ! index) ''max_heavy'', Some index)
           | _ \<Rightarrow> (JNull, Some index)))"

section \<open>The live configuration\<close>

definition as_bool :: "json \<Rightarrow> bool \<Rightarrow> bool" where
  "as_bool value fallback =
     (case value of
        JNull \<Rightarrow> fallback
      | JBool b \<Rightarrow> b
      | JInt _ \<Rightarrow> truthy_json value
      | JFloat _ \<Rightarrow> truthy_json value
      | JStr s \<Rightarrow> to_lower (strip s) \<in> set [''1'', ''true'', ''yes'', ''on'']
      | _ \<Rightarrow> fallback)"

text \<open>
  Only \<open>TypeError\<close> and \<open>ValueError\<close> are caught by the coercions: the \<open>OverflowError\<close> of an
  infinite or oversized number propagates.
\<close>

definition as_float :: "json \<Rightarrow> pyfloat \<Rightarrow> pyfloat res" where
  "as_float value fallback =
     (case py_float value of
        Inl OverflowError \<Rightarrow> Inl OverflowError
      | Inl _ \<Rightarrow> Inr fallback
      | Inr v \<Rightarrow> Inr (if float_ge v (Fin 0) then v else fallback))"

definition as_int :: "json \<Rightarrow> int \<Rightarrow> int res" where
  "as_int value fallback =
     (case py_int value of
        Inl OverflowError \<Rightarrow> Inl OverflowError
      | Inl _ \<Rightarrow> Inr fallback
      | Inr v \<Rightarrow> Inr (if v \<ge> 1 then v else fallback))"

definition as_opt_int :: "json \<Rightarrow> int option \<Rightarrow> int option res" where
  "as_opt_int value fallback =
     (case value of
        JNull \<Rightarrow> Inr fallback
      | _ \<Rightarrow> (case py_int value of
                Inl OverflowError \<Rightarrow> Inl OverflowError
              | Inl _ \<Rightarrow> Inr fallback
              | Inr v \<Rightarrow> Inr (if v \<ge> 1 then Some v else fallback)))"

fun int_map_items :: "(string \<times> int) list \<Rightarrow> (string \<times> json) list \<Rightarrow> (string \<times> int) list res" where
  "int_map_items out [] = Inr out"
| "int_map_items out ((k, v) # kvs) =
     (case py_int v of
        Inl OverflowError \<Rightarrow> Inl OverflowError
      | Inl _ \<Rightarrow> int_map_items out kvs
      | Inr iv \<Rightarrow> int_map_items (if iv \<ge> 1 then alist_set k iv out else out) kvs)"

definition as_int_map :: "json \<Rightarrow> (string \<times> int) list res" where
  "as_int_map value = (case value of JDict kvs \<Rightarrow> int_map_items [] kvs | _ \<Rightarrow> Inr [])"

record gov_env =
  env_enabled :: bool
  env_psi_limit :: pyfloat
  env_max_heavy :: int
  env_backoff :: int
  env_category_default_max_inflight :: "int option"

record live_config =
  lc_enabled :: bool
  lc_psi_limit :: pyfloat
  lc_max_heavy :: json
  lc_max_heavy_profile :: "nat option"
  lc_backoff :: int
  lc_category_weights :: "(string \<times> int) list"
  lc_category_max_inflight :: "(string \<times> int) list"
  lc_category_default_max_inflight :: "int option"

text \<open>The keys are evaluated in the order of the source; the first exception ends the merge.\<close>

definition merge_live_config ::
  "(string \<Rightarrow> (int \<times> int) option) \<Rightarrow> config_block \<Rightarrow> gov_env \<Rightarrow> live_config res" where
  "merge_live_config local_now block env =
     (case as_int (block_get block ''max_heavy'') (env_max_heavy env) of Inl e \<Rightarrow> Inl e | Inr base \<Rightarrow>
     (case as_float (block_get block ''psi_limit'') (env_psi_limit env) of Inl e \<Rightarrow> Inl e | Inr psi \<Rightarrow>
     (case as_int (block_get block ''backoff'') (env_backoff env) of Inl e \<Rightarrow> Inl e | Inr backoff \<Rightarrow>
     (case as_int_map (block_get block ''category_weights'') of Inl e \<Rightarrow> Inl e | Inr weights \<Rightarrow>
     (case as_int_map (block_get block ''category_max_inflight'') of Inl e \<Rightarrow> Inl e | Inr caps \<Rightarrow>
     (case as_opt_int (block_get block ''category_default_max_inflight'')
             (env_category_default_max_inflight env) of Inl e \<Rightarrow> Inl e | Inr dflt \<Rightarrow>
       (let (mh, prof) = effective_max_heavy local_now block base
        in Inr \<lparr>lc_enabled = as_bool (block_get block ''enabled'') (env_enabled env),
                lc_psi_limit = psi, lc_max_heavy = mh, lc_max_heavy_profile = prof,
                lc_backoff = backoff, lc_category_weights = weights,
                lc_category_max_inflight = caps, lc_category_default_max_inflight = dflt\<rparr>)))))))"

section \<open>Lemmas\<close>

lemma mod_small_shift:
  fixes x n :: int
  assumes "- n \<le> x" "x < n" "b \<longleftrightarrow> 0 \<le> x"
  shows "x mod n = (if b then x else x + n)"
proof (cases "0 \<le> x")
  case False
  then have "(x + n) mod n = x + n" using assms by (intro mod_pos_pos_trivial) auto
  then show ?thesis using assms False by simp
qed (use assms in \<open>simp add: mod_pos_pos_trivial\<close>)

lemma parse_hhmm_range: "parse_hhmm v = Some t \<Longrightarrow> 0 \<le> t \<and> t < 1440"
  by (auto simp: parse_hhmm_def split: json.splits list.splits option.splits if_splits)

lemma clean_days_from_range:
  "clean_days_from out ds = Some days \<Longrightarrow> finite out \<Longrightarrow> out \<subseteq> {0..6} \<Longrightarrow>
   set days \<subseteq> {0..6} \<and> sorted days \<and> distinct days"
  by (induction out ds rule: clean_days_from.induct) (auto split: json.splits if_splits)

lemma clean_profile_Inr:
  assumes "clean_profile raw = Inr p"
  obtains s e where "parse_hhmm (p_start p) = Some s" "parse_hhmm (p_end p) = Some e" "s \<noteq> e"
    "json_get raw ''max_heavy'' = JInt (p_max_heavy p)" "1 \<le> p_max_heavy p" "p_max_heavy p \<le> 64"
    "clean_days (json_get raw ''days'') = Some (p_days p)"
  using assms
  by (auto simp: clean_profile_def MAX_HEAVY_MIN_def MAX_HEAVY_MAX_def
      split: json.splits option.splits if_splits)

text \<open>An entry of the schedule that is valid and open at a local weekday and minute.\<close>

definition entry_open :: "int \<Rightarrow> int \<Rightarrow> json \<Rightarrow> bool" where
  "entry_open weekday now_min raw =
     (case clean_profile raw of
        Inl _ \<Rightarrow> False
      | Inr p \<Rightarrow> is_open (the (parse_hhmm (p_start p))) (the (parse_hhmm (p_end p))) (p_days p) weekday now_min)"

lemma first_open_Cons:
  "first_open i wd m (raw # rest) = (if entry_open wd m raw then Some i else first_open (Suc i) wd m rest)"
  by (auto simp: entry_open_def split: sum.splits elim!: clean_profile_Inr)

lemma first_open_Some:
  "first_open i wd m sched = Some k \<Longrightarrow>
   i \<le> k \<and> k - i < length sched \<and> entry_open wd m (sched ! (k - i))
   \<and> (\<forall>j < k - i. \<not> entry_open wd m (sched ! j))"
proof (induction sched arbitrary: i)
  case (Cons raw rest)
  show ?case
  proof (cases "entry_open wd m raw")
    case True
    with Cons.prems show ?thesis by (simp add: first_open_Cons del: first_open.simps)
  next
    case False
    with Cons.prems have "first_open (Suc i) wd m rest = Some k"
      by (simp add: first_open_Cons del: first_open.simps)
    note ih = Cons.IH [OF this]
    then have "k - i = Suc (k - Suc i)" by linarith
    with ih False show ?thesis by (auto simp: nth_Cons split: nat.splits)
  qed
qed simp

lemma active_profile_Some:
  assumes "active_profile local_now block = Some i"
  obtains sched wd m where "block_get block ''schedule'' = JList sched"
    "zone local_now (block_get block ''schedule_tz'') = Some (wd, m)"
    "first_open 0 wd m (take MAX_PROFILES sched) = Some i"
  using assms by (auto simp: active_profile_def split: json.splits if_splits option.splits)

lemma as_int_ge1: "1 \<le> d \<Longrightarrow> as_int v d = Inr n \<Longrightarrow> 1 \<le> n"
  by (auto simp: as_int_def split: sum.splits py_error.splits if_splits)

lemma as_opt_int_ge1: "as_opt_int v None = Inr (Some n) \<Longrightarrow> 1 \<le> n"
  by (cases "py_int v"; cases v) (auto simp: as_opt_int_def split: py_error.splits if_splits)

lemma as_float_nonneg: "float_ge d (Fin 0) \<Longrightarrow> as_float v d = Inr x \<Longrightarrow> float_ge x (Fin 0)"
  by (auto simp: as_float_def split: sum.splits py_error.splits if_splits)

lemma alist_set_ge1:
  "\<forall>(k, n) \<in> set out. 1 \<le> n \<Longrightarrow> 1 \<le> iv \<Longrightarrow> \<forall>(k, n) \<in> set (alist_set k iv out). 1 \<le> (n :: int)"
  by (induction k iv out rule: alist_set.induct) auto

lemma int_map_items_Cons:
  "int_map_items out ((k, v) # kvs) =
     (if py_int v = Inl OverflowError then Inl OverflowError
      else int_map_items (case py_int v of Inr iv \<Rightarrow> if iv \<ge> 1 then alist_set k iv out else out | Inl _ \<Rightarrow> out) kvs)"
  by (simp split: sum.split py_error.split)

lemma int_map_items_ge1:
  "int_map_items out kvs = Inr m \<Longrightarrow> \<forall>(k, n) \<in> set out. 1 \<le> n \<Longrightarrow> \<forall>(k, n) \<in> set m. 1 \<le> n"
proof (induction kvs arbitrary: out)
  case (Cons kv kvs)
  obtain k v where kv: "kv = (k, v)" by force
  let ?out = "case py_int v of Inr iv \<Rightarrow> if iv \<ge> 1 then alist_set k iv out else out | Inl _ \<Rightarrow> out"
  have "int_map_items ?out kvs = Inr m"
    using Cons.prems(1) unfolding kv int_map_items_Cons by (simp split: if_split_asm)
  moreover have "\<forall>(k, n) \<in> set ?out. 1 \<le> n"
    using Cons.prems(2) alist_set_ge1 [OF Cons.prems(2)] by (simp split: sum.split)
  ultimately show ?case by (rule Cons.IH)
qed simp

lemma as_int_map_ge1: "as_int_map v = Inr m \<Longrightarrow> (k, n) \<in> set m \<Longrightarrow> 1 \<le> n"
  by (auto simp: as_int_map_def split: json.splits dest: int_map_items_ge1)

lemma int_map_items_error: "int_map_items out kvs = Inl e \<Longrightarrow> e = OverflowError"
proof (induction kvs arbitrary: out)
  case (Cons kv kvs)
  then show ?case
    by (cases kv) (simp only: int_map_items_Cons split: if_split_asm, simp)
qed simp

lemma as_int_error: "as_int v d = Inl e \<Longrightarrow> e = OverflowError"
  by (cases "py_int v") (auto simp: as_int_def split: py_error.splits)

lemma as_float_error: "as_float v d = Inl e \<Longrightarrow> e = OverflowError"
  by (cases "py_float v") (auto simp: as_float_def split: py_error.splits)

lemma as_opt_int_error: "as_opt_int v d = Inl e \<Longrightarrow> e = OverflowError"
  by (cases "py_int v"; cases v) (auto simp: as_opt_int_def split: py_error.splits)

lemma as_int_map_error: "as_int_map v = Inl e \<Longrightarrow> e = OverflowError"
  by (cases v) (auto simp: as_int_map_def dest: int_map_items_error)

lemmas coercion_errors = as_int_error as_float_error as_opt_int_error as_int_map_error

lemma effective_max_heavy_ge1:
  assumes "1 \<le> base" and "effective_max_heavy local_now block base = (mh, prof)"
  shows "\<exists>v. mh = JInt v \<and> 1 \<le> v"
proof (cases "active_profile local_now block")
  case None
  then show ?thesis using assms by (auto simp: effective_max_heavy_def)
next
  case (Some i)
  then obtain sched wd m where sc: "block_get block ''schedule'' = JList sched"
    and fo: "first_open 0 wd m (take MAX_PROFILES sched) = Some i"
    by (rule active_profile_Some)
  from first_open_Some [OF fo] have "entry_open wd m (sched ! i)" by auto
  then obtain p where "clean_profile (sched ! i) = Inr p"
    by (auto simp: entry_open_def split: sum.splits)
  then show ?thesis
    using assms(2) Some sc by (auto simp: effective_max_heavy_def elim: clean_profile_Inr)
qed

text \<open>
  The reading that lets a heavy job through: every pressure is a finite number at most the limit.
  A corrupt reading (\<open>nan\<close>, \<open>inf\<close>) defers.
\<close>

lemma should_defer_heavy_iff:
  "\<not> should_defer_heavy cpu io n (Fin l) cap mem \<longleftrightarrow>
     n < cap \<and> (\<exists>a b c. cpu = Fin a \<and> io = Fin b \<and> mem = Fin c \<and> a \<le> l \<and> b \<le> l \<and> c \<le> l)"
  by (cases cpu; cases io; cases mem) (auto simp: should_defer_heavy_def isfinite_def)

text \<open>An infinite number in the block is not caught by the coercions and ends the merge.\<close>

lemma merge_infinite_cap_raises:
  "merge_live_config local_now [(''max_heavy'', JFloat PInf)] env = Inl OverflowError"
  by (simp add: merge_live_config_def block_get_def json_get_def as_int_def py_int_def)

section \<open>Properties\<close>

text \<open>C18: A schedule entry covers exactly the week-minutes its days and hours name. Counting minutes
  of the week modulo seven days, an entry that may run past midnight is open at a moment exactly
  when that moment lies less than the entry's duration after the start of one of its days; the
  tail after midnight, Sunday to Monday included, belongs to the day the range started.\<close>

theorem is_open_week_minutes:
  assumes "0 \<le> start" "start < 1440" "0 \<le> stop" "stop < 1440" "start \<noteq> stop"
    and "0 \<le> weekday" "weekday < 7" "0 \<le> now_min" "now_min < 1440"
  shows "is_open start stop days weekday now_min \<longleftrightarrow>
    (\<exists>d. 0 \<le> d \<and> d < 7 \<and> (days = [] \<or> d \<in> set days) \<and>
       ((weekday * 1440 + now_min) - (d * 1440 + start)) mod 10080 < (stop - start) mod 1440)"
proof -
  have dur: "(stop - start) mod 1440 = (if start < stop then stop - start else stop - start + 1440)"
    using assms(1-5) by (intro mod_small_shift) auto
  have prev: "(weekday - 1) mod 7 = (if weekday = 0 then 6 else weekday - 1)"
    using assms(6,7) by (subst mod_small_shift [where b = "1 \<le> weekday"]) auto
  have key: "((weekday * 1440 + now_min) - (d * 1440 + start)) mod 10080 < (stop - start) mod 1440 \<longleftrightarrow>
      (if start < stop then start \<le> now_min \<and> now_min < stop \<and> d = weekday
       else (now_min \<ge> start \<and> d = weekday) \<or> (now_min < stop \<and> d = (weekday - 1) mod 7))"
    if d: "0 \<le> d" "d < 7" for d
  proof -
    let ?x = "(weekday * 1440 + now_min) - (d * 1440 + start)"
    have x: "?x mod 10080 = (if 0 \<le> ?x then ?x else ?x + 10080)"
      using assms(1,2,6-9) d by (intro mod_small_shift) auto
    consider "d = weekday" | "d = weekday - 1" | "weekday = 0 \<and> d = 6" | "d + 1 < weekday"
      | "weekday < d \<and> \<not> (weekday = 0 \<and> d = 6)" by linarith
    then show ?thesis
      unfolding x dur prev by cases (use assms d in auto)
  qed
  have wd: "0 \<le> (weekday - 1) mod 7" "(weekday - 1) mod 7 < 7" by simp_all
  show ?thesis
    using assms wd unfolding is_open_def by (auto simp: key cong: conj_cong)
qed

theorem is_open_week_minutes_witness:
  "is_open 1320 360 [6] 0 30 \<and>
   (\<exists>d::int. 0 \<le> d \<and> d < 7 \<and> ([6::int] = [] \<or> d \<in> set [6]) \<and>
      ((0 * 1440 + 30) - (d * 1440 + 1320)) mod 10080 < (360 - 1320) mod 1440)"
proof -
  have "is_open 1320 360 [6] 0 30" by (simp add: is_open_def)
  then show ?thesis using is_open_week_minutes [of 1320 360 0 30 "[6]"] by simp
qed

text \<open>C19: The heavy cap in force is the flat one or that of the first schedule entry that is valid
  and open now in the configured zone, among the first sixteen entries; a scheduled cap lies
  between 1 and 64, whatever the block holds.\<close>

theorem scheduled_cap_in_force:
  assumes "effective_max_heavy local_now block base = (cap, Some i)"
  shows "\<exists>sched wd m v. block_get block ''schedule'' = JList sched
     \<and> zone local_now (block_get block ''schedule_tz'') = Some (wd, m)
     \<and> i < length sched \<and> i < 16 \<and> entry_open wd m (sched ! i)
     \<and> (\<forall>j<i. \<not> entry_open wd m (sched ! j))
     \<and> cap = JInt v \<and> json_get (sched ! i) ''max_heavy'' = JInt v \<and> 1 \<le> v \<and> v \<le> 64"
proof -
  have "active_profile local_now block = Some i"
    using assms by (auto simp: effective_max_heavy_def split: option.splits json.splits)
  then obtain sched wd m where sc: "block_get block ''schedule'' = JList sched"
    and z: "zone local_now (block_get block ''schedule_tz'') = Some (wd, m)"
    and fo: "first_open 0 wd m (take MAX_PROFILES sched) = Some i"
    by (rule active_profile_Some)
  from first_open_Some [OF fo] have i: "i < length sched" "i < 16" "entry_open wd m (sched ! i)"
    "\<forall>j<i. \<not> entry_open wd m (sched ! j)"
    by (auto simp: MAX_PROFILES_def)
  obtain p where p: "clean_profile (sched ! i) = Inr p"
    using i(3) by (auto simp: entry_open_def split: sum.splits)
  then have "json_get (sched ! i) ''max_heavy'' = JInt (p_max_heavy p)" "1 \<le> p_max_heavy p" "p_max_heavy p \<le> 64"
    by (auto elim: clean_profile_Inr)
  moreover have "cap = json_get (sched ! i) ''max_heavy''"
    using assms \<open>active_profile local_now block = Some i\<close> sc by (simp add: effective_max_heavy_def)
  ultimately show ?thesis using sc z i by simp
qed

theorem scheduled_cap_in_force_witness:
  "let block = [(''schedule'', JList [JNull, JDict [(''start'', JStr ''22:00''), (''end'', JStr ''6:0''),
        (''max_heavy'', JInt 8)]])]
   in effective_max_heavy (\<lambda>_. Some (2, 100)) block 2 = (JInt 8, Some 1)
      \<and> (\<exists>sched wd m v. block_get block ''schedule'' = JList sched
     \<and> zone (\<lambda>_. Some (2, 100)) (block_get block ''schedule_tz'') = Some (wd, m)
     \<and> 1 < length sched \<and> 1 < (16::nat) \<and> entry_open wd m (sched ! 1)
     \<and> (\<forall>j<1. \<not> entry_open wd m (sched ! j))
     \<and> JInt 8 = JInt v \<and> json_get (sched ! 1) ''max_heavy'' = JInt v \<and> 1 \<le> v \<and> v \<le> 64)"
proof -
  let ?block = "[(''schedule'', JList [JNull, JDict [(''start'', JStr ''22:00''), (''end'', JStr ''6:0''),
        (''max_heavy'', JInt 8)]])]"
  have e: "effective_max_heavy (\<lambda>_. Some (2, 100)) ?block 2 = (JInt 8, Some 1)" by code_simp
  from scheduled_cap_in_force [OF e] show ?thesis unfolding Let_def using e by (intro conjI)
qed

text \<open>C17: No configuration block can wedge a worker. Merging any block over valid defaults either
  raises \<open>OverflowError\<close> or gives a heavy cap, a poll interval and per-category caps and weights
  that are all at least 1 and a pressure limit that is not negative (in particular not \<open>nan\<close>).\<close>

theorem merge_config_never_wedges:
  assumes "1 \<le> env_max_heavy env" "1 \<le> env_backoff env" "float_ge (env_psi_limit env) (Fin 0)"
    and "env_category_default_max_inflight env = None"
  shows "case merge_live_config local_now block env of
      Inl e \<Rightarrow> e = OverflowError
    | Inr c \<Rightarrow> (\<exists>v. lc_max_heavy c = JInt v \<and> 1 \<le> v) \<and> 1 \<le> lc_backoff c
        \<and> float_ge (lc_psi_limit c) (Fin 0)
        \<and> list_all (\<lambda>(k, n). 1 \<le> n) (lc_category_weights c)
        \<and> list_all (\<lambda>(k, n). 1 \<le> n) (lc_category_max_inflight c)
        \<and> (\<forall>n. lc_category_default_max_inflight c = Some n \<longrightarrow> 1 \<le> n)"
proof (cases "merge_live_config local_now block env")
  case (Inl e)
  then show ?thesis
    by (auto simp: merge_live_config_def Let_def split: sum.splits prod.splits dest: coercion_errors)
next
  case (Inr c)
  then obtain base psi backoff weights caps dflt mh prof where
    parts: "as_int (block_get block ''max_heavy'') (env_max_heavy env) = Inr base"
      "as_float (block_get block ''psi_limit'') (env_psi_limit env) = Inr psi"
      "as_int (block_get block ''backoff'') (env_backoff env) = Inr backoff"
      "as_int_map (block_get block ''category_weights'') = Inr weights"
      "as_int_map (block_get block ''category_max_inflight'') = Inr caps"
      "as_opt_int (block_get block ''category_default_max_inflight'') None = Inr dflt"
      and mh: "effective_max_heavy local_now block base = (mh, prof)"
      and c: "lc_max_heavy c = mh" "lc_psi_limit c = psi" "lc_backoff c = backoff"
        "lc_category_weights c = weights" "lc_category_max_inflight c = caps"
        "lc_category_default_max_inflight c = dflt"
    using assms(4) by (auto simp: merge_live_config_def Let_def split: sum.splits prod.splits)
  have "\<exists>v. mh = JInt v \<and> 1 \<le> v"
    by (rule effective_max_heavy_ge1 [OF as_int_ge1 [OF assms(1) parts(1)] mh])
  then show ?thesis
    using Inr c as_int_ge1 [OF assms(2) parts(3)] as_float_nonneg [OF assms(3) parts(2)]
      as_int_map_ge1 [OF parts(4)] as_int_map_ge1 [OF parts(5)] parts(6)
    by (auto simp: list_all_iff dest: as_opt_int_ge1)
qed

theorem merge_config_never_wedges_witness:
  "\<exists>c. merge_live_config (\<lambda>_. None) [(''max_heavy'', JStr ''0''), (''psi_limit'', JFloat NaN)]
        \<lparr>env_enabled = True, env_psi_limit = Fin 40, env_max_heavy = 2, env_backoff = 3,
         env_category_default_max_inflight = None\<rparr> = Inr c
     \<and> (\<exists>v. lc_max_heavy c = JInt v \<and> 1 \<le> v) \<and> lc_psi_limit c = Fin 40"
proof -
  let ?env = "\<lparr>env_enabled = True, env_psi_limit = Fin 40, env_max_heavy = 2, env_backoff = 3,
         env_category_default_max_inflight = None\<rparr>"
  let ?m = "merge_live_config (\<lambda>_. None) [(''max_heavy'', JStr ''0''), (''psi_limit'', JFloat NaN)] ?env"
  have "case ?m of Inl _ \<Rightarrow> False | Inr c \<Rightarrow> lc_psi_limit c = Fin 40" by code_simp
  then obtain c where c: "?m = Inr c" "lc_psi_limit c = Fin 40" by (auto split: sum.splits)
  have "1 \<le> env_max_heavy ?env" "1 \<le> env_backoff ?env" "float_ge (env_psi_limit ?env) (Fin 0)"
    "env_category_default_max_inflight ?env = None" by simp_all
  from merge_config_never_wedges [OF this, of "\<lambda>_. None" "[(''max_heavy'', JStr ''0''), (''psi_limit'', JFloat NaN)]"]
  show ?thesis using c by auto
qed

end
