(* ===== verification/Governed_Worker.thy ===== *)
theory Governed_Worker
  imports Queue_Tiers Governor "HOL-Library.Multiset"
begin

text \<open>
  The admission side of the storage governor, \<open>isardvdi_common/lib/governed_worker.py\<close>: the slot
  accounting in the shared Redis, its Lua scripts, the reconcile, the per-poll dequeue order and
  the admission and release of a job.

  The Redis state the workers share is a record: sets by key (a duplicate-free list), the owner
  tags by job id, the queue lists and job registries by queue name, the worker heartbeat keys and the
  job statuses that rq maintains. Whether a Redis command answers is the argument
  \<open>ok\<close>, by command name; a command that does not answer is the \<open>except\<close> branch of its call. Key
  expiry (the 24 hour \<open>_SET_TTL\<close> backstop) is not modelled.
\<close>

section \<open>Redis\<close>

record redis =
  sets :: "string \<Rightarrow> string list"
  owners :: "string \<Rightarrow> string option"
  lanes :: "string \<Rightarrow> string list"
  wip :: "string \<Rightarrow> string list"
  deferred :: "string \<Rightarrow> string list"
  scheduled :: "string \<Rightarrow> string list"
  heartbeat :: "string \<Rightarrow> bool"
  job_status :: "string \<Rightarrow> string option"

type_synonym conn = "string \<Rightarrow> bool"

definition sadd :: "string \<Rightarrow> string \<Rightarrow> redis \<Rightarrow> redis" where
  "sadd key m r = r\<lparr>sets := (sets r)(key := List.insert m (sets r key))\<rparr>"

definition srem :: "string \<Rightarrow> string \<Rightarrow> redis \<Rightarrow> redis" where
  "srem key m r = r\<lparr>sets := (sets r)(key := removeAll m (sets r key))\<rparr>"

definition scard :: "string \<Rightarrow> redis \<Rightarrow> int" where
  "scard key r = int (length (sets r key))"

definition set_owner :: "string \<Rightarrow> string \<Rightarrow> redis \<Rightarrow> redis" where
  "set_owner job name r = r\<lparr>owners := (owners r)(job := Some name)\<rparr>"

definition del_owner :: "string \<Rightarrow> redis \<Rightarrow> redis" where
  "del_owner job r = r\<lparr>owners := (owners r)(job := None)\<rparr>"

definition HEAVY_RUNNING_KEY :: string where
  "HEAVY_RUNNING_KEY = ''governor:heavy_running''"

definition CATEGORY_RUNNING_PREFIX :: string where
  "CATEGORY_RUNNING_PREFIX = ''governor:running''"

definition category_running_key :: "string \<Rightarrow> string \<Rightarrow> string" where
  "category_running_key pool category = CATEGORY_RUNNING_PREFIX @ '':'' @ pool @ '':'' @ category"

definition RQ_QUEUES :: string where
  "RQ_QUEUES = ''rq:queues''"

definition queue_key :: "string \<Rightarrow> string" where
  "queue_key name = ''rq:queue:'' @ name"

definition LIVE_STATUSES :: "string list" where
  "LIVE_STATUSES = [''started'', ''queued'', ''deferred'', ''scheduled'']"

section \<open>The Lua scripts\<close>

definition RESERVE_LUA :: "string \<Rightarrow> string \<Rightarrow> int \<Rightarrow> redis \<Rightarrow> bool \<times> redis" where
  "RESERVE_LUA key job max_heavy r =
     (if scard key r < max_heavy then (True, sadd key job r) else (False, r))"

definition FAIR_RESERVE_LUA ::
  "string \<Rightarrow> string \<Rightarrow> string \<Rightarrow> int \<Rightarrow> bool \<Rightarrow> int \<Rightarrow> redis \<Rightarrow> bool \<times> redis" where
  "FAIR_RESERVE_LUA catkey heavykey job catcap isbg maxh r =
     (if catcap \<ge> 0 \<and> scard catkey r \<ge> catcap then (False, r)
      else if isbg \<and> scard heavykey r \<ge> maxh then (False, r)
      else (let r = sadd catkey job r in (True, if isbg then sadd heavykey job r else r)))"

text \<open>An empty Redis set does not exist, so deleting it when empty changes nothing.\<close>

definition GC_EMPTY_LUA :: "string \<Rightarrow> redis \<Rightarrow> redis" where
  "GC_EMPTY_LUA key r = (if scard key r = 0 then r\<lparr>sets := (sets r)(key := [])\<rparr> else r)"

definition GC_LANE_LUA :: "string \<Rightarrow> redis \<Rightarrow> redis" where
  "GC_LANE_LUA qname r =
     (if lanes r qname = [] \<and> wip r qname = [] \<and> deferred r qname = [] \<and> scheduled r qname = []
      then srem RQ_QUEUES (queue_key qname) r else r)"

section \<open>A worker\<close>

record worker =
  w_name :: string
  w_floor :: bool
  w_multitenancy :: bool
  w_queues :: "string list"
  gov_enabled :: bool
  gov_psi_limit :: pyfloat
  gov_max_heavy :: int
  gov_max_heavy_profile :: "nat option"
  gov_backoff :: int
  gov_category_weights :: "(string \<times> int) list"
  gov_category_max_inflight :: "(string \<times> int) list"
  gov_category_default_max_inflight :: "int option"
  wrr_cursor :: int
  w_deferring :: bool

text \<open>The three pressure readings of a poll: CPU, IO and memory.\<close>

type_synonym psi = "pyfloat \<times> pyfloat \<times> pyfloat"

definition is_governing :: "worker \<Rightarrow> bool" where
  "is_governing w = (gov_enabled w \<and> \<not> w_floor w)"

definition pressure_high :: "worker \<Rightarrow> psi \<Rightarrow> bool" where
  "pressure_high w p =
     (case p of (cpu, io, mem) \<Rightarrow> should_defer_heavy cpu io 0 (gov_psi_limit w) (10 ^ 9) mem)"

definition heavy_at_cap :: "conn \<Rightarrow> worker \<Rightarrow> redis \<Rightarrow> bool" where
  "heavy_at_cap ok w r =
     (if \<not> ok ''SCARD'' then False else scard HEAVY_RUNNING_KEY r \<ge> gov_max_heavy w)"

subsection \<open>Heavy slots\<close>

definition record_reservation_owner :: "conn \<Rightarrow> worker \<Rightarrow> string \<Rightarrow> redis \<Rightarrow> redis" where
  "record_reservation_owner ok w job r = (if ok ''SET'' then set_owner job (w_name w) r else r)"

definition reserve_heavy :: "conn \<Rightarrow> worker \<Rightarrow> string \<Rightarrow> redis \<Rightarrow> bool \<times> redis" where
  "reserve_heavy ok w job r =
     (if \<not> ok ''EVAL'' then (True, r)
      else (case RESERVE_LUA HEAVY_RUNNING_KEY job (gov_max_heavy w) r of
              (True, r') \<Rightarrow> (True, record_reservation_owner ok w job r')
            | (False, r') \<Rightarrow> (False, r')))"

definition release_heavy :: "conn \<Rightarrow> string \<Rightarrow> redis \<Rightarrow> redis" where
  "release_heavy ok job r =
     (if \<not> ok ''SREM'' then r
      else (let r = srem HEAVY_RUNNING_KEY job r in if ok ''DEL'' then del_owner job r else r))"

definition reservation_owner_alive :: "conn \<Rightarrow> redis \<Rightarrow> string \<Rightarrow> bool" where
  "reservation_owner_alive ok r job =
     (if \<not> ok ''GET'' then True
      else (case owners r job of
              None \<Rightarrow> True
            | Some owner \<Rightarrow>
                if owner = [] then True
                else if \<not> ok ''EXISTS'' then True else heartbeat r owner))"

definition stale :: "conn \<Rightarrow> redis \<Rightarrow> string \<Rightarrow> bool" where
  "stale ok r jid =
     ((case (if ok ''FETCH'' then job_status r jid else None) of
         None \<Rightarrow> True
       | Some s \<Rightarrow> s \<notin> set LIVE_STATUSES)
      \<or> \<not> reservation_owner_alive ok r jid)"

definition prune_member :: "conn \<Rightarrow> string \<Rightarrow> redis \<Rightarrow> string \<Rightarrow> redis" where
  "prune_member ok key r jid =
     (if stale ok r jid \<and> ok ''SREM''
      then (let r' = srem key jid r in if ok ''DEL'' then del_owner jid r' else r')
      else r)"

definition prune_stale_members :: "conn \<Rightarrow> string \<Rightarrow> redis \<Rightarrow> redis" where
  "prune_stale_members ok key r =
     (if \<not> ok ''SMEMBERS'' then r else foldl (prune_member ok key) r (sets r key))"

definition reconcile_heavy :: "conn \<Rightarrow> redis \<Rightarrow> redis" where
  "reconcile_heavy ok r = prune_stale_members ok HEAVY_RUNNING_KEY r"

subsection \<open>Per-category slots\<close>

definition category_cap :: "worker \<Rightarrow> string \<Rightarrow> int option" where
  "category_cap w category =
     (case map_of (gov_category_max_inflight w) category of
        Some c \<Rightarrow> Some c
      | None \<Rightarrow> gov_category_default_max_inflight w)"

definition category_inflight :: "conn \<Rightarrow> redis \<Rightarrow> string \<Rightarrow> string \<Rightarrow> int" where
  "category_inflight ok r pool category =
     (if \<not> ok ''SCARD'' then 0 else scard (category_running_key pool category) r)"

definition category_at_cap :: "conn \<Rightarrow> worker \<Rightarrow> string \<Rightarrow> string \<Rightarrow> redis \<Rightarrow> bool \<times> redis" where
  "category_at_cap ok w pool category r =
     (case category_cap w category of
        None \<Rightarrow> (False, r)
      | Some cap \<Rightarrow>
          if category_inflight ok r pool category < cap then (False, r)
          else (let r' = prune_stale_members ok (category_running_key pool category) r
                in (category_inflight ok r' pool category \<ge> cap, r')))"

definition reserve_fair ::
  "conn \<Rightarrow> worker \<Rightarrow> string \<Rightarrow> string \<Rightarrow> string \<Rightarrow> bool \<Rightarrow> redis \<Rightarrow> bool \<times> redis" where
  "reserve_fair ok w job pool category is_heavy r =
     (if \<not> ok ''EVAL'' then (True, r)
      else (case FAIR_RESERVE_LUA (category_running_key pool category) HEAVY_RUNNING_KEY job
                   (case category_cap w category of None \<Rightarrow> - 1 | Some c \<Rightarrow> c) is_heavy
                   (gov_max_heavy w) r of
              (True, r') \<Rightarrow> (True, record_reservation_owner ok w job r')
            | (False, r') \<Rightarrow> (False, r')))"

definition release_fair :: "conn \<Rightarrow> string \<Rightarrow> string \<Rightarrow> string \<Rightarrow> bool \<Rightarrow> redis \<Rightarrow> redis" where
  "release_fair ok job pool category is_heavy r =
     (let r = (if ok ''SREM'' then srem (category_running_key pool category) job r else r)
      in if is_heavy then release_heavy ok job r
         else if ok ''DEL'' then del_owner job r else r)"

section \<open>Discovery and ordering\<close>

definition derive_fair_targets :: "worker \<Rightarrow> (string \<times> string) list" where
  "derive_fair_targets w =
     remdups (concat (map (\<lambda>q. case parse_storage_queue q of
        Some (pool, None, tier) \<Rightarrow> if tier \<in> set FAIR_TIERS then [(pool, tier)] else []
      | _ \<Rightarrow> []) (w_queues w)))"

type_synonym active = "((string \<times> string) \<times> string list) list"

definition active_get :: "active \<Rightarrow> string \<times> string \<Rightarrow> string list" where
  "active_get a k = (case map_of a k of None \<Rightarrow> [] | Some cs \<Rightarrow> cs)"

definition discover_member :: "(string \<times> string) list \<Rightarrow> active \<Rightarrow> string \<Rightarrow> active" where
  "discover_member targets a name =
     (if \<not> startswith name ''rq:queue:'' then a
      else (case parse_storage_queue (drop (length ''rq:queue:'') name) of
              Some (pool, Some category, tier) \<Rightarrow>
                if (pool, tier) \<in> set targets
                then alist_set (pool, tier) (active_get a (pool, tier) @ [category]) a else a
            | _ \<Rightarrow> a))"

definition discover_fair_queues :: "conn \<Rightarrow> worker \<Rightarrow> redis \<Rightarrow> active" where
  "discover_fair_queues ok w r =
     (let targets = derive_fair_targets w
      in if targets = [] then [] else if \<not> ok ''SMEMBERS'' then []
         else foldl (discover_member targets) [] (sets r RQ_QUEUES))"

definition weight_of :: "(string \<times> int) list \<Rightarrow> string \<Rightarrow> nat" where
  "weight_of weights c = nat (max 1 (case map_of weights c of None \<Rightarrow> 1 | Some n \<Rightarrow> n))"

definition expand_weights :: "(string \<times> int) list \<Rightarrow> string list \<Rightarrow> string list" where
  "expand_weights weights cats = concat (map (\<lambda>c. replicate (weight_of weights c) c) cats)"

fun first_seen :: "string list \<Rightarrow> string list \<Rightarrow> string list" where
  "first_seen seen [] = []"
| "first_seen seen (c # cs) =
     (if c \<notin> set seen then c # first_seen (c # seen) cs else first_seen seen cs)"

definition weighted_rotation :: "string list \<Rightarrow> (string \<times> int) list \<Rightarrow> int \<Rightarrow> string list" where
  "weighted_rotation categories weights cursor =
     (let cats = sort categories
      in if cats = [] then []
         else (let expanded = expand_weights weights cats;
                   off = nat (cursor mod int (length expanded))
               in first_seen [] (drop off expanded @ take off expanded)))"

definition ordered_base_for_poll :: "worker \<Rightarrow> string list" where
  "ordered_base_for_poll w =
     (let base = w_queues w
      in if \<not> w_floor w \<or> length base < 2 then base
         else (let off = nat (wrr_cursor w mod int (length base)) in drop off base @ take off base))"

fun drop_at_cap :: "conn \<Rightarrow> worker \<Rightarrow> string \<Rightarrow> string list \<Rightarrow> redis \<Rightarrow> string list \<times> redis" where
  "drop_at_cap ok w pool [] r = ([], r)"
| "drop_at_cap ok w pool (c # cs) r =
     (let (full, r') = category_at_cap ok w pool c r; (rest, r'') = drop_at_cap ok w pool cs r'
      in (if full then rest else c # rest, r''))"

definition category_lane :: "string \<Rightarrow> string \<Rightarrow> string \<Rightarrow> string" where
  "category_lane pool c tier = ''storage.'' @ pool @ ''.'' @ c @ ''.'' @ tier"

text \<open>What one queue of the static base set contributes to the order.\<close>

definition fair_group ::
  "conn \<Rightarrow> worker \<Rightarrow> active \<Rightarrow> bool \<Rightarrow> string \<Rightarrow> redis \<Rightarrow> string list \<times> redis" where
  "fair_group ok w active defer_bg q r =
     (case (case parse_storage_queue q of
              Some (pool, None, tier) \<Rightarrow> if tier \<in> set FAIR_TIERS then Some (pool, tier) else None
            | _ \<Rightarrow> None) of
        None \<Rightarrow> (if defer_bg \<and> is_deferrable_queue q then ([], r) else ([q], r))
      | Some (pool, tier) \<Rightarrow>
          if tier \<in> set DEFERRABLE_TIERS \<and> defer_bg then ([], r)
          else
            (let cats = active_get active (pool, tier);
                 (cats, r) = (if is_governing w then drop_at_cap ok w pool cats r else (cats, r));
                 lns = map (\<lambda>c. category_lane pool c tier)
                         (weighted_rotation cats (gov_category_weights w) (wrr_cursor w));
                 (full, r) = (if is_governing w then category_at_cap ok w pool NULL_CATEGORY r
                              else (False, r))
             in (lns @ (if full then [] else [q]), r)))"

fun fair_order :: "conn \<Rightarrow> worker \<Rightarrow> active \<Rightarrow> bool \<Rightarrow> string list \<Rightarrow> redis \<Rightarrow> string list \<times> redis" where
  "fair_order ok w active defer_bg [] r = ([], r)"
| "fair_order ok w active defer_bg (q # qs) r =
     (let (lns, r) = fair_group ok w active defer_bg q r;
          (rest, r) = fair_order ok w active defer_bg qs r
      in (lns @ rest, r))"

definition fair_ordered_queues ::
  "conn \<Rightarrow> worker \<Rightarrow> bool \<Rightarrow> redis \<Rightarrow> string list \<times> worker \<times> redis" where
  "fair_ordered_queues ok w defer_bg r =
     (let active = discover_fair_queues ok w r;
          w = w\<lparr>wrr_cursor := wrr_cursor w + 1\<rparr>;
          (ordered, r) = fair_order ok w active defer_bg (ordered_base_for_poll w) r
      in (ordered, w, r))"

definition stray_lanes :: "bool \<Rightarrow> (string \<times> string) \<times> string list \<Rightarrow> string list" where
  "stray_lanes defer_bg entry =
     (case entry of ((pool, tier), cats) \<Rightarrow>
        if defer_bg \<and> tier \<in> set DEFERRABLE_TIERS then []
        else map (\<lambda>c. category_lane pool c tier) (sort cats))"

definition flat_ordered_queues ::
  "conn \<Rightarrow> worker \<Rightarrow> bool \<Rightarrow> redis \<Rightarrow> string list \<times> worker" where
  "flat_ordered_queues ok w defer_bg r =
     (let w = w\<lparr>wrr_cursor := wrr_cursor w + 1\<rparr>;
          base = filter (\<lambda>q. \<not> (defer_bg \<and> is_deferrable_queue q)) (ordered_base_for_poll w);
          strays = concat (map (stray_lanes defer_bg) (discover_fair_queues ok w r))
      in (base @ strays, w))"

section \<open>Reconcile, seeding and live configuration\<close>

fun gc_members :: "conn \<Rightarrow> (string \<times> string) list \<Rightarrow> string list \<Rightarrow> redis \<Rightarrow> redis" where
  "gc_members ok targets [] r = r"
| "gc_members ok targets (name # ms) r =
     gc_members ok targets ms
       (if \<not> startswith name ''rq:queue:'' then r
        else (let qname = drop (length ''rq:queue:'') name
              in case parse_storage_queue qname of
                   Some (pool, Some _, tier) \<Rightarrow>
                     if (pool, tier) \<in> set targets \<and> ok ''EVAL'' then GC_LANE_LUA qname r else r
                 | _ \<Rightarrow> r))"

definition gc_drained_category_lanes :: "conn \<Rightarrow> worker \<Rightarrow> redis \<Rightarrow> redis" where
  "gc_drained_category_lanes ok w r =
     (if \<not> ok ''SMEMBERS'' then r
      else gc_members ok (derive_fair_targets w) (sets r RQ_QUEUES) r)"

text \<open>\<open>keys\<close> is the result of the \<open>SCAN\<close> for the per-category prefix.\<close>

definition reconcile_categories :: "conn \<Rightarrow> worker \<Rightarrow> string list \<Rightarrow> redis \<Rightarrow> redis" where
  "reconcile_categories ok w keys r =
     gc_drained_category_lanes ok w
       (foldl (\<lambda>r k. let r = prune_stale_members ok k r
                     in if ok ''EVAL'' then GC_EMPTY_LUA k r else r)
          r (if ok ''SCAN'' then keys else []))"

definition seed_lanes :: "conn \<Rightarrow> worker \<Rightarrow> redis \<Rightarrow> (string \<times> string \<times> string option \<times> string) list" where
  "seed_lanes ok w r =
     concat (map (\<lambda>q. case parse_storage_queue q of
         Some (pool, None, tier) \<Rightarrow>
           if tier \<in> set FAIR_TIERS
           then [(q, pool, if w_multitenancy w then Some NULL_CATEGORY else None, tier)] else []
       | _ \<Rightarrow> []) (w_queues w))
     @ concat (map (\<lambda>((pool, tier), cats). map (\<lambda>c. (category_lane pool c tier, pool, Some c, tier)) cats)
         (discover_fair_queues ok w r))"

definition seed_job :: "conn \<Rightarrow> string \<Rightarrow> string option \<Rightarrow> string \<Rightarrow> redis \<Rightarrow> string \<Rightarrow> redis" where
  "seed_job ok pool category tier r jid =
     (if \<not> ok ''SADD'' then r
      else (let r = (if tier \<in> set HEAVY_TIERS then sadd HEAVY_RUNNING_KEY jid r else r)
            in case category of None \<Rightarrow> r | Some c \<Rightarrow> sadd (category_running_key pool c) jid r))"

definition seed_running_from_registries :: "conn \<Rightarrow> worker \<Rightarrow> redis \<Rightarrow> redis" where
  "seed_running_from_registries ok w r =
     foldl (\<lambda>r (qname, pool, category, tier).
              if ok ''ZRANGE'' then foldl (seed_job ok pool category tier) r (wip r qname) else r)
       r (seed_lanes ok w r)"

definition gov_defaults :: gov_env where
  "gov_defaults = \<lparr>env_enabled = True, env_psi_limit = Fin 40, env_max_heavy = 2, env_backoff = 3,
                   env_category_default_max_inflight = None\<rparr>"

text \<open>The integer of a merged cap; a merged cap is always an integer.\<close>

definition cap_int :: "json \<Rightarrow> int" where
  "cap_int v = (case v of JInt n \<Rightarrow> n | _ \<Rightarrow> 0)"

definition refresh_live_config ::
  "conn \<Rightarrow> (string \<Rightarrow> (int \<times> int) option) \<Rightarrow> json \<Rightarrow> worker \<Rightarrow> redis \<Rightarrow> (worker \<times> redis) res" where
  "refresh_live_config ok local_now raw w r =
     (let block = (case raw of JDict kvs \<Rightarrow> if ok ''GET'' then kvs else [] | _ \<Rightarrow> [])
      in case merge_live_config local_now block gov_defaults of
           Inl e \<Rightarrow> Inl e
         | Inr eff \<Rightarrow>
             (let w' = w\<lparr>gov_enabled := lc_enabled eff, gov_psi_limit := lc_psi_limit eff,
                         gov_max_heavy := cap_int (lc_max_heavy eff),
                         gov_max_heavy_profile := lc_max_heavy_profile eff,
                         gov_backoff := lc_backoff eff,
                         gov_category_weights := lc_category_weights eff,
                         gov_category_max_inflight := lc_category_max_inflight eff,
                         gov_category_default_max_inflight := lc_category_default_max_inflight eff\<rparr>
              in Inr (w', if lc_enabled eff \<and> \<not> gov_enabled w \<and> \<not> w_floor w
                          then seed_running_from_registries ok w' r else r)))"

section \<open>Admission and release\<close>

text \<open>What \<open>_admit\<close> leaves on the job for \<open>execute_job\<close> to release.\<close>

datatype reservation = NoRes | FairRes string string bool | HeavyRes

definition push_job_id :: "string \<Rightarrow> string \<Rightarrow> redis \<Rightarrow> redis" where
  "push_job_id qname job r = r\<lparr>lanes := (lanes r)(qname := job # lanes r qname)\<rparr>"

definition push_back :: "conn \<Rightarrow> string \<Rightarrow> string \<Rightarrow> redis \<Rightarrow> redis" where
  "push_back ok qname job r =
     (let r = push_job_id qname job r in if ok ''SADD'' then sadd RQ_QUEUES (queue_key qname) r else r)"

definition admit ::
  "conn \<Rightarrow> worker \<Rightarrow> psi \<Rightarrow> string \<Rightarrow> string \<Rightarrow> bool \<Rightarrow> redis \<Rightarrow> bool \<times> reservation \<times> redis" where
  "admit ok w p job qname defer_bg r =
     (let parsed = parse_storage_queue qname;
          fair = (w_multitenancy w \<and> (case parsed of None \<Rightarrow> False | Some (_, _, tier) \<Rightarrow> tier \<in> set FAIR_TIERS));
          governing = is_governing w
      in if fair \<and> governing then
           (case parsed of
              Some (pool, cat, tier) \<Rightarrow>
                (let category = (case cat of Some c \<Rightarrow> c | None \<Rightarrow> NULL_CATEGORY);
                     capped = (tier \<in> set HEAVY_TIERS);
                     deferrable = (tier \<in> set DEFERRABLE_TIERS)
                 in if deferrable \<and> (defer_bg \<or> pressure_high w p)
                    then (False, NoRes, push_back ok qname job r)
                    else (case reserve_fair ok w job pool category capped r of
                            (False, r') \<Rightarrow> (False, NoRes, push_back ok qname job r')
                          | (True, r') \<Rightarrow> (True, FairRes pool category capped, r')))
            | None \<Rightarrow> (True, NoRes, r))
         else if \<not> fair \<and> governing \<and> is_deferrable_queue qname then
           (if defer_bg \<or> pressure_high w p then (False, NoRes, push_back ok qname job r)
            else if is_heavy_queue qname then
              (case reserve_heavy ok w job r of
                 (False, r') \<Rightarrow> (False, NoRes, push_back ok qname job r')
               | (True, r') \<Rightarrow> (True, HeavyRes, r'))
            else (True, NoRes, r))
         else (True, NoRes, r))"

text \<open>The new deferral state of a worker, and the reason counted on a rising edge.\<close>

definition note_defer :: "string option \<Rightarrow> worker \<Rightarrow> bool \<times> worker \<times> string option" where
  "note_defer reason w =
     (let now = (reason \<noteq> None)
      in (now, w\<lparr>w_deferring := now\<rparr>, if now \<and> \<not> w_deferring w then reason else None))"

definition defer_background ::
  "conn \<Rightarrow> worker \<Rightarrow> psi \<Rightarrow> redis \<Rightarrow> (bool \<times> worker \<times> string option) \<times> redis" where
  "defer_background ok w p r =
     (if \<not> is_governing w then (note_defer None w, r)
      else if pressure_high w p then (note_defer (Some ''psi'') w, r)
      else if heavy_at_cap ok w r
      then (let r' = reconcile_heavy ok r
            in (note_defer (if heavy_at_cap ok w r' then Some ''at_cap'' else None) w, r'))
      else (note_defer None w, r))"

text \<open>The \<open>finally\<close> of \<open>execute_job\<close>.\<close>

definition execute_release :: "conn \<Rightarrow> string \<Rightarrow> reservation \<Rightarrow> redis \<Rightarrow> redis" where
  "execute_release ok job reserved r =
     (case reserved of
        NoRes \<Rightarrow> r
      | FairRes pool category is_heavy \<Rightarrow> release_fair ok job pool category is_heavy r
      | HeavyRes \<Rightarrow> release_heavy ok job r)"

section \<open>Weighted rotation\<close>

lemma set_first_seen: "set (first_seen seen cs) = set cs - set seen"
  by (induction seen cs rule: first_seen.induct) auto

lemma distinct_first_seen: "distinct (first_seen seen cs)"
  by (induction seen cs rule: first_seen.induct) (auto simp: set_first_seen)

lemma hd_first_seen: "cs \<noteq> [] \<Longrightarrow> hd (first_seen [] cs) = hd cs"
  by (cases cs) auto

lemma weight_pos [simp]: "0 < weight_of ws c"
  by (simp add: weight_of_def)

lemma set_expand_weights: "set (expand_weights ws cats) = set cats"
  by (auto simp: expand_weights_def)

lemma expand_weights_Nil [simp]: "expand_weights ws cats = [] \<longleftrightarrow> cats = []"
  using set_expand_weights [of ws cats] by (metis set_empty)

lemma length_expand_weights: "length (expand_weights ws cats) = (\<Sum>c\<leftarrow>cats. weight_of ws c)"
  by (simp add: expand_weights_def length_concat comp_def)

lemma count_expand_weights:
  "count_list (expand_weights ws cats) c = count_list cats c * weight_of ws c"
proof (induction cats)
  case (Cons d cats)
  have "count_list (replicate n d) c = (if c = d then n else 0)" for n
    by (induction n) auto
  with Cons show ?case by (auto simp: expand_weights_def count_list_append)
qed (simp add: expand_weights_def)

lemma sort_Nil [simp]: "sort xs = [] \<longleftrightarrow> xs = []"
  by (metis set_empty set_sort)

lemma set_weighted_rotation: "set (weighted_rotation cats ws k) = set cats"
proof -
  have "set (drop n xs) \<union> set (take n xs) = set xs" for n and xs :: "string list"
    by (metis append_take_drop_id set_append sup_commute)
  then show ?thesis
    by (auto simp: weighted_rotation_def Let_def set_first_seen set_expand_weights)
qed

lemma distinct_weighted_rotation: "distinct (weighted_rotation cats ws k)"
  by (simp add: weighted_rotation_def Let_def distinct_first_seen)

lemma hd_weighted_rotation:
  assumes "cats \<noteq> []"
  shows "hd (weighted_rotation cats ws k) =
    (let e = expand_weights ws (sort cats) in e ! nat (k mod int (length e)))"
proof -
  let ?e = "expand_weights ws (sort cats)" and ?o = "nat (k mod int (length (expand_weights ws (sort cats))))"
  have e: "?e \<noteq> []" using assms by simp
  then have o: "?o < length ?e" by (simp add: nat_less_iff)
  then have "hd (drop ?o ?e @ take ?o ?e) = ?e ! ?o" by (simp add: hd_drop_conv_nth)
  moreover have "drop ?o ?e @ take ?o ?e \<noteq> []" using e o by simp
  ultimately show ?thesis using assms by (simp add: weighted_rotation_def Let_def hd_first_seen)
qed

lemma count_list_map_upt: "length (filter (\<lambda>k. f k = c) ks) = count_list (map f ks) c"
  by (induction ks) auto

lemma count_list_sort [simp]: "count_list (sort xs) x = count_list xs x"
  by (metis count_mset mset_sort)

lemma count_list_rotate [simp]: "count_list (rotate n xs) x = count_list xs x"
proof -
  have "count_list (rotate1 xs) x = count_list xs x" for xs by (cases xs) simp_all
  then show ?thesis by (induction n) simp_all
qed

lemma count_list_distinct: "distinct xs \<Longrightarrow> x \<in> set xs \<Longrightarrow> count_list xs x = 1"
  by (induction xs) auto

lemma rotation_heads:
  assumes "cats \<noteq> []"
  shows "map (\<lambda>k. hd (weighted_rotation cats ws (cursor + int k))) [0..<length (expand_weights ws (sort cats))]
    = rotate (nat (cursor mod int (length (expand_weights ws (sort cats))))) (expand_weights ws (sort cats))"
    (is "?l = rotate ?m ?e")
proof (rule nth_equalityI)
  fix i assume "i < length ?l"
  then have i: "i < length ?e" by simp
  then have pos: "0 < int (length ?e)" by linarith
  have "nat ((cursor + int i) mod int (length ?e)) = (?m + i) mod length ?e"
  proof -
    have "int ((?m + i) mod length ?e) = (cursor mod int (length ?e) + int i) mod int (length ?e)"
      using pos by (simp add: zmod_int)
    also have "\<dots> = (cursor + int i) mod int (length ?e)" by (simp add: mod_add_left_eq)
    finally show ?thesis by linarith
  qed
  then show "?l ! i = rotate ?m ?e ! i"
    using i assms by (simp add: nth_rotate hd_weighted_rotation Let_def)
qed simp

text \<open>C10: Weighted fairness of the dequeue order: in any window of as many consecutive polls as the
  weights add up to, each category with active lanes leads the order exactly as often as its
  weight (1 when unset), and every poll's order lists every category exactly once.\<close>

theorem weighted_rotation_share:
  assumes "distinct cats" and "c \<in> set cats"
  shows "length (filter (\<lambda>k. hd (weighted_rotation cats ws (cursor + int k)) = c)
           [0..<(\<Sum>c\<leftarrow>cats. weight_of ws c)]) = weight_of ws c
     \<and> set (weighted_rotation cats ws cursor) = set cats \<and> distinct (weighted_rotation cats ws cursor)"
proof -
  have ne: "cats \<noteq> []" using assms(2) by auto
  have "(\<Sum>c\<leftarrow>cats. weight_of ws c) = length (expand_weights ws (sort cats))"
    unfolding length_expand_weights
    by (metis mset_map mset_sort sum_mset_sum_list)
  then have "length (filter (\<lambda>k. hd (weighted_rotation cats ws (cursor + int k)) = c)
           [0..<(\<Sum>c\<leftarrow>cats. weight_of ws c)])
      = count_list (expand_weights ws (sort cats)) c"
    by (simp only: count_list_map_upt rotation_heads [OF ne] count_list_rotate)
  also have "\<dots> = weight_of ws c"
    using assms by (simp add: count_expand_weights count_list_distinct)
  finally show ?thesis by (simp add: set_weighted_rotation distinct_weighted_rotation)
qed

theorem weighted_rotation_share_witness:
  "distinct [''b'', ''a''] \<and> ''a'' \<in> set [''b'', ''a''] \<and>
   length (filter (\<lambda>k. hd (weighted_rotation [''b'', ''a''] [(''a'', 3)] (5 + int k)) = ''a'')
      [0..<(\<Sum>c\<leftarrow>[''b'', ''a'']. weight_of [(''a'', 3)] c)]) = 3"
  using weighted_rotation_share [of "[''b'', ''a'']" "''a''" "[(''a'', 3)]" 5]
  by (simp add: weight_of_def)

section \<open>The dequeue order\<close>

lemma length_split_on: "length (split_on c s) = Suc (count_list s c)"
  by (induction s) (auto split: list.splits)

lemma last_split_on: "last (split_on c (p @ c # s)) = last (split_on c s)"
proof (induction p)
  case (Cons x p)
  have "split_on c (p @ c # s) = y # ys \<Longrightarrow> ys \<noteq> []" for y ys
    using length_split_on [of c "p @ c # s"] by auto
  with Cons show ?case by (auto split: list.splits)
qed simp

lemma parse_tier_last:
  "parse_storage_queue q = Some (pool, cat, tier) \<Longrightarrow> tier = last (split_on (CHR ''.'') q)"
  by (auto simp: parse_storage_queue_def split: if_splits list.splits)

lemma category_lane_tier:
  assumes "parse_storage_queue (category_lane pool c tier) = Some (p', cat, t')" and "CHR ''.'' \<notin> set tier"
  shows "t' = tier"
proof -
  have "category_lane pool c tier = (''storage.'' @ pool @ ''.'' @ c) @ CHR ''.'' # tier"
    by (simp add: category_lane_def)
  then show ?thesis
    using parse_tier_last [OF assms(1)] assms(2) by (simp only: last_split_on) (simp add: split_on_free)
qed

lemma category_lane_deferrable:
  assumes "tier \<in> set FAIR_TIERS" "tier \<notin> set DEFERRABLE_TIERS"
  shows "\<not> is_deferrable_queue (category_lane pool c tier)"
proof -
  have t: "tier \<in> set TIERS" using assms(1) by (auto simp: tier_simps)
  show ?thesis
    using category_lane_tier [OF _ tiers_dotfree [OF t]] assms(2) effective_tier_id [OF t]
    by (fastforce simp: is_deferrable_queue_def split: option.splits)
qed

lemma parse_category_lane:
  assumes "CHR ''.'' \<notin> set pool" "CHR ''.'' \<notin> set c" "tier \<in> set TIERS"
  shows "parse_storage_queue (category_lane pool c tier) = Some (pool, Some c, tier)"
  using parse_category_queue [OF assms(1,2) tiers_dotfree [OF assms(3)]]
  by (simp add: category_lane_def lane_name_def)

lemma fair_group_deferring:
  assumes "q \<in> set (fst (fair_group ok w active True b r))"
  shows "\<not> is_deferrable_queue q"
proof -
  have base: "parse_storage_queue b = Some (pool, None, tier) \<Longrightarrow> tier \<in> set FAIR_TIERS \<Longrightarrow>
      tier \<notin> set DEFERRABLE_TIERS \<Longrightarrow> \<not> is_deferrable_queue b" for pool tier
    using effective_tier_id [of tier] by (auto simp: is_deferrable_queue_def tier_simps)
  show ?thesis
    using assms base
    by (auto simp: fair_group_def Let_def category_lane_deferrable split: option.splits prod.splits if_splits)
qed

lemma fair_order_Cons_set:
  "set (fst (fair_order ok w active d (q # qs) r)) =
     set (fst (fair_group ok w active d q r))
     \<union> set (fst (fair_order ok w active d qs (snd (fair_group ok w active d q r))))"
  by (simp add: Let_def split_beta)

lemma fair_order_deferring:
  "q \<in> set (fst (fair_order ok w active True qs r)) \<Longrightarrow> \<not> is_deferrable_queue q"
proof (induction qs arbitrary: r)
  case (Cons b qs)
  then show ?case
    using fair_order_Cons_set [of ok w active True b qs r] fair_group_deferring
    by (auto simp del: fair_order.simps)
qed simp

lemma flat_order_deferring:
  "q \<in> set (fst (flat_ordered_queues ok w True r)) \<Longrightarrow>
   (\<And>pool tier cats. ((pool, tier), cats) \<in> set (discover_fair_queues ok (w\<lparr>wrr_cursor := wrr_cursor w + 1\<rparr>) r)
      \<Longrightarrow> tier \<in> set FAIR_TIERS) \<Longrightarrow> \<not> is_deferrable_queue q"
  by (fastforce simp: flat_ordered_queues_def Let_def stray_lanes_def category_lane_deferrable split: if_splits)

lemma fair_targets_tier: "(pool, tier) \<in> set (derive_fair_targets w) \<Longrightarrow> tier \<in> set FAIR_TIERS"
  by (auto simp: derive_fair_targets_def split: option.splits if_splits)

lemma derive_fair_targets_iff:
  "(pool, tier) \<in> set (derive_fair_targets w) \<longleftrightarrow>
     tier \<in> set FAIR_TIERS \<and> (\<exists>q \<in> set (w_queues w). parse_storage_queue q = Some (pool, None, tier))"
  by (force simp: derive_fair_targets_def split: option.splits if_splits)

lemma discover_member_keys:
  "fst ` set (discover_member targets a name) \<subseteq> fst ` set a \<union> set targets"
  by (auto simp: discover_member_def keys_alist_set image_subset_iff
      split: option.splits if_splits)
    (metis fst_conv image_eqI insertE keys_alist_set)+

lemma discover_keys:
  "fst ` set (foldl (discover_member targets) a ms) \<subseteq> fst ` set a \<union> set targets"
proof (induction ms arbitrary: a)
  case (Cons m ms)
  show ?case using Cons.IH [of "discover_member targets a m"] discover_member_keys [of targets a m] by auto
qed simp

lemma discover_fair_queues_tier:
  assumes "((pool, tier), cats) \<in> set (discover_fair_queues ok w r)"
  shows "tier \<in> set FAIR_TIERS"
proof -
  have "(pool, tier) \<in> fst ` set (discover_fair_queues ok w r)" using assms by force
  also have "\<dots> \<subseteq> set (derive_fair_targets w)"
    using discover_keys [of "derive_fair_targets w" "[]"]
    by (auto simp: discover_fair_queues_def Let_def split: if_splits)
  finally show ?thesis by (rule fair_targets_tier)
qed

text \<open>While a worker defers, no lane of the dequeue order it hands to rq holds deferrable work:
  no template, maintenance, reclaim or background lane, flat, per-category or with a legacy name,
  is polled, with or without multitenancy and whatever lanes are registered.\<close>

theorem deferring_hides_heavy_lanes:
  "list_all (\<lambda>q. \<not> is_deferrable_queue q) (fst (fair_ordered_queues ok w True r))
   \<and> list_all (\<lambda>q. \<not> is_deferrable_queue q) (fst (flat_ordered_queues ok w True r))"
proof
  show "list_all (\<lambda>q. \<not> is_deferrable_queue q) (fst (fair_ordered_queues ok w True r))"
    by (auto simp: list_all_iff fair_ordered_queues_def Let_def split: prod.splits)
      (metis fair_order_deferring fst_conv)
  show "list_all (\<lambda>q. \<not> is_deferrable_queue q) (fst (flat_ordered_queues ok w True r))"
    unfolding list_all_iff using flat_order_deferring discover_fair_queues_tier by blast
qed

lemma set_ordered_base [simp]: "set (ordered_base_for_poll w) = set (w_queues w)"
  unfolding ordered_base_for_poll_def Let_def
  by (auto dest: in_set_dropD in_set_takeD) (metis UnE append_take_drop_id set_append)

lemma discover_member_keeps:
  "c \<in> set (active_get a k) \<Longrightarrow> c \<in> set (active_get (discover_member targets a name) k)"
  by (auto simp: discover_member_def active_get_def split: option.splits if_splits)

lemma discover_keeps:
  "c \<in> set (active_get a k) \<Longrightarrow> c \<in> set (active_get (foldl (discover_member targets) a ms) k)"
  by (induction ms arbitrary: a) (auto intro: discover_member_keeps)

lemma discover_complete:
  assumes "queue_key q \<in> set ms" "parse_storage_queue q = Some (pool, Some c, tier)" "(pool, tier) \<in> set targets"
  shows "c \<in> set (active_get (foldl (discover_member targets) a ms) (pool, tier))"
  using assms(1)
proof (induction ms arbitrary: a)
  case (Cons m ms)
  show ?case
  proof (cases "m = queue_key q")
    case True
    have "c \<in> set (active_get (discover_member targets a m) (pool, tier))"
      using assms(2,3) by (simp add: True discover_member_def queue_key_def active_get_def)
    then show ?thesis by (simp add: discover_keeps)
  qed (use Cons in auto)
qed simp

lemma drop_at_cap_keeps:
  "c \<in> set cs \<Longrightarrow> category_cap w c = None \<Longrightarrow> c \<in> set (fst (drop_at_cap ok w pool cs r))"
proof (induction cs arbitrary: r)
  case (Cons d cs)
  then show ?case by (auto simp: Let_def split_beta category_at_cap_def)
qed simp

lemma fair_order_group:
  "q \<in> set qs \<Longrightarrow> \<exists>r'. set (fst (fair_group ok w active d q r')) \<subseteq> set (fst (fair_order ok w active d qs r))"
proof (induction qs arbitrary: r)
  case (Cons b qs)
  show ?case
  proof (cases "q = b")
    case False
    then have "q \<in> set qs" using Cons.prems by simp
    from Cons.IH [OF this, of "snd (fair_group ok w active d b r)"]
    show ?thesis unfolding fair_order_Cons_set by blast
  qed (auto simp: fair_order_Cons_set simp del: fair_order.simps)
qed simp

lemma discovered_category:
  assumes "ok ''SMEMBERS''" "queue_key (category_lane pool c tier) \<in> set (sets r RQ_QUEUES)"
    and "CHR ''.'' \<notin> set pool" "CHR ''.'' \<notin> set c" "(pool, tier) \<in> set (derive_fair_targets w)"
  shows "c \<in> set (active_get (discover_fair_queues ok w r) (pool, tier))"
proof -
  have "tier \<in> set TIERS" using fair_targets_tier [OF assms(5)] by (auto simp: tier_simps)
  note lane = parse_category_lane [OF assms(3,4) this]
  show ?thesis
    using discover_complete [OF assms(2) lane assms(5)] assms(1,5)
    by (auto simp: discover_fair_queues_def Let_def)
qed

lemma derive_fair_targets_cursor [simp]:
  "derive_fair_targets (w\<lparr>wrr_cursor := n\<rparr>) = derive_fair_targets w"
  "discover_fair_queues ok (w\<lparr>wrr_cursor := n\<rparr>) r = discover_fair_queues ok w r"
  "is_governing (w\<lparr>wrr_cursor := n\<rparr>) = is_governing w" "category_cap (w\<lparr>wrr_cursor := n\<rparr>) = category_cap w"
  by (simp_all add: derive_fair_targets_def discover_fair_queues_def is_governing_def category_cap_def fun_eq_iff
      split: option.split)

lemma flat_order_discovered:
  assumes "((pool, tier), cats) \<in> set (discover_fair_queues ok w r)" "c \<in> set cats"
    and "\<not> (defer_bg \<and> tier \<in> set DEFERRABLE_TIERS)"
  shows "category_lane pool c tier \<in> set (fst (flat_ordered_queues ok w defer_bg r))"
proof -
  have "category_lane pool c tier \<in> set (stray_lanes defer_bg ((pool, tier), cats))"
    using assms(2,3) by (auto simp: stray_lanes_def)
  then show ?thesis
    using assms(1) unfolding flat_ordered_queues_def Let_def by auto
qed

text \<open>No registered lane is stranded. A per-category lane of a pool and tier the worker serves,
  registered in \<open>rq:queues\<close>, is in the poll's dequeue order, with and without multitenancy, unless
  its tier is being deferred or the worker governs and the category has a cap.\<close>

theorem registered_lane_is_polled:
  assumes "ok ''SMEMBERS''" "queue_key (category_lane pool c tier) \<in> set (sets r RQ_QUEUES)"
    and "CHR ''.'' \<notin> set pool" "CHR ''.'' \<notin> set c" "(pool, tier) \<in> set (derive_fair_targets w)"
    and "\<not> (defer_bg \<and> tier \<in> set DEFERRABLE_TIERS)"
    and "\<not> is_governing w \<or> category_cap w c = None"
  shows "category_lane pool c tier \<in> set (fst (fair_ordered_queues ok w defer_bg r))
       \<and> category_lane pool c tier \<in> set (fst (flat_ordered_queues ok w defer_bg r))"
proof
  let ?w = "w\<lparr>wrr_cursor := wrr_cursor w + 1\<rparr>" and ?a = "discover_fair_queues ok w r"
  note c = discovered_category [where ok = ok, OF assms(1-5)]
  obtain q where q: "q \<in> set (w_queues w)" "parse_storage_queue q = Some (pool, None, tier)"
    and t: "tier \<in> set FAIR_TIERS"
    using assms(5) by (auto simp: derive_fair_targets_iff)
  have grp: "category_lane pool c tier \<in> set (fst (fair_group ok ?w ?a defer_bg q r'))" for r'
    using q(2) t assms(6,7) c drop_at_cap_keeps [of c "active_get ?a (pool, tier)" ?w ok pool r']
    by (auto simp: fair_group_def Let_def split_beta set_weighted_rotation)
  have "q \<in> set (ordered_base_for_poll ?w)" using q(1) by simp
  from fair_order_group [OF this, of ok ?w ?a defer_bg r] grp
  show "category_lane pool c tier \<in> set (fst (fair_ordered_queues ok w defer_bg r))"
    by (auto simp: fair_ordered_queues_def Let_def split_beta)
  obtain cats where "((pool, tier), cats) \<in> set ?a" "c \<in> set cats"
    using c by (cases "map_of ?a (pool, tier)") (auto simp: active_get_def dest: map_of_SomeD)
  then show "category_lane pool c tier \<in> set (fst (flat_ordered_queues ok w defer_bg r))"
    using assms(6) by (intro flat_order_discovered)
qed

definition idle_redis :: redis where
  "idle_redis = \<lparr>sets = (\<lambda>_. []), owners = (\<lambda>_. None), lanes = (\<lambda>_. []), wip = (\<lambda>_. []),
     deferred = (\<lambda>_. []), scheduled = (\<lambda>_. []), heartbeat = (\<lambda>_. True), job_status = (\<lambda>_. Some ''queued'')\<rparr>"

definition sample_worker :: worker where
  "sample_worker = \<lparr>w_name = ''w1'', w_floor = False, w_multitenancy = True,
     w_queues = [''storage.p.interactive'', ''storage.p.maintenance''], gov_enabled = True,
     gov_psi_limit = Fin 40, gov_max_heavy = 2, gov_max_heavy_profile = None, gov_backoff = 3,
     gov_category_weights = [], gov_category_max_inflight = [], gov_category_default_max_inflight = None,
     wrr_cursor = 0, w_deferring = False\<rparr>"

theorem registered_lane_is_polled_witness:
  "let r = sadd RQ_QUEUES (queue_key (category_lane ''p'' ''c'' ''maintenance'')) idle_redis
   in category_lane ''p'' ''c'' ''maintenance'' \<in> set (fst (fair_ordered_queues (\<lambda>_. True) sample_worker False r))
      \<and> category_lane ''p'' ''c'' ''maintenance'' \<in> set (fst (flat_ordered_queues (\<lambda>_. True) sample_worker False r))"
proof -
  let ?r = "sadd RQ_QUEUES (queue_key (category_lane ''p'' ''c'' ''maintenance'')) idle_redis"
  have r: "queue_key (category_lane ''p'' ''c'' ''maintenance'') \<in> set (sets ?r RQ_QUEUES)"
    by (simp add: sadd_def)
  have t: "(''p'', ''maintenance'') \<in> set (derive_fair_targets sample_worker)"
    by (simp add: derive_fair_targets_def sample_worker_def parse_storage_queue_def tier_simps)
  have d: "CHR ''.'' \<notin> set ''p''" "CHR ''.'' \<notin> set ''c''" by simp_all
  have c: "\<not> is_governing sample_worker \<or> category_cap sample_worker ''c'' = None"
    by (simp add: category_cap_def sample_worker_def)
  show ?thesis
    unfolding Let_def
    by (rule registered_lane_is_polled [where ok = "\<lambda>_. True" and defer_bg = False, OF TrueI r d(1) d(2) t _ c]) simp
qed

end
