(* ===== verification/Fleet.thy ===== *)
theory Fleet
  imports Governed_Worker
begin

text \<open>
  A fleet of governed workers sharing one Redis: the step relation interleaves the admissions and
  denials of any worker under any live configuration, job completions, worker crashes, reconciles
  and the changes the environment makes. The admission itself is one atomic step because its
  Redis side is a single Lua script.
\<close>

section \<open>State and steps\<close>

text \<open>A job under execution: the worker's name, the job id and what was reserved for it.\<close>

type_synonym running = "string \<times> string \<times> reservation"

record fleet =
  f_redis :: redis
  f_running :: "running list"

definition running_job :: "running \<Rightarrow> string" where
  "running_job x = fst (snd x)"

fun holds_heavy :: "reservation \<Rightarrow> bool" where
  "holds_heavy NoRes = False"
| "holds_heavy (FairRes _ _ h) = h"
| "holds_heavy HeavyRes = True"

fun holds_category :: "string \<Rightarrow> string \<Rightarrow> reservation \<Rightarrow> bool" where
  "holds_category pool cat (FairRes p c _) = (p = pool \<and> c = cat)"
| "holds_category pool cat _ = False"

text \<open>The category of a queue name is a segment \<open>category_segment\<close> produced: it has no colon.\<close>

definition colon_free_queue :: "string \<Rightarrow> bool" where
  "colon_free_queue qname =
     (case parse_storage_queue qname of Some (_, Some c, _) \<Rightarrow> CHR '':'' \<notin> set c | _ \<Rightarrow> True)"

text \<open>The worker's caps lie within the fleet's bounds \<open>M\<close> (heavy) and \<open>K\<close> (per pool and category).\<close>

definition caps_within :: "int \<Rightarrow> (string \<Rightarrow> string \<Rightarrow> int option) \<Rightarrow> worker \<Rightarrow> bool" where
  "caps_within M K w \<longleftrightarrow> gov_max_heavy w \<le> M \<and>
     (\<forall>pool cat k. K pool cat = Some k \<longrightarrow> (\<exists>c. category_cap w cat = Some c \<and> 0 \<le> c \<and> c \<le> k))"

definition jobs_live :: "fleet \<Rightarrow> bool" where
  "jobs_live s = list_all (\<lambda>x. case job_status (f_redis s) (running_job x) of
     Some t \<Rightarrow> t \<in> set LIVE_STATUSES | None \<Rightarrow> False) (f_running s)"

text \<open>A change of the environment: lanes, registries, statuses, heartbeats of idle workers.\<close>

definition environment_ok :: "fleet \<Rightarrow> redis \<Rightarrow> bool" where
  "environment_ok s r' \<longleftrightarrow> (\<forall>k. k \<noteq> RQ_QUEUES \<longrightarrow> sets r' k = sets (f_redis s) k)
     \<and> distinct (sets r' RQ_QUEUES) \<and> owners r' = owners (f_redis s)
     \<and> list_all (\<lambda>x. heartbeat r' (fst x)) (f_running s)"

definition crash_worker :: "string \<Rightarrow> fleet \<Rightarrow> fleet" where
  "crash_worker n s = s\<lparr>f_redis := (f_redis s)\<lparr>heartbeat := (heartbeat (f_redis s))(n := False)\<rparr>,
                         f_running := filter (\<lambda>x. fst x \<noteq> n) (f_running s)\<rparr>"

definition admissible :: "conn \<Rightarrow> worker \<Rightarrow> string \<Rightarrow> string \<Rightarrow> fleet \<Rightarrow> bool" where
  "admissible ok w job qname s \<longleftrightarrow> ok ''EVAL'' \<and> (ok ''SET'' \<or> owners (f_redis s) job = None)
     \<and> heartbeat (f_redis s) (w_name w) \<and> colon_free_queue qname \<and> job \<notin> running_job ` set (f_running s)"

inductive fleet_step :: "int \<Rightarrow> (string \<Rightarrow> string \<Rightarrow> int option) \<Rightarrow> fleet \<Rightarrow> fleet \<Rightarrow> bool" for M K where
  admitted: "caps_within M K w \<Longrightarrow> admissible ok w job qname s \<Longrightarrow>
    admit ok w p job qname d (f_redis s) = (True, res, r') \<Longrightarrow>
    fleet_step M K s (s\<lparr>f_redis := r', f_running := (w_name w, job, res) # f_running s\<rparr>)"
| denied: "admit ok w p job qname d (f_redis s) = (False, res, r') \<Longrightarrow> fleet_step M K s (s\<lparr>f_redis := r'\<rparr>)"
| finished: "(n, job, res) \<in> set (f_running s) \<Longrightarrow>
    fleet_step M K s (s\<lparr>f_redis := execute_release ok job res (f_redis s),
      f_running := filter (\<lambda>x. running_job x \<noteq> job) (f_running s)\<rparr>)"
| crashed: "fleet_step M K s (crash_worker n s)"
| reconciled: "ok ''FETCH'' \<Longrightarrow> jobs_live s \<Longrightarrow>
    fleet_step M K s (s\<lparr>f_redis := prune_stale_members ok key (f_redis s)\<rparr>)"
| environment: "environment_ok s r' \<Longrightarrow> fleet_step M K s (s\<lparr>f_redis := r'\<rparr>)"

section \<open>Invariant\<close>

definition slot_ok :: "redis \<Rightarrow> running \<Rightarrow> bool" where
  "slot_ok r x = (case x of (n, j, res) \<Rightarrow>
     heartbeat r n \<and> (res \<noteq> NoRes \<longrightarrow> owners r j = None \<or> owners r j = Some n)
     \<and> (holds_heavy res \<longrightarrow> j \<in> set (sets r HEAVY_RUNNING_KEY))
     \<and> (case res of FairRes p c _ \<Rightarrow> j \<in> set (sets r (category_running_key p c)) \<and> CHR '':'' \<notin> set c | _ \<Rightarrow> True))"

definition caps_ok :: "int \<Rightarrow> (string \<Rightarrow> string \<Rightarrow> int option) \<Rightarrow> redis \<Rightarrow> bool" where
  "caps_ok M K r \<longleftrightarrow> (\<forall>k. distinct (sets r k)) \<and> scard HEAVY_RUNNING_KEY r \<le> M \<and>
     (\<forall>pool cat k. CHR '':'' \<notin> set cat \<longrightarrow> K pool cat = Some k \<longrightarrow>
        scard (category_running_key pool cat) r \<le> k)"

definition fleet_inv :: "int \<Rightarrow> (string \<Rightarrow> string \<Rightarrow> int option) \<Rightarrow> fleet \<Rightarrow> bool" where
  "fleet_inv M K s \<longleftrightarrow> caps_ok M K (f_redis s) \<and> distinct (map running_job (f_running s))
     \<and> list_all (slot_ok (f_redis s)) (f_running s)"

subsection \<open>Keys\<close>

lemma category_running_key_inj:
  assumes "category_running_key p c = category_running_key p' c'" "CHR '':'' \<notin> set c" "CHR '':'' \<notin> set c'"
  shows "p = p' \<and> c = c'"
proof -
  have "rsplit1 (CHR '':'') (p @ CHR '':'' # c) = rsplit1 (CHR '':'') (p' @ CHR '':'' # c')"
    using assms(1) by (simp add: category_running_key_def)
  then show ?thesis using assms(2,3) by (simp add: rsplit1_append)
qed

lemma key_distinct [simp]:
  "category_running_key p c \<noteq> HEAVY_RUNNING_KEY" "HEAVY_RUNNING_KEY \<noteq> category_running_key p c"
  "category_running_key p c \<noteq> RQ_QUEUES" "RQ_QUEUES \<noteq> category_running_key p c"
  "RQ_QUEUES \<noteq> HEAVY_RUNNING_KEY" "HEAVY_RUNNING_KEY \<noteq> RQ_QUEUES"
  by (simp_all add: category_running_key_def CATEGORY_RUNNING_PREFIX_def HEAVY_RUNNING_KEY_def RQ_QUEUES_def)

subsection \<open>What the operations change\<close>

lemmas redis_ops = sadd_def srem_def scard_def set_owner_def del_owner_def

lemma length_insert_le: "length (List.insert x xs) \<le> Suc (length xs)"
  by (simp add: List.insert_def)

text \<open>
  What a reconcile may do: drop members from sets and owner tags, and nothing to a job that is
  not stale.
\<close>

definition pruned :: "conn \<Rightarrow> redis \<Rightarrow> redis \<Rightarrow> bool" where
  "pruned ok r r' \<longleftrightarrow> heartbeat r' = heartbeat r \<and> job_status r' = job_status r
     \<and> (\<forall>k. \<exists>P. sets r' k = filter P (sets r k))
     \<and> (\<forall>j. owners r' j = None \<or> owners r' j = owners r j)
     \<and> (\<forall>j k. \<not> stale ok r j \<longrightarrow> j \<in> set (sets r k) \<longrightarrow> j \<in> set (sets r' k))"

lemma pruned_refl: "pruned ok r r"
proof -
  have "sets r k = filter (\<lambda>_. True) (sets r k)" for k by simp
  then show ?thesis unfolding pruned_def by blast
qed

lemma pruned_not_stale: "pruned ok r r' \<Longrightarrow> \<not> stale ok r j \<Longrightarrow> \<not> stale ok r' j"
proof -
  assume p: "pruned ok r r'" and n: "\<not> stale ok r j"
  have "owners r' j = None \<or> owners r' j = owners r j" "heartbeat r' = heartbeat r" "job_status r' = job_status r"
    using p by (auto simp: pruned_def)
  note eqs = this
  have "reservation_owner_alive ok r j" using n by (simp add: stale_def)
  then have "reservation_owner_alive ok r' j"
    using eqs(1) unfolding reservation_owner_alive_def eqs(2) by (elim disjE) simp_all
  then show ?thesis using n unfolding stale_def eqs(3) by simp
qed

lemma pruned_trans:
  assumes "pruned ok r r'" "pruned ok r' r''"
  shows "pruned ok r r''"
proof -
  have "\<exists>P. sets r'' k = filter P (sets r k)" for k
    using assms unfolding pruned_def by (metis filter_filter)
  moreover have "\<not> stale ok r j \<Longrightarrow> j \<in> set (sets r k) \<Longrightarrow> j \<in> set (sets r'' k)" for j k
    using pruned_not_stale [OF assms(1)] assms unfolding pruned_def by blast
  moreover have "owners r'' j = None \<or> owners r'' j = owners r j" for j
    using assms unfolding pruned_def by metis
  ultimately show ?thesis using assms unfolding pruned_def by simp
qed

lemma pruned_member: "pruned ok r (prune_member ok key r jid)"
proof (cases "stale ok r jid \<and> ok ''SREM''")
  case True
  have "\<exists>P. ((sets r)(key := removeAll jid (sets r key))) k = filter P (sets r k)" for k
  proof (cases "k = key")
    case False
    then show ?thesis by (intro exI [of _ "\<lambda>_. True"]) simp
  qed (auto simp: removeAll_filter_not_eq)
  moreover have "sets (prune_member ok key r jid) = (sets r)(key := removeAll jid (sets r key))"
    "heartbeat (prune_member ok key r jid) = heartbeat r" "job_status (prune_member ok key r jid) = job_status r"
    "owners (prune_member ok key r jid) j = None \<or> owners (prune_member ok key r jid) j = owners r j" for j
    using True by (simp_all add: prune_member_def redis_ops Let_def)
  ultimately have "pruned ok r (prune_member ok key r jid) \<longleftrightarrow> (\<forall>j. \<not> stale ok r j \<longrightarrow> j \<in> set (sets r key) \<longrightarrow> j \<noteq> jid)"
    unfolding pruned_def by simp
  then show ?thesis using True by blast
qed (auto simp: prune_member_def pruned_refl)

lemma pruned_stale_members: "pruned ok r (prune_stale_members ok key r)"
proof -
  have "pruned ok r (foldl (prune_member ok key) r js)" for js
  proof (induction js rule: rev_induct)
    case (snoc j js)
    then show ?case by (auto intro: pruned_trans pruned_member)
  qed (simp add: pruned_refl)
  then show ?thesis by (simp add: prune_stale_members_def pruned_refl)
qed

lemma caps_ok_pruned: "pruned ok r r' \<Longrightarrow> caps_ok M K r \<Longrightarrow> caps_ok M K r'"
proof -
  assume pr: "pruned ok r r'" and c: "caps_ok M K r"
  have le: "int (length (sets r' k)) \<le> int (length (sets r k))" and d: "distinct (sets r' k)" for k
  proof -
    obtain P where "sets r' k = filter P (sets r k)" using pr unfolding pruned_def by blast
    then show "int (length (sets r' k)) \<le> int (length (sets r k))" "distinct (sets r' k)"
      using c by (simp_all add: caps_ok_def)
  qed
  show ?thesis
    unfolding caps_ok_def scard_def
  proof (intro conjI allI impI)
    show "int (length (sets r' HEAVY_RUNNING_KEY)) \<le> M"
      using le [of HEAVY_RUNNING_KEY] c unfolding caps_ok_def scard_def by linarith
    show "int (length (sets r' (category_running_key pool cat))) \<le> k"
      if "CHR '':'' \<notin> set cat" "K pool cat = Some k" for pool cat k
    proof -
      have "int (length (sets r (category_running_key pool cat))) \<le> k"
        using c that unfolding caps_ok_def scard_def by blast
      then show ?thesis using le [of "category_running_key pool cat"] by linarith
    qed
  qed (rule d)
qed

lemma slot_ok_pruned:
  assumes "pruned ok r r'" "slot_ok r x" "ok ''FETCH''"
    and "job_status r (running_job x) = Some s" "s \<in> set LIVE_STATUSES"
  shows "slot_ok r' x"
proof -
  obtain n j res where x: "x = (n, j, res)" by (cases x)
  have hb: "heartbeat r' n" using assms(1,2) by (simp add: x slot_ok_def pruned_def)
  show ?thesis
  proof (cases "res = NoRes")
    case True
    with hb show ?thesis by (simp add: x slot_ok_def)
  next
  case False
  then have own: "heartbeat r n" "owners r j = None \<or> owners r j = Some n"
    using assms(2) by (auto simp: x slot_ok_def)
  then have "\<not> stale ok r j"
    using assms(3-5) by (auto simp: x stale_def reservation_owner_alive_def running_job_def)
  then have keep: "j \<in> set (sets r k) \<Longrightarrow> j \<in> set (sets r' k)" for k
    using assms(1) unfolding pruned_def by blast
  have "heartbeat r' n" "owners r' j = None \<or> owners r' j = Some n"
    using assms(1) own unfolding pruned_def by auto
  with assms(2) keep show ?thesis by (auto simp: x slot_ok_def split: reservation.splits)
  qed
qed

subsection \<open>Admission\<close>

text \<open>What an admission adds: the job to the sets of its reservation, below their caps.\<close>

lemma reserve_fair_True:
  assumes "reserve_fair ok w job pool cat h r = (True, r')" "ok ''EVAL''"
  shows "r' = record_reservation_owner ok w job
      ((if h then sadd HEAVY_RUNNING_KEY job else id) (sadd (category_running_key pool cat) job r))
    \<and> (h \<longrightarrow> scard HEAVY_RUNNING_KEY r < gov_max_heavy w)
    \<and> (\<forall>c. category_cap w cat = Some c \<longrightarrow> 0 \<le> c \<longrightarrow> scard (category_running_key pool cat) r < c)"
  using assms by (auto simp: reserve_fair_def FAIR_RESERVE_LUA_def Let_def split: if_splits option.splits)

lemma reserve_fair_False: "reserve_fair ok w job pool cat h r = (False, r') \<Longrightarrow> r' = r"
  by (auto simp: reserve_fair_def FAIR_RESERVE_LUA_def Let_def split: if_splits)

lemma reserve_heavy_True:
  assumes "reserve_heavy ok w job r = (True, r')" "ok ''EVAL''"
  shows "r' = record_reservation_owner ok w job (sadd HEAVY_RUNNING_KEY job r)
    \<and> scard HEAVY_RUNNING_KEY r < gov_max_heavy w"
  using assms by (auto simp: reserve_heavy_def RESERVE_LUA_def split: if_splits)

lemma reserve_heavy_False: "reserve_heavy ok w job r = (False, r') \<Longrightarrow> r' = r"
  by (auto simp: reserve_heavy_def RESERVE_LUA_def split: if_splits)

lemma admit_False:
  "admit ok w p job qname d r = (False, res, r') \<Longrightarrow> r' = push_back ok qname job r"
  by (auto simp: admit_def Let_def split: if_splits option.splits prod.splits bool.splits
      dest: reserve_fair_False reserve_heavy_False)

lemma admit_True:
  assumes "admit ok w p job qname d r = (True, res, r')"
  shows "res = NoRes \<and> r' = r
    \<or> (\<exists>pool cat h. res = FairRes pool cat h \<and> reserve_fair ok w job pool cat h r = (True, r')
         \<and> (colon_free_queue qname \<longrightarrow> CHR '':'' \<notin> set cat))
    \<or> res = HeavyRes \<and> reserve_heavy ok w job r = (True, r')"
  using assms
  by (auto simp: admit_def Let_def colon_free_queue_def NULL_CATEGORY_def
      split: if_splits option.splits prod.splits bool.splits)

subsection \<open>Preservation\<close>

lemma slot_ok_frame:
  assumes "slot_ok r x" "heartbeat r' (fst x)"
    and "owners r' (running_job x) = None \<or> owners r' (running_job x) = owners r (running_job x)"
    and "\<And>k. k \<noteq> RQ_QUEUES \<Longrightarrow> running_job x \<in> set (sets r k) \<Longrightarrow> running_job x \<in> set (sets r' k)"
  shows "slot_ok r' x"
  using assms by (cases x) (auto simp: slot_ok_def running_job_def split: reservation.splits)

lemma caps_ok_sets:
  assumes "caps_ok M K r" "\<And>k. k \<noteq> RQ_QUEUES \<Longrightarrow> sets r' k = sets r k" "distinct (sets r' RQ_QUEUES)"
  shows "caps_ok M K r'"
proof -
  have "distinct (sets r' k)" for k using assms by (cases "k = RQ_QUEUES") (auto simp: caps_ok_def)
  with assms show ?thesis by (simp add: caps_ok_def scard_def)
qed

lemma caps_ok_heavy:
  assumes "caps_ok M K r" "scard HEAVY_RUNNING_KEY r < m" "m \<le> M"
  shows "caps_ok M K (sadd HEAVY_RUNNING_KEY job r)"
  using assms length_insert_le [of job "sets r HEAVY_RUNNING_KEY"]
  by (auto simp: caps_ok_def redis_ops)

lemma caps_ok_category:
  assumes "caps_ok M K r" "CHR '':'' \<notin> set cat"
    and "\<And>k. K pool cat = Some k \<Longrightarrow> scard (category_running_key pool cat) r < k"
  shows "caps_ok M K (sadd (category_running_key pool cat) job r)"
proof -
  have "scard (category_running_key p c) (sadd (category_running_key pool cat) job r) \<le> k"
    if "CHR '':'' \<notin> set c" "K p c = Some k" for p c k
  proof (cases "category_running_key p c = category_running_key pool cat")
    case True
    then have "p = pool" "c = cat" using category_running_key_inj that(1) assms(2) by blast+
    then show ?thesis
      using assms(3) that(2) length_insert_le [of job "sets r (category_running_key pool cat)"]
      by (fastforce simp: redis_ops)
  next
    case False
    then show ?thesis using assms(1) that by (simp add: caps_ok_def redis_ops)
  qed
  with assms(1) show ?thesis by (simp add: caps_ok_def redis_ops)
qed

lemma caps_ok_owner: "caps_ok M K (record_reservation_owner ok w job r) = caps_ok M K r"
  by (simp add: caps_ok_def record_reservation_owner_def redis_ops)

lemma reserved_frame:
  assumes "r' = record_reservation_owner ok w job
      ((if h then sadd HEAVY_RUNNING_KEY job else id) ((if g then sadd key job else id) r))"
    and "slot_ok r x" "running_job x \<noteq> job"
  shows "slot_ok r' x"
proof (rule slot_ok_frame [OF assms(2)])
  show "heartbeat r' (fst x)"
    using assms by (cases x) (auto simp: slot_ok_def record_reservation_owner_def redis_ops)
qed (use assms in \<open>auto simp: record_reservation_owner_def redis_ops\<close>)

lemma admitted_caps:
  assumes "admit ok w p job qname d r = (True, res, r')" "ok ''EVAL''" "colon_free_queue qname"
    and "caps_within M K w" "caps_ok M K r"
  shows "caps_ok M K r'"
  using admit_True [OF assms(1)]
proof (elim disjE exE conjE)
  fix pool cat h
  assume rf: "reserve_fair ok w job pool cat h r = (True, r')" and "colon_free_queue qname \<longrightarrow> CHR '':'' \<notin> set cat"
  then have cf: "CHR '':'' \<notin> set cat" using assms(3) by blast
  note rt = reserve_fair_True [OF rf assms(2)]
  have "scard (category_running_key pool cat) r < k" if "K pool cat = Some k" for k
    using assms(4) that rt unfolding caps_within_def by fastforce
  from caps_ok_category [OF assms(5) cf this]
  have c: "caps_ok M K (sadd (category_running_key pool cat) job r)" .
  show ?thesis
  proof (cases h)
    case True
    have "scard HEAVY_RUNNING_KEY (sadd (category_running_key pool cat) job r) < gov_max_heavy w"
      using rt True by (simp add: redis_ops)
    then show ?thesis using rt True c assms(4) by (simp add: caps_ok_owner caps_ok_heavy caps_within_def)
  next
    case False
    then show ?thesis using rt c by (simp add: caps_ok_owner)
  qed
next
  assume "reserve_heavy ok w job r = (True, r')"
  from reserve_heavy_True [OF this assms(2)] show ?thesis
    using assms(4) caps_ok_heavy [OF assms(5), of "gov_max_heavy w"] by (simp add: caps_ok_owner caps_within_def)
qed (use assms(5) in simp)

lemma admitted_slot:
  assumes "admit ok w p job qname d r = (True, res, r')" "ok ''EVAL''" "colon_free_queue qname"
    and "heartbeat r (w_name w)" "ok ''SET'' \<or> owners r job = None"
  shows "slot_ok r' (w_name w, job, res)"
  using admit_True [OF assms(1)]
proof (elim disjE exE conjE)
  fix pool cat h
  assume "res = FairRes pool cat h" "reserve_fair ok w job pool cat h r = (True, r')"
    "colon_free_queue qname \<longrightarrow> CHR '':'' \<notin> set cat"
  then show ?thesis
    using reserve_fair_True [of ok w job pool cat h r r'] assms(2-5)
    by (auto simp: slot_ok_def record_reservation_owner_def redis_ops)
next
  assume "res = HeavyRes" "reserve_heavy ok w job r = (True, r')"
  then show ?thesis
    using reserve_heavy_True [of ok w job r r'] assms(2-5)
    by (auto simp: slot_ok_def record_reservation_owner_def redis_ops)
qed (use assms(4) in \<open>auto simp: slot_ok_def\<close>)

lemma release_frame:
  assumes "slot_ok r x" "running_job x \<noteq> job"
  shows "slot_ok (execute_release ok job res r) x"
proof (rule slot_ok_frame [OF assms(1)])
  show "heartbeat (execute_release ok job res r) (fst x)"
    using assms(1)
    by (cases x; cases res) (simp_all add: slot_ok_def execute_release_def release_fair_def release_heavy_def Let_def redis_ops)
  show "owners (execute_release ok job res r) (running_job x) = None
     \<or> owners (execute_release ok job res r) (running_job x) = owners r (running_job x)"
    using assms(2)
    by (cases res) (simp_all add: execute_release_def release_fair_def release_heavy_def Let_def redis_ops)
  show "running_job x \<in> set (sets (execute_release ok job res r) k)" if "running_job x \<in> set (sets r k)" for k
    using assms(2) that
    by (cases res) (auto simp: execute_release_def release_fair_def release_heavy_def Let_def redis_ops)
qed

lemma caps_ok_srem: "caps_ok M K r \<Longrightarrow> caps_ok M K (srem key job r)"
proof -
  assume c: "caps_ok M K r"
  have "length (sets (srem key job r) k) \<le> length (sets r k)" "distinct (sets (srem key job r) k)" for k
    using c by (auto simp: redis_ops caps_ok_def removeAll_filter_not_eq)
  then show ?thesis
    using c unfolding caps_ok_def scard_def by (meson of_nat_mono order_trans)
qed

lemma caps_ok_del_owner [simp]: "caps_ok M K (del_owner job r) = caps_ok M K r"
  by (simp add: caps_ok_def redis_ops)

lemma release_caps: "caps_ok M K r \<Longrightarrow> caps_ok M K (execute_release ok job res r)"
  by (cases res) (simp_all add: execute_release_def release_fair_def release_heavy_def Let_def caps_ok_srem)

lemma admitted_inv:
  assumes "caps_within M K w" "admissible ok w job qname s" and inv: "fleet_inv M K s"
    and ad: "admit ok w p job qname d (f_redis s) = (True, res, r')"
  shows "fleet_inv M K (s\<lparr>f_redis := r', f_running := (w_name w, job, res) # f_running s\<rparr>)"
proof -
  have pre: "ok ''EVAL''" "ok ''SET'' \<or> owners (f_redis s) job = None" "heartbeat (f_redis s) (w_name w)"
    "colon_free_queue qname" "job \<notin> running_job ` set (f_running s)"
    using assms(2) by (auto simp: admissible_def)
  have others: "slot_ok r' x" if "x \<in> set (f_running s)" for x
  proof -
    have x: "slot_ok (f_redis s) x" "running_job x \<noteq> job"
      using inv that pre(5) by (auto simp: fleet_inv_def list_all_iff)
    from admit_True [OF ad] show ?thesis
    proof (elim disjE exE conjE)
      fix pool cat h
      assume "reserve_fair ok w job pool cat h (f_redis s) = (True, r')"
      from reserve_fair_True [OF this pre(1)] show ?thesis
        by (intro reserved_frame [where g = True and key = "category_running_key pool cat", OF _ x]) simp
    next
      assume "reserve_heavy ok w job (f_redis s) = (True, r')"
      from reserve_heavy_True [OF this pre(1)] show ?thesis
        by (intro reserved_frame [where g = False and h = True, OF _ x]) simp
    qed (use x in simp)
  qed
  show ?thesis
    using admitted_caps [OF ad pre(1,4) assms(1)] admitted_slot [OF ad pre(1,4,3,2)] others inv pre(5)
    by (auto simp: fleet_inv_def list_all_iff running_job_def image_iff)
qed

lemma push_back_facts:
  "heartbeat (push_back ok qname job r) = heartbeat r" "owners (push_back ok qname job r) = owners r"
  "k \<noteq> RQ_QUEUES \<Longrightarrow> sets (push_back ok qname job r) k = sets r k"
  "distinct (sets r RQ_QUEUES) \<Longrightarrow> distinct (sets (push_back ok qname job r) RQ_QUEUES)"
  by (simp_all add: push_back_def push_job_id_def Let_def redis_ops)

lemma environment_inv:
  assumes "environment_ok s r'" "fleet_inv M K s"
  shows "fleet_inv M K (s\<lparr>f_redis := r'\<rparr>)"
proof -
  have same: "k \<noteq> RQ_QUEUES \<Longrightarrow> sets r' k = sets (f_redis s) k" and d: "distinct (sets r' RQ_QUEUES)"
    and own: "owners r' = owners (f_redis s)" and hb: "list_all (\<lambda>x. heartbeat r' (fst x)) (f_running s)" for k
    using assms(1) by (simp_all add: environment_ok_def)
  have inv: "caps_ok M K (f_redis s)" "distinct (map running_job (f_running s))"
    "list_all (slot_ok (f_redis s)) (f_running s)"
    using assms(2) by (simp_all add: fleet_inv_def)
  have "caps_ok M K r'" by (rule caps_ok_sets [OF inv(1) same d])
  moreover have "slot_ok r' x" if "x \<in> set (f_running s)" for x
  proof (rule slot_ok_frame)
    show "slot_ok (f_redis s) x" "heartbeat r' (fst x)"
      using inv(3) hb that by (simp_all add: list_all_iff)
  qed (simp_all add: own same)
  ultimately show ?thesis using inv(2) by (simp add: fleet_inv_def list_all_iff)
qed

lemma denied_inv:
  assumes "admit ok w p job qname d (f_redis s) = (False, res, r')" "fleet_inv M K s"
  shows "fleet_inv M K (s\<lparr>f_redis := r'\<rparr>)"
proof -
  have r': "r' = push_back ok qname job (f_redis s)" by (rule admit_False [OF assms(1)])
  have d: "distinct (sets (f_redis s) RQ_QUEUES)" using assms(2) by (simp add: fleet_inv_def caps_ok_def)
  have "heartbeat (f_redis s) (fst x)" if "x \<in> set (f_running s)" for x
  proof -
    have "slot_ok (f_redis s) x" using assms(2) that by (simp add: fleet_inv_def list_all_iff)
    then show ?thesis by (simp add: slot_ok_def split_beta)
  qed
  then have "environment_ok s r'"
    unfolding environment_ok_def r' by (simp add: push_back_facts d list_all_iff)
  then show ?thesis by (rule environment_inv [OF _ assms(2)])
qed

lemma finished_inv:
  assumes "fleet_inv M K s"
  shows "fleet_inv M K (s\<lparr>f_redis := execute_release ok job res (f_redis s),
      f_running := filter (\<lambda>x. running_job x \<noteq> job) (f_running s)\<rparr>)"
  using assms by (auto simp: fleet_inv_def list_all_iff release_caps release_frame distinct_map_filter)

lemma crashed_inv:
  assumes "fleet_inv M K s"
  shows "fleet_inv M K (crash_worker n s)"
proof -
  let ?r = "(f_redis s)\<lparr>heartbeat := (heartbeat (f_redis s))(n := False)\<rparr>"
  have "slot_ok ?r x" if "slot_ok (f_redis s) x" "fst x \<noteq> n" for x
    using that(1) by (rule slot_ok_frame) (use that in \<open>cases x, auto simp: slot_ok_def\<close>)
  then show ?thesis
    using assms by (auto simp: fleet_inv_def crash_worker_def list_all_iff caps_ok_def scard_def distinct_map_filter)
qed

lemma reconciled_inv:
  assumes "ok ''FETCH''" "jobs_live s" "fleet_inv M K s"
  shows "fleet_inv M K (s\<lparr>f_redis := prune_stale_members ok key (f_redis s)\<rparr>)"
proof -
  have "slot_ok (prune_stale_members ok key (f_redis s)) x" if mem: "x \<in> set (f_running s)" for x
  proof -
    obtain t where t: "job_status (f_redis s) (running_job x) = Some t" "t \<in> set LIVE_STATUSES"
    proof -
      have "case job_status (f_redis s) (running_job x) of Some t \<Rightarrow> t \<in> set LIVE_STATUSES | None \<Rightarrow> False"
        using assms(2) mem unfolding jobs_live_def list_all_iff by blast
      then show ?thesis using that by (cases "job_status (f_redis s) (running_job x)") auto
    qed
    have "slot_ok (f_redis s) x" using assms(3) mem by (simp add: fleet_inv_def list_all_iff)
    from slot_ok_pruned [where ok = ok, OF pruned_stale_members this assms(1) t] show ?thesis .
  qed
  then show ?thesis
    using assms(3) caps_ok_pruned [OF pruned_stale_members] by (auto simp: fleet_inv_def list_all_iff)
qed

interpretation workers: invariant_system "fleet_step M K" "fleet_inv M K" for M K
proof
  show "fleet_step M K s t \<Longrightarrow> fleet_inv M K s \<Longrightarrow> fleet_inv M K t" for s t
    by (erule fleet_step.cases)
      (simp_all add: admitted_inv denied_inv finished_inv crashed_inv reconciled_inv environment_inv)
qed

lemma count_le_slots:
  assumes "fleet_inv M K s" "\<And>x. x \<in> set (f_running s) \<Longrightarrow> P x \<Longrightarrow> running_job x \<in> set (sets (f_redis s) key)"
  shows "int (length (filter P (f_running s))) \<le> scard key (f_redis s)"
proof -
  have "distinct (map running_job (filter P (f_running s)))"
    using assms(1) by (simp add: fleet_inv_def distinct_map_filter)
  moreover have "set (map running_job (filter P (f_running s))) \<subseteq> set (sets (f_redis s) key)"
    using assms(2) by auto
  ultimately show ?thesis
    using card_mono [of "set (sets (f_redis s) key)"] assms(1) unfolding scard_def
    by (metis (no_types, lifting) List.finite_set caps_ok_def distinct_card fleet_inv_def length_map of_nat_mono)
qed

section \<open>Properties\<close>


definition one_running :: fleet where
  "one_running = (let ok = (\<lambda>_. True); q = category_lane ''p'' ''c'' ''maintenance'';
     (_, res, r) = admit ok sample_worker (Fin 0, Fin 0, Fin 0) ''j1'' q False idle_redis
   in \<lparr>f_redis = r, f_running = [(''w1'', ''j1'', res)]\<rparr>)"


text \<open>
  The two Redis faults the steps exclude do free a slot under a running job. A reconcile that
  cannot fetch a job treats it as vanished; and an admission whose owner tag is not written over
  the tag of a dead worker leaves a slot that the next reconcile takes for a leak.
\<close>

lemma reconcile_fetch_failure_frees_live_slot:
  "sets (prune_stale_members (\<lambda>c. c \<noteq> ''FETCH'') HEAVY_RUNNING_KEY
     (sadd HEAVY_RUNNING_KEY ''j1'' idle_redis)) HEAVY_RUNNING_KEY = []"
  by (simp add: prune_stale_members_def prune_member_def stale_def redis_ops idle_redis_def Let_def)

lemma missed_owner_tag_frees_live_slot:
  assumes "r = (set_owner ''j1'' ''dead'' idle_redis)\<lparr>heartbeat := (\<lambda>n. n \<noteq> ''dead'')\<rparr>"
    and "reserve_heavy (\<lambda>c. c \<noteq> ''SET'') sample_worker ''j1'' r = (True, r')"
  shows "''j1'' \<in> set (sets r' HEAVY_RUNNING_KEY)
     \<and> ''j1'' \<notin> set (sets (prune_stale_members (\<lambda>_. True) HEAVY_RUNNING_KEY r') HEAVY_RUNNING_KEY)"
  using assms
  by (auto simp: reserve_heavy_def RESERVE_LUA_def record_reservation_owner_def sample_worker_def
      prune_stale_members_def prune_member_def stale_def reservation_owner_alive_def
      LIVE_STATUSES_def redis_ops idle_redis_def Let_def)

end
