(* ===== verification/Gpu_Profiles.thy ===== *)
theory Gpu_Profiles
  imports Prelude
begin

text \<open>
  GPU profile names and the decisions taken on them: the shared pool policy
  \<open>isardvdi_common/lib/gpu_pool_policy.py\<close> and the catalogue pruning of
  \<open>lib/bookings/gpu_realizability.py\<close>, which carries its own copy of the name helpers (here with
  the prefix \<open>rz_\<close>). Profile ids are strings; the branches that pass a non-string through are
  left out. A profile of a registration payload is represented by the value of its \<open>name\<close>.
\<close>

section \<open>Profile names\<close>

text \<open>The match of \<open>^(\d+)-(\d+[A-Za-z].*)$\<close>, where \<open>.\<close> does not match a newline.\<close>

definition mig_dash_match :: "string \<Rightarrow> (string \<times> string) option" where
  "mig_dash_match s =
     (let d1 = takeWhile is_digit s; r1 = dropWhile is_digit s
      in case r1 of
           [] \<Rightarrow> None
         | c # g2 \<Rightarrow>
             (let d2 = takeWhile is_digit g2; r2 = dropWhile is_digit g2
              in if d1 \<noteq> [] \<and> c = CHR ''-'' \<and> d2 \<noteq> [] \<and> r2 \<noteq> [] \<and> is_alpha (hd r2)
                    \<and> char_of (10 :: nat) \<notin> set r2
                 then Some (d1, g2) else None))"

definition canonical_suffix :: "string \<Rightarrow> string" where
  "canonical_suffix sfx =
     (let s = strip sfx
      in case mig_dash_match s of Some (a, b) \<Rightarrow> a @ ''_'' @ b | None \<Rightarrow> s)"

definition split_qualifier :: "string \<Rightarrow> string \<times> string option" where
  "split_qualifier reservable_id =
     (if CHR ''~'' \<notin> set reservable_id then (reservable_id, None)
      else (case rsplit1 (CHR ''~'') reservable_id of
              (base, name) \<Rightarrow> (base, if name = [] then None else Some name)))"

definition canonical_profile_id :: "string \<Rightarrow> string" where
  "canonical_profile_id reservable_id =
     (let (base, name) = split_qualifier reservable_id;
          base = (case split_max 2 (CHR ''-'') base of
                    [a, b, c] \<Rightarrow> a @ ''-'' @ b @ ''-'' @ canonical_suffix c
                  | _ \<Rightarrow> base)
      in case name of None \<Rightarrow> base | Some n \<Rightarrow> base @ ''~'' @ n)"

definition profile_suffix_from_id :: "string \<Rightarrow> string" where
  "profile_suffix_from_id reservable_id =
     (let (base, _) = split_qualifier reservable_id;
          cid = canonical_profile_id base
      in canonical_suffix (case split_max 2 (CHR ''-'') cid of [a, b, c] \<Rightarrow> c | _ \<Rightarrow> cid))"

section \<open>The reconcile decision\<close>

datatype gpu_action =
    SkipRetry string
  | SkipFault string
  | SkipNoop
  | SeedAndApply string
  | KeepCurrent string
  | ApplyProfile string
  | RefusePassthrough

definition decide_reconcile_action ::
  "string option \<Rightarrow> string option \<Rightarrow> string list \<Rightarrow> int \<Rightarrow> bool \<Rightarrow> string option \<Rightarrow> bool \<Rightarrow> gpu_action" where
  "decide_reconcile_action requested scheduled available_types sriov_totalvfs operator_passthrough
     fallback keep_current =
     (let effective = or_str scheduled requested;
          only_passthrough = (available_types = [] \<or> available_types = [''passthrough'']);
          canon_available = map canonical_suffix available_types
      in if truthy_str effective \<and> canonical_suffix (the effective) \<notin> set canon_available
         then (if only_passthrough \<and> sriov_totalvfs > 0 then SkipRetry (the effective)
               else SkipFault (the effective))
         else if \<not> truthy_str effective
         then (if \<not> truthy_str fallback then SkipNoop
               else if requested = None
               then (if operator_passthrough then SeedAndApply ''passthrough''
                     else if keep_current then KeepCurrent (the fallback)
                     else SeedAndApply (the fallback))
               else ApplyProfile (the fallback))
         else if effective = Some ''passthrough'' \<and> \<not> operator_passthrough
                 \<and> scheduled \<noteq> Some ''passthrough''
         then RefusePassthrough
         else ApplyProfile (the effective))"

section \<open>Realizability\<close>

definition rz_canonical_suffix :: "string \<Rightarrow> string" where
  "rz_canonical_suffix sfx =
     (let s = strip sfx
      in case mig_dash_match s of Some (a, b) \<Rightarrow> a @ ''_'' @ b | None \<Rightarrow> s)"

definition rz_split_qualifier :: "string \<Rightarrow> string \<times> string option" where
  "rz_split_qualifier reservable_id =
     (if CHR ''~'' \<notin> set reservable_id then (reservable_id, None)
      else (case rsplit1 (CHR ''~'') reservable_id of
              (base, name) \<Rightarrow> (base, if name = [] then None else Some name)))"

definition rz_canonical_profile_id :: "string \<Rightarrow> string" where
  "rz_canonical_profile_id reservable_id =
     (let (base, name) = rz_split_qualifier reservable_id;
          base = (case split_max 2 (CHR ''-'') base of
                    [a, b, c] \<Rightarrow> a @ ''-'' @ b @ ''-'' @ rz_canonical_suffix c
                  | _ \<Rightarrow> base)
      in case name of None \<Rightarrow> base | Some n \<Rightarrow> base @ ''~'' @ n)"

definition bare_suffix :: "string \<Rightarrow> string" where
  "bare_suffix reservable_id =
     (let (base, _) = rz_split_qualifier reservable_id
      in case split_max 2 (CHR ''-'') base of [a, b, c] \<Rightarrow> rz_canonical_suffix c | _ \<Rightarrow> base)"

definition is_token_char :: "char \<Rightarrow> bool" where
  "is_token_char c = (let n = of_char c :: nat in (97 \<le> n \<and> n \<le> 122) \<or> (48 \<le> n \<and> n \<le> 57))"

text \<open>The decimal digits of \<open>str(n)\<close>.\<close>

fun nat_str :: "nat \<Rightarrow> string" where
  "nat_str n = (if n < 10 then [char_of (48 + n)] else nat_str (n div 10) @ [char_of (48 + n mod 10)])"

declare nat_str.simps [simp del]

text \<open>\<open>numa_node\<close> has already been through \<open>int\<close>: \<open>None\<close> is the failed conversion.\<close>

definition passthrough_variant_token :: "string option \<Rightarrow> string \<Rightarrow> int option \<Rightarrow> string option" where
  "passthrough_variant_token host pci_bus_id numa_node =
     (let parts = split_on (CHR '':'') (to_lower pci_bus_id);
          bus = (if 2 \<le> length parts then filter is_token_char (parts ! 1) else [])
      in if bus = [] then None
         else (let n = (case numa_node of None \<Rightarrow> - 1 | Some n \<Rightarrow> n);
                   numa_part = (if n \<ge> 0 then ''n'' @ nat_str (nat n) else []);
                   sfx = numa_part @ ''b'' @ bus;
                   host_part = take (20 - length sfx)
                     (filter is_token_char (to_lower (case host of None \<Rightarrow> [] | Some h \<Rightarrow> h)));
                   token = take 20 (host_part @ sfx)
               in if 1 \<le> length token \<and> length token \<le> 20 \<and> list_all is_token_char token
                  then Some token else None))"

record gpu_payload =
  vgpu_profiles :: "json list option"
  mig_profiles :: "json list"

definition vgpu_name_suffix :: "json \<Rightarrow> string list" where
  "vgpu_name_suffix name =
     (case name of
        JStr n \<Rightarrow> if CHR ''-'' \<in> set n then [rz_canonical_suffix (split_max 1 (CHR ''-'') n ! 1)] else []
      | _ \<Rightarrow> [])"

definition mig_name_suffix :: "json \<Rightarrow> string list" where
  "mig_name_suffix name = (case name of JStr n \<Rightarrow> [rz_canonical_suffix n] | _ \<Rightarrow> [])"

text \<open>The result is a set, as a list whose order and repetitions do not matter.\<close>

definition realizable_suffixes :: "gpu_payload \<Rightarrow> string list option" where
  "realizable_suffixes payload =
     (case vgpu_profiles payload of
        None \<Rightarrow> None
      | Some profs \<Rightarrow> Some ([''passthrough''] @ concat (map vgpu_name_suffix profs)
                              @ concat (map mig_name_suffix (mig_profiles payload))))"

definition reading_trustworthy :: "gpu_payload \<Rightarrow> int option \<Rightarrow> bool" where
  "reading_trustworthy payload sriov_totalvfs =
     (case realizable_suffixes payload of
        None \<Rightarrow> False
      | Some sfxs \<Rightarrow>
          \<not> (filter (\<lambda>s. s \<noteq> ''passthrough'') sfxs = []
             \<and> (case sriov_totalvfs of None \<Rightarrow> 0 | Some n \<Rightarrow> n) > 0))"

definition realizable_profile_ids :: "string \<Rightarrow> gpu_payload \<Rightarrow> string list option" where
  "realizable_profile_ids model payload =
     map_option (map (\<lambda>s. ''NVIDIA-'' @ model @ ''-'' @ s)) (realizable_suffixes payload)"

record gpu_card =
  card_id :: string
  profiles_enabled :: "string list"
  card_payload :: "gpu_payload option"
  card_sriov :: "int option"

definition card_prunes :: "string \<Rightarrow> gpu_card \<Rightarrow> (string \<times> string) list" where
  "card_prunes model gcard =
     (case card_payload gcard of
        None \<Rightarrow> []
      | Some payload \<Rightarrow>
          if \<not> reading_trustworthy payload (card_sriov gcard) then []
          else (let realizable = map rz_canonical_profile_id (the (realizable_profile_ids model payload))
                in concat (map (\<lambda>enabled_id.
                     if \<not> startswith enabled_id (''NVIDIA-'' @ model @ ''-'') then []
                     else if rz_canonical_profile_id (fst (rz_split_qualifier enabled_id)) \<notin> set realizable
                     then [(card_id gcard, enabled_id)] else []) (profiles_enabled gcard))))"

definition plan_card_prunes :: "string \<Rightarrow> gpu_card list \<Rightarrow> (string \<times> string) list" where
  "plan_card_prunes model cards = sort (remdups (concat (map (card_prunes model) cards)))"

section \<open>Lemmas\<close>

text \<open>The two copies of the name helpers agree.\<close>

lemma rz_canonical_suffix_sync [simp]: "rz_canonical_suffix = canonical_suffix"
  by (simp add: fun_eq_iff rz_canonical_suffix_def canonical_suffix_def)

lemma rz_split_qualifier_sync [simp]: "rz_split_qualifier = split_qualifier"
  by (simp add: fun_eq_iff rz_split_qualifier_def split_qualifier_def)

lemma rz_canonical_profile_id_sync [simp]: "rz_canonical_profile_id = canonical_profile_id"
  by (simp only: fun_eq_iff rz_canonical_profile_id_def canonical_profile_id_def
      rz_canonical_suffix_sync rz_split_qualifier_sync simp_thms)

lemma strip_id:
  assumes "s = [] \<or> \<not> is_space (hd s) \<and> \<not> is_space (last s)"
  shows "strip s = s"
proof (cases "s = []")
  case False
  have 1: "dropWhile is_space s = s" using assms False by (cases s) auto
  have "dropWhile is_space (rev s) = rev s" using assms False by (cases s rule: rev_cases) auto
  with 1 show ?thesis by (simp add: strip_def)
qed (simp add: strip_def)

lemma strip_ends: "strip s = [] \<or> \<not> is_space (hd (strip s)) \<and> \<not> is_space (last (strip s))"
proof (cases "strip s = []")
  case False
  let ?u = "rev (dropWhile is_space s)"
  have ne: "dropWhile is_space ?u \<noteq> []" using False by (simp add: strip_def)
  have l: "\<not> is_space (last (strip s))"
    using hd_dropWhile [OF ne] by (simp add: strip_def last_rev)
  have "\<not> is_space (hd (strip s))"
  proof (cases "dropWhile is_space s")
    case Nil
    with False show ?thesis by (simp add: strip_def)
  next
    case (Cons y ys)
    then have y: "\<not> is_space y" using hd_dropWhile [of is_space s] by simp
    then have "dropWhile is_space (rev ys @ [y]) = dropWhile is_space (rev ys) @ [y]"
      by (auto simp: dropWhile_append)
    with Cons y show ?thesis by (simp add: strip_def)
  qed
  with l show ?thesis by blast
qed simp

lemma mig_dash_match_Some:
  assumes "mig_dash_match s = Some (a, b)"
  shows "s = a @ CHR ''-'' # b \<and> a \<noteq> [] \<and> b \<noteq> [] \<and> list_all is_digit a \<and> is_digit (hd b)"
proof -
  let ?r1 = "dropWhile is_digit s"
  obtain c g2 where r1: "?r1 = c # g2" using assms
    by (cases "dropWhile is_digit s") (auto simp: mig_dash_match_def Let_def)
  with assms have c: "c = CHR ''-''" "a = takeWhile is_digit s" "b = g2" "a \<noteq> []" "takeWhile is_digit g2 \<noteq> []"
    by (auto simp: mig_dash_match_def Let_def split: if_splits)
  have "s = takeWhile is_digit s @ ?r1" by simp
  then have "s = a @ CHR ''-'' # b" using r1 c by simp
  moreover have "list_all is_digit a" unfolding c(2) by (auto simp: list_all_iff dest: set_takeWhileD)
  moreover have "b \<noteq> [] \<and> is_digit (hd b)" using c(3,5) by (cases g2) (auto split: if_splits)
  ultimately show ?thesis using c(4) by simp
qed

lemma mig_dash_match_underscore:
  assumes "list_all is_digit a"
  shows "mig_dash_match (a @ CHR ''_'' # b) = None"
proof -
  have "\<not> is_digit (CHR ''_'')" by (simp add: is_digit_def)
  then have "dropWhile is_digit (a @ CHR ''_'' # b) = CHR ''_'' # b"
    using assms by (induction a) auto
  then show ?thesis by (simp add: mig_dash_match_def Let_def)
qed

lemma digit_not_space: "is_digit c \<Longrightarrow> \<not> is_space c"
  by (auto simp: is_digit_def is_space_def Let_def)

lemma canonical_suffix_idem: "canonical_suffix (canonical_suffix s) = canonical_suffix s"
proof (cases "mig_dash_match (strip s)")
  case None
  then show ?thesis by (simp add: canonical_suffix_def)
next
  case (Some ab)
  obtain a b where ab: "ab = (a, b)" by (cases ab)
  note m = mig_dash_match_Some [OF Some [unfolded ab]]
  have c: "canonical_suffix s = a @ CHR ''_'' # b" using Some ab by (simp add: canonical_suffix_def)
  have "hd (a @ CHR ''_'' # b) = hd (strip s)" "last (a @ CHR ''_'' # b) = last (strip s)" "strip s \<noteq> []"
    using m by auto
  then have "strip (a @ CHR ''_'' # b) = a @ CHR ''_'' # b"
    using strip_ends [of s] by (intro strip_id) auto
  then show ?thesis using m unfolding c by (simp add: canonical_suffix_def mig_dash_match_underscore)
qed

lemma canonical_suffix_chars:
  assumes "c \<notin> set s" "c \<noteq> CHR ''_''"
  shows "c \<notin> set (canonical_suffix s)"
proof -
  have "c \<notin> set (strip s)"
    using assms(1) set_dropWhile_subset unfolding strip_def by (metis set_rev subsetD)
  then show ?thesis
    using assms(2) by (auto simp: canonical_suffix_def Let_def split: option.splits dest!: mig_dash_match_Some)
qed

subsection \<open>Catalogue ids\<close>

text \<open>The id \<open>brand-model-suffix[~name]\<close> of a catalogue entry.\<close>

definition profile_id :: "string \<Rightarrow> string \<Rightarrow> string \<Rightarrow> string option \<Rightarrow> string" where
  "profile_id brand model sfx name =
     brand @ CHR ''-'' # model @ CHR ''-'' # sfx @ (case name of None \<Rightarrow> [] | Some n \<Rightarrow> CHR ''~'' # n)"

definition plain_name :: "string \<Rightarrow> bool" where
  "plain_name s = (CHR ''-'' \<notin> set s \<and> CHR ''~'' \<notin> set s)"

lemma split_max_profile:
  "plain_name brand \<Longrightarrow> plain_name model \<Longrightarrow>
   split_max 2 (CHR ''-'') (brand @ CHR ''-'' # model @ CHR ''-'' # s) = [brand, model, s]"
  by (simp add: plain_name_def numeral_2_eq_2 split_max_append del: split_max.simps(2))

lemma split_qualifier_profile:
  assumes "plain_name brand" "plain_name model" "CHR ''~'' \<notin> set s"
    and "\<And>n. name = Some n \<Longrightarrow> n \<noteq> [] \<and> CHR ''~'' \<notin> set n"
  shows "split_qualifier (profile_id brand model s name) = (profile_id brand model s None, name)"
proof (cases name)
  case None
  then show ?thesis using assms by (simp add: split_qualifier_def profile_id_def plain_name_def)
next
  case (Some n)
  then have "profile_id brand model s name = profile_id brand model s None @ CHR ''~'' # n"
    by (simp add: profile_id_def)
  moreover have "CHR ''~'' \<notin> set n" "n \<noteq> []" using assms(4) Some by auto
  ultimately show ?thesis by (simp add: split_qualifier_def rsplit1_append Some)
qed

lemma canonical_profile_id_bare:
  assumes "plain_name brand" "plain_name model" "CHR ''~'' \<notin> set s"
  shows "canonical_profile_id (profile_id brand model s None) = profile_id brand model (canonical_suffix s) None"
  using split_qualifier_profile [OF assms, of None] split_max_profile [OF assms(1,2), of s]
  by (simp add: canonical_profile_id_def profile_id_def)

lemma bare_suffix_bare:
  assumes "plain_name brand" "plain_name model" "CHR ''~'' \<notin> set s"
    and "\<And>n. name = Some n \<Longrightarrow> n \<noteq> [] \<and> CHR ''~'' \<notin> set n"
  shows "bare_suffix (profile_id brand model s name) = canonical_suffix s"
  using split_qualifier_profile [OF assms] split_max_profile [OF assms(1,2), of s]
  by (simp add: bare_suffix_def profile_id_def)

lemma profile_id_None_inj: "profile_id b m s None = profile_id b m t None \<longleftrightarrow> s = t"
  by (simp add: profile_id_def)

text \<open>The interface the clients of a suffix reading rely on: a canonical form that is stable.\<close>

locale suffix_canonicalizer =
  fixes canon :: "string \<Rightarrow> string"
  assumes idem: "canon (canon s) = canon s"
begin

lemma membership_stable: "canon s \<in> canon ` A \<longleftrightarrow> canon (canon s) \<in> canon ` canon ` A"
  by (simp add: idem image_image)

lemma realizable_monotone: "A \<subseteq> B \<Longrightarrow> canon s \<in> canon ` A \<Longrightarrow> canon s \<in> canon ` B"
  by blast

end

interpretation gpu_suffix: suffix_canonicalizer canonical_suffix
  by unfold_locales (rule canonical_suffix_idem)

section \<open>Properties\<close>

text \<open>C24: The engine's reconcile and the API's pruning read the same hardware profile from every
  catalogue id: for a brand and model without dashes, any suffix (dash-form MIG suffixes included)
  and any variant qualifier, both give the canonical suffix, and canonicalising the id first or
  asking a bare suffix instead of an id changes nothing.\<close>

theorem suffix_readings_agree:
  assumes "plain_name brand" "plain_name model" "CHR ''~'' \<notin> set s"
    and "\<And>n. name = Some n \<Longrightarrow> n \<noteq> [] \<and> CHR ''~'' \<notin> set n"
  shows "profile_suffix_from_id (profile_id brand model s name) = canonical_suffix s
     \<and> bare_suffix (profile_id brand model s name) = canonical_suffix s
     \<and> profile_suffix_from_id (canonical_profile_id (profile_id brand model s None)) = canonical_suffix s
     \<and> canonical_suffix (canonical_suffix s) = canonical_suffix s"
proof -
  have c: "CHR ''~'' \<notin> set (canonical_suffix s)" by (rule canonical_suffix_chars [OF assms(3)]) simp
  have bare: "profile_suffix_from_id (profile_id brand model t nm) = canonical_suffix t"
    if "CHR ''~'' \<notin> set t" "\<And>n. nm = Some n \<Longrightarrow> n \<noteq> [] \<and> CHR ''~'' \<notin> set n" for t nm
    using split_qualifier_profile [OF assms(1,2) that(1), of nm] that(2)
      canonical_profile_id_bare [OF assms(1,2) that(1)] split_max_profile [OF assms(1,2), of "canonical_suffix t"]
    by (simp add: profile_suffix_from_id_def profile_id_def canonical_suffix_idem)
  show ?thesis
    using bare [OF assms(3,4)] bare_suffix_bare [OF assms] bare [OF c, of None]
      canonical_profile_id_bare [OF assms(1-3)] canonical_suffix_idem
    by simp
qed

theorem suffix_readings_agree_witness:
  "profile_suffix_from_id (profile_id ''NVIDIA'' ''A100'' ''1-2Q'' (Some ''lab'')) = ''1_2Q''
   \<and> bare_suffix (profile_id ''NVIDIA'' ''A100'' ''1-2Q'' (Some ''lab'')) = ''1_2Q''"
proof -
  have "canonical_suffix ''1-2Q'' = ''1_2Q''" by code_simp
  moreover have h: "plain_name ''NVIDIA''" "plain_name ''A100''" "CHR ''~'' \<notin> set ''1-2Q''"
    by (simp_all add: plain_name_def)
  ultimately show ?thesis using suffix_readings_agree [OF h, of "Some ''lab''"] by simp
qed

lemma realizable_canonical:
  assumes "realizable_suffixes p = Some l" "t \<in> set l"
  shows "canonical_suffix t = t"
proof -
  have "canonical_suffix ''passthrough'' = ''passthrough''" by code_simp
  moreover have "canonical_suffix t = t" if "t \<in> set (vgpu_name_suffix n)" for n
    using that by (cases n) (auto simp: vgpu_name_suffix_def canonical_suffix_idem split: if_splits)
  moreover have "canonical_suffix t = t" if "t \<in> set (mig_name_suffix n)" for n
    using that by (cases n) (auto simp: mig_name_suffix_def canonical_suffix_idem)
  ultimately show ?thesis
    using assms by (auto simp: realizable_suffixes_def split: option.splits)
qed

lemma enabled_id_shape:
  assumes "startswith i (''NVIDIA-'' @ model @ ''-'')" "plain_name model" "CHR ''~'' \<notin> set (fst (split_qualifier i))"
  obtains s where "fst (split_qualifier i) = profile_id ''NVIDIA'' model s None" "CHR ''~'' \<notin> set s"
proof (cases "CHR ''~'' \<in> set i")
  case False
  obtain s where "i = (''NVIDIA-'' @ model @ ''-'') @ s" using assms(1) by (auto simp: prefix_def)
  then have "fst (split_qualifier i) = profile_id ''NVIDIA'' model s None" "CHR ''~'' \<notin> set s"
    using False by (simp_all add: split_qualifier_def profile_id_def)
  then show ?thesis by (rule that)
next
  case True
  let ?p = "''NVIDIA-'' @ model @ ''-''" and ?b = "fst (rsplit1 (CHR ''~'') i)" and ?n = "snd (rsplit1 (CHR ''~'') i)"
  have b: "fst (split_qualifier i) = ?b" using True by (simp add: split_qualifier_def split_beta)
  have i: "i = ?b @ CHR ''~'' # ?n" by (rule rsplit1_join [OF True])
  have "CHR ''~'' \<notin> set ?p" using assms(2) by (simp add: plain_name_def)
  then have "prefix ?p ?b"
    using assms(1) prefix_before_sep [of ?p ?b "CHR ''~''" ?n] i by simp
  then obtain s where "?b = ?p @ s" by (auto simp: prefix_def)
  then have "fst (split_qualifier i) = profile_id ''NVIDIA'' model s None" "CHR ''~'' \<notin> set s"
    using assms(3) b by (simp_all add: profile_id_def)
  then show ?thesis by (rule that)
qed

lemma prune_test:
  assumes "plain_name model" "realizable_suffixes p = Some l" "\<And>t. t \<in> set l \<Longrightarrow> CHR ''~'' \<notin> set t"
    and "startswith i (''NVIDIA-'' @ model @ ''-'')" "CHR ''~'' \<notin> set (fst (split_qualifier i))"
  shows "canonical_profile_id (fst (split_qualifier i)) \<in> set (map canonical_profile_id (the (realizable_profile_ids model p)))
     \<longleftrightarrow> bare_suffix i \<in> set l"
proof -
  have nv: "plain_name ''NVIDIA''" by (simp add: plain_name_def)
  obtain s where s: "fst (split_qualifier i) = profile_id ''NVIDIA'' model s None" "CHR ''~'' \<notin> set s"
    by (rule enabled_id_shape [OF assms(4,1,5)])
  have "bare_suffix i = canonical_suffix s"
    using s(1) split_max_profile [OF nv assms(1), of s] by (simp add: bare_suffix_def split_beta profile_id_def)
  moreover have "map canonical_profile_id (the (realizable_profile_ids model p))
      = map (\<lambda>t. profile_id ''NVIDIA'' model t None) l"
    using assms(2,3) canonical_profile_id_bare [OF nv assms(1)] realizable_canonical [OF assms(2)]
    by (auto simp: realizable_profile_ids_def profile_id_def)
  ultimately show ?thesis
    using canonical_profile_id_bare [OF nv assms(1) s(2)] by (auto simp: s(1) profile_id_None_inj)
qed

definition well_named_card :: "gpu_card \<Rightarrow> bool" where
  "well_named_card c \<longleftrightarrow>
     list_all (\<lambda>i. CHR ''~'' \<notin> set (fst (split_qualifier i))) (profiles_enabled c)
     \<and> (case card_payload c of None \<Rightarrow> True
        | Some p \<Rightarrow> (case realizable_suffixes p of None \<Rightarrow> True | Some l \<Rightarrow> list_all (\<lambda>t. CHR ''~'' \<notin> set t) l))"

lemma card_prunes_iff:
  assumes "plain_name model" "well_named_card c"
  shows "(cid, i) \<in> set (card_prunes model c) \<longleftrightarrow>
     cid = card_id c \<and> i \<in> set (profiles_enabled c) \<and> startswith i (''NVIDIA-'' @ model @ ''-'')
     \<and> (\<exists>p l. card_payload c = Some p \<and> reading_trustworthy p (card_sriov c)
          \<and> realizable_suffixes p = Some l \<and> bare_suffix i \<notin> set l)"
proof (cases "card_payload c")
  case (Some p)
  show ?thesis
  proof (cases "reading_trustworthy p (card_sriov c)")
    case True
    then obtain l where l: "realizable_suffixes p = Some l"
      by (auto simp: reading_trustworthy_def split: option.splits)
    have t: "t \<in> set l \<Longrightarrow> CHR ''~'' \<notin> set t" for t
      using assms(2) Some l by (simp add: well_named_card_def list_all_iff)
    have i: "i \<in> set (profiles_enabled c) \<Longrightarrow> CHR ''~'' \<notin> set (fst (split_qualifier i))" for i
      using assms(2) by (simp add: well_named_card_def list_all_iff)
    show ?thesis
      using True Some l i prune_test [OF assms(1) l t, of i]
      by (auto simp: card_prunes_def Let_def split: if_splits)
  qed (use Some in \<open>simp add: card_prunes_def\<close>)
qed (simp add: card_prunes_def)

text \<open>C23: A profile is disabled on a card exactly when the card itself proves it cannot realise it.
  The plan names a profile of a card if and only if the card was read in this cycle, the reading is
  trustworthy, the profile is enabled there for this model, and its hardware suffix, whatever the
  variant qualifier, is not among the suffixes the card reported. Cards not read, failed readings
  and suspect SR-IOV readings lose nothing, and passthrough is never pruned.\<close>

theorem plan_card_prunes_iff:
  assumes "plain_name model" "list_all well_named_card cards"
  shows "(cid, i) \<in> set (plan_card_prunes model cards) \<longleftrightarrow>
     (\<exists>c \<in> set cards. cid = card_id c \<and> i \<in> set (profiles_enabled c)
        \<and> startswith i (''NVIDIA-'' @ model @ ''-'')
        \<and> (\<exists>p l. card_payload c = Some p \<and> reading_trustworthy p (card_sriov c)
             \<and> realizable_suffixes p = Some l \<and> bare_suffix i \<notin> set l \<and> ''passthrough'' \<in> set l))"
proof -
  have "''passthrough'' \<in> set l" if "realizable_suffixes p = Some l" for p l
    using that by (auto simp: realizable_suffixes_def split: option.splits)
  then show ?thesis
    using card_prunes_iff [OF assms(1)] assms(2)
    by (fastforce simp: plan_card_prunes_def list_all_iff)
qed

theorem plan_card_prunes_iff_witness:
  "let c = \<lparr>card_id = ''gpu1'', profiles_enabled = [''NVIDIA-A40-8Q~lab'', ''NVIDIA-A40-passthrough~x'', ''NVIDIA-A40-4Q''],
            card_payload = Some \<lparr>vgpu_profiles = Some [JStr ''A40-4Q''], mig_profiles = []\<rparr>, card_sriov = Some 32\<rparr>
   in plain_name ''A40'' \<and> list_all well_named_card [c]
      \<and> (''gpu1'', ''NVIDIA-A40-8Q~lab'') \<in> set (plan_card_prunes ''A40'' [c])
      \<and> (''gpu1'', ''NVIDIA-A40-passthrough~x'') \<notin> set (plan_card_prunes ''A40'' [c])"
proof -
  let ?c = "\<lparr>card_id = ''gpu1'', profiles_enabled = [''NVIDIA-A40-8Q~lab'', ''NVIDIA-A40-passthrough~x'', ''NVIDIA-A40-4Q''],
            card_payload = Some \<lparr>vgpu_profiles = Some [JStr ''A40-4Q''], mig_profiles = []\<rparr>, card_sriov = Some 32\<rparr>"
  let ?p = "\<lparr>vgpu_profiles = Some [JStr ''A40-4Q''], mig_profiles = []\<rparr>"
  have h: "plain_name ''A40''" "list_all well_named_card [?c]" by code_simp+
  have r: "reading_trustworthy ?p (Some 32)" "realizable_suffixes ?p = Some [''passthrough'', ''4Q'']"
    "bare_suffix ''NVIDIA-A40-8Q~lab'' = ''8Q''" "bare_suffix ''NVIDIA-A40-passthrough~x'' = ''passthrough''"
    by code_simp+
  show ?thesis
    unfolding Let_def plan_card_prunes_iff [OF h] using h by (simp add: r)
qed

text \<open>The full outcome of the reconcile decision. A profile is applied only if the card's current
  discovery offers it under its canonical name, and it is the scheduled booking's profile whenever
  there is one; applying passthrough (which tears down SR-IOV) needs the operator's consent or a
  scheduled passthrough; operator consent wins over the live carve when no profile is requested;
  discovery is retried instead of faulted exactly for an SR-IOV card that reports nothing but
  passthrough.\<close>

theorem decide_reconcile_outcome:
  "case decide_reconcile_action requested scheduled types vfs consent fallback keep of
     ApplyProfile p \<Rightarrow>
       (or_str scheduled requested = Some p \<and> p \<noteq> [] \<and> canonical_suffix p \<in> canonical_suffix ` set types
          \<and> (p = ''passthrough'' \<longrightarrow> consent \<or> scheduled = Some ''passthrough''))
       \<or> (\<not> truthy_str scheduled \<and> requested = Some [] \<and> fallback = Some p)
   | SeedAndApply p \<Rightarrow> \<not> truthy_str scheduled \<and> requested = None
       \<and> (if consent then p = ''passthrough'' else \<not> keep \<and> fallback = Some p)
   | KeepCurrent p \<Rightarrow> \<not> truthy_str scheduled \<and> requested = None \<and> \<not> consent \<and> keep \<and> fallback = Some p
   | SkipRetry p \<Rightarrow> or_str scheduled requested = Some p \<and> set types \<subseteq> {''passthrough''} \<and> 0 < vfs
       \<and> canonical_suffix p \<notin> canonical_suffix ` set types
   | SkipFault p \<Rightarrow> or_str scheduled requested = Some p \<and> canonical_suffix p \<notin> canonical_suffix ` set types
       \<and> (types \<noteq> [] \<and> types \<noteq> [''passthrough''] \<or> vfs \<le> 0)
   | RefusePassthrough \<Rightarrow> requested = Some ''passthrough'' \<and> \<not> truthy_str scheduled \<and> \<not> consent
   | SkipNoop \<Rightarrow> \<not> truthy_str scheduled \<and> \<not> truthy_str requested \<and> \<not> truthy_str fallback"
  by (auto simp: decide_reconcile_action_def Let_def or_str_def truthy_str_def
      split: option.splits if_splits)

theorem decide_reconcile_outcome_witness:
  "decide_reconcile_action (Some ''1-2Q'') None [''1_2Q'', ''passthrough''] 16 False None False = ApplyProfile ''1-2Q''
   \<and> canonical_suffix ''1-2Q'' \<in> canonical_suffix ` set [''1_2Q'', ''passthrough'']"
proof -
  have a: "decide_reconcile_action (Some ''1-2Q'') None [''1_2Q'', ''passthrough''] 16 False None False = ApplyProfile ''1-2Q''"
    by code_simp
  show ?thesis
    using a decide_reconcile_outcome [where requested = "Some ''1-2Q''" and scheduled = None
        and types = "[''1_2Q'', ''passthrough'']" and vfs = 16 and consent = False and fallback = None and keep = False]
    by auto
qed

end
