(* ===== verification/Gpu_Pool.thy ===== *)
theory Gpu_Pool
  imports Prelude
begin

text \<open>
  The pool of mediated devices of a GPU card and its visibility: the applied state and the pool
  reconcile of \<open>isardvdi_common/lib/vgpu_state.py\<close>, the sizing and trimming helpers of the engine's
  \<open>models/_gpu_pool.py\<close>, and the per-category filters of \<open>lib/bookings/gpu_multitenancy.py\<close>. A pool
  entry is a dictionary \<open>{field: value}\<close>; the rows the filters read from the database are their
  arguments.
\<close>

section \<open>Applied state\<close>

type_synonym mdev = "(string \<times> json) list"
type_synonym pool = "(string \<times> (string \<times> mdev) list) list"

abbreviation mdev_get :: "mdev \<Rightarrow> string \<Rightarrow> json" where
  "mdev_get e k \<equiv> json_get (JDict e) k"

record applied_patch =
  ap_vgpu_profile :: string
  ap_mdevs :: pool
  ap_changing_to_profile :: bool
  ap_applied_by_hypervisor :: bool
  ap_mdevs_last_synced_at :: "rat option"
  ap_requested_profile :: "string option"
  ap_operator_passthrough :: "bool option"

text \<open>A field of the patch that is not written is \<open>None\<close>.\<close>

definition build_applied_state_patch :: "string option \<Rightarrow> string \<Rightarrow> pool option \<Rightarrow> rat option \<Rightarrow> applied_patch" where
  "build_applied_state_patch existing_requested applied_profile mdevs mdevs_reset_at =
     \<lparr>ap_vgpu_profile = applied_profile,
      ap_mdevs = (case mdevs of None \<Rightarrow> [] | Some m \<Rightarrow> m),
      ap_changing_to_profile = False,
      ap_applied_by_hypervisor = True,
      ap_mdevs_last_synced_at = mdevs_reset_at,
      ap_requested_profile = (if existing_requested = None then Some applied_profile else None),
      ap_operator_passthrough =
        (if existing_requested = None \<and> applied_profile = ''passthrough'' then Some True else None)\<rparr>"

definition add_entry :: "(string \<times> mdev) list \<Rightarrow> string \<times> json \<Rightarrow> (string \<times> mdev) list" where
  "add_entry by_uuid ue = (case ue of (u, JDict e) \<Rightarrow> alist_set u e by_uuid | _ \<Rightarrow> by_uuid)"

definition add_entries :: "(string \<times> mdev) list \<Rightarrow> string \<times> json \<Rightarrow> (string \<times> mdev) list" where
  "add_entries by_uuid se = (case se of (_, JDict entries) \<Rightarrow> foldl add_entry by_uuid entries | _ \<Rightarrow> by_uuid)"

definition merge_live :: "(string \<times> mdev) list \<Rightarrow> string list \<Rightarrow> string \<Rightarrow> mdev \<Rightarrow> mdev" where
  "merge_live by_uuid running u live_e =
     (let old = (case map_of by_uuid u of None \<Rightarrow> [] | Some e \<Rightarrow> e);
          merged = live_e;
          merged = (if u \<in> set running \<and> truthy_json (mdev_get old ''domain_started'')
                    then alist_set ''domain_started'' (mdev_get old ''domain_started'') merged else merged);
          merged = (if truthy_json (mdev_get old ''domain_reserved'')
                    then alist_set ''domain_reserved'' (mdev_get old ''domain_reserved'') merged else merged)
      in merged)"

definition reconcile_pool_to_live :: "(string \<times> json) list \<Rightarrow> pool \<Rightarrow> string list \<Rightarrow> pool" where
  "reconcile_pool_to_live db_mdevs live_mdevs running_uuids =
     (let by_uuid = foldl add_entries [] db_mdevs
      in map (\<lambda>(sfx, entries). (sfx, map (\<lambda>(u, live_e). (u, merge_live by_uuid running_uuids u live_e)) entries))
           live_mdevs)"

definition pinned_to :: "string \<Rightarrow> json \<Rightarrow> bool" where
  "pinned_to dom_id e =
     (case e of JDict d \<Rightarrow> mdev_get d ''domain_started'' = JStr dom_id \<or> mdev_get d ''domain_reserved'' = JStr dom_id
              | _ \<Rightarrow> False)"

definition freed_flags :: mdev where
  "freed_flags = [(''domain_started'', JBool False), (''domain_reserved'', JBool False)]"

definition profile_frees :: "string \<Rightarrow> string \<times> json \<Rightarrow> (string \<times> (string \<times> mdev) list) list" where
  "profile_frees dom_id pe =
     (case pe of
        (profile, JDict entries) \<Rightarrow>
          (let us = map fst (filter (\<lambda>(u, e). pinned_to dom_id e) entries)
           in if us = [] then [] else [(profile, map (\<lambda>u. (u, freed_flags)) us)])
      | _ \<Rightarrow> [])"

definition vgpu_pool_frees_for_domain :: "(string \<times> json) list \<Rightarrow> string \<Rightarrow> pool" where
  "vgpu_pool_frees_for_domain mdevs dom_id = concat (map (profile_frees dom_id) mdevs)"

text \<open>\<open>parse_json\<close> stands for \<open>json.loads\<close>, \<open>None\<close> for its \<open>ValueError\<close>.\<close>

definition parse_apply_report :: "(string \<Rightarrow> json option) \<Rightarrow> string option \<Rightarrow> (string \<times> json) list option" where
  "parse_apply_report parse_json stdout =
     (if \<not> truthy_str stdout then None
      else (case parse_json (the stdout) of
              Some (JDict d) \<Rightarrow> if ''result'' \<in> fst ` set d then Some d else None
            | _ \<Rightarrow> None))"

section \<open>Pool sizing and trimming\<close>

definition profile_pool_size :: "json \<Rightarrow> json \<Rightarrow> int res" where
  "profile_pool_size max_instance available =
     (case max_instance of
        JInt m \<Rightarrow> if m > 0 then Inr m
                  else (case py_int available of
                          Inr a \<Rightarrow> Inr (if a > 0 then a else 1)
                        | Inl OverflowError \<Rightarrow> Inl OverflowError
                        | Inl _ \<Rightarrow> Inr 1)
      | _ \<Rightarrow> (case py_int available of
                Inr a \<Rightarrow> Inr (if a > 0 then a else 1)
              | Inl OverflowError \<Rightarrow> Inl OverflowError
              | Inl _ \<Rightarrow> Inr 1))"

text \<open>\<open>v in (False, None)\<close>: Python's \<open>0\<close> and \<open>0.0\<close> equal \<open>False\<close>.\<close>

definition false_or_none :: "json \<Rightarrow> bool" where
  "false_or_none v = (v = JBool False \<or> v = JNull \<or> v = JInt 0 \<or> v = JFloat (Fin 0))"

definition mdev_is_free :: "json \<Rightarrow> bool" where
  "mdev_is_free entry =
     (case entry of
        JDict e \<Rightarrow> false_or_none (mdev_get e ''created'') \<and> false_or_none (mdev_get e ''domain_started'')
                   \<and> false_or_none (mdev_get e ''domain_reserved'')
      | _ \<Rightarrow> False)"

definition trim_in_use :: "string list \<Rightarrow> string \<times> json \<Rightarrow> bool" where
  "trim_in_use bound_uuids ue = (case ue of (u, e) \<Rightarrow> \<not> mdev_is_free e \<or> u \<in> set bound_uuids)"

definition plan_pool_trim ::
  "(string \<times> json) list \<Rightarrow> int \<Rightarrow> string list \<Rightarrow> ((string \<times> json) list \<times> string list) option" where
  "plan_pool_trim pool cap bound_uuids =
     (if cap < 1 then None
      else if int (length pool) \<le> cap then None
      else (let in_use = filter (trim_in_use bound_uuids) pool
            in if int (length in_use) \<ge> cap then None
               else (let free_sorted = sort (filter (\<lambda>u. u \<notin> fst ` set in_use) (map fst pool));
                         kept = foldl (\<lambda>k u. alist_set u (the (map_of pool u)) k) in_use
                                  (take (nat (cap - int (length in_use))) free_sorted);
                         removed = filter (\<lambda>u. u \<notin> fst ` set kept) (map fst pool)
                     in if removed = [] then None else Some (kept, removed))))"

definition dedup_blocked :: "string list \<Rightarrow> string \<times> json \<Rightarrow> bool" where
  "dedup_blocked bound_uuids ue =
     (case ue of
        (u, JDict e) \<Rightarrow> u \<in> set bound_uuids
           \<or> \<not> (false_or_none (mdev_get e ''domain_started'') \<and> false_or_none (mdev_get e ''domain_reserved''))
      | _ \<Rightarrow> True)"

text \<open>The sysfs form of an entry's \<open>pci_mdev_id\<close>; \<open>str\<close> of a value that is no string never has it.\<close>

definition canonical_pci :: "json \<Rightarrow> bool" where
  "canonical_pci e =
     (case e of JDict d \<Rightarrow> (case mdev_get d ''pci_mdev_id'' of JStr p \<Rightarrow> startswith p ''0000:'' | _ \<Rightarrow> False)
              | _ \<Rightarrow> False)"

definition plan_passthrough_dedup ::
  "(string \<times> json) list \<Rightarrow> string list \<Rightarrow> ((string \<times> json) list \<times> string list) option" where
  "plan_passthrough_dedup pool bound_uuids =
     (if length pool \<le> 1 then None
      else if list_ex (dedup_blocked bound_uuids) pool then None
      else (let canonical = sort (map fst (filter (\<lambda>(u, e). canonical_pci e) pool));
                chosen = (case canonical of c # _ \<Rightarrow> c | [] \<Rightarrow> hd (sort (map fst pool)))
            in Some ([(chosen, the (map_of pool chosen))], filter (\<lambda>u. u \<noteq> chosen) (map fst pool))))"

section \<open>Per-category visibility\<close>

record gpu_row =
  g_id :: string
  g_category :: "string option"
  g_profiles_enabled :: "string list"

record requester =
  rq_role_id :: string
  rq_category_id :: "string option"

text \<open>A category row is the value of its \<open>gpu_use_global_pool\<close> flag (\<open>JNull\<close> when unset).\<close>

definition gpu_owner_category :: "gpu_row \<Rightarrow> string option" where
  "gpu_owner_category row = g_category row"

definition category_uses_global_pool :: "(string \<Rightarrow> json option) \<Rightarrow> string option \<Rightarrow> bool" where
  "category_uses_global_pool categories category_id =
     (if \<not> truthy_str category_id then True
      else (case categories (the category_id) of
              None \<Rightarrow> True
            | Some v \<Rightarrow> if v = JNull then True else truthy_json v))"

definition card_visible :: "string option \<Rightarrow> string option \<Rightarrow> bool \<Rightarrow> bool" where
  "card_visible owner requester use_global = (owner = requester \<or> (use_global \<and> owner = None))"

definition visible_gpu_card_ids ::
  "(string \<Rightarrow> json option) \<Rightarrow> gpu_row list \<Rightarrow> requester option \<Rightarrow> string list option" where
  "visible_gpu_card_ids categories gpus payload =
     (case payload of
        None \<Rightarrow> None
      | Some p \<Rightarrow>
          if rq_role_id p = ''admin'' then None
          else (let use_global = category_uses_global_pool categories (rq_category_id p)
                in Some (map g_id (filter (\<lambda>g. card_visible (gpu_owner_category g) (rq_category_id p) use_global) gpus))))"

record gpu_plan =
  pl_item_type :: string
  pl_item_id :: string

definition filter_gpu_plans_by_category ::
  "(string \<Rightarrow> json option) \<Rightarrow> gpu_row list \<Rightarrow> 'a gpu_plan_scheme list \<Rightarrow> requester option \<Rightarrow> 'a gpu_plan_scheme list" where
  "filter_gpu_plans_by_category categories gpus plans payload =
     (case visible_gpu_card_ids categories gpus payload of
        None \<Rightarrow> plans
      | Some visible \<Rightarrow> filter (\<lambda>p. pl_item_type p \<noteq> ''gpus'' \<or> pl_item_id p \<in> set visible) plans)"

definition filter_reservables_by_category ::
  "(string \<Rightarrow> json option) \<Rightarrow> gpu_row list \<Rightarrow> string list \<Rightarrow> requester option \<Rightarrow> string list \<Rightarrow> string list" where
  "filter_reservables_by_category categories gpus reservables payload keep_ids =
     (case visible_gpu_card_ids categories gpus payload of
        None \<Rightarrow> reservables
      | Some visible \<Rightarrow>
          (let visible_enabled = concat (map g_profiles_enabled (filter (\<lambda>g. g_id g \<in> set visible) gpus))
           in filter (\<lambda>i. i \<in> set visible_enabled \<or> i \<in> set keep_ids) reservables))"

section \<open>Lemmas\<close>

lemma alist_set_same: "map_of d k = Some v \<Longrightarrow> alist_set k v d = d"
  by (induction k v d rule: alist_set.induct) (auto split: if_splits)

lemma foldl_alist_set_new:
  "distinct us \<Longrightarrow> set us \<inter> fst ` set d = {} \<Longrightarrow>
   foldl (\<lambda>k u. alist_set u (f u) k) d us = d @ map (\<lambda>u. (u, f u)) us"
proof (induction us arbitrary: d)
  case (Cons u us)
  then show ?case by (auto simp: alist_set_new)
qed simp

text \<open>What a trim keeps: the entries in use and as many free ones as still fit.\<close>

lemma plan_pool_trim_Some:
  assumes "plan_pool_trim pool cap bound = Some (kept, removed)" "distinct (map fst pool)"
  obtains us where "kept = filter (trim_in_use bound) pool @ map (\<lambda>u. (u, the (map_of pool u))) us"
    and "distinct us" "set us \<subseteq> fst ` set (filter (\<lambda>x. \<not> trim_in_use bound x) pool)"
    and "length (filter (trim_in_use bound) pool) + length us = nat cap"
    and "removed = filter (\<lambda>u. u \<notin> fst ` set kept) (map fst pool)"
proof -
  let ?in = "filter (trim_in_use bound) pool"
  let ?free = "sort (filter (\<lambda>u. u \<notin> fst ` set ?in) (map fst pool))"
  let ?us = "take (nat (cap - int (length ?in))) ?free"
  have c: "\<not> cap < 1" "\<not> int (length pool) \<le> cap" "\<not> int (length ?in) \<ge> cap"
    using assms(1) by (auto simp: plan_pool_trim_def Let_def split: if_splits)
  have kept: "kept = foldl (\<lambda>k u. alist_set u (the (map_of pool u)) k) ?in ?us"
    and rem: "removed = filter (\<lambda>u. u \<notin> fst ` set kept) (map fst pool)"
    using assms(1) c by (auto simp: plan_pool_trim_def Let_def split: if_splits)
  have free: "filter (\<lambda>u. u \<notin> fst ` set ?in) (map fst pool) = map fst (filter (\<lambda>x. \<not> trim_in_use bound x) pool)"
    unfolding filter_map comp_def using assms(2)
    by (intro arg_cong [where f = "map fst"] filter_cong) (auto simp: distinct_map inj_on_def)
  have lf: "length ?free = length (filter (\<lambda>x. \<not> trim_in_use bound x) pool)"
    by (simp only: length_sort free length_map)
  have sf: "set ?free = fst ` set (filter (\<lambda>x. \<not> trim_in_use bound x) pool)"
    by (simp only: set_sort free set_map)
  have "distinct ?free"
    by (simp only: distinct_sort free) (rule distinct_map_filter [OF assms(2)])
  then have d: "distinct ?us" by (rule distinct_take)
  have disj: "set ?us \<inter> fst ` set ?in = {}"
  proof -
    have "u \<notin> fst ` set ?in" if "u \<in> set ?free" for u
      using that unfolding set_sort set_filter by blast
    then show ?thesis using set_take_subset [of "nat (cap - int (length ?in))" ?free] by blast
  qed
  have "length pool = length ?in + length (filter (\<lambda>x. \<not> trim_in_use bound x) pool)"
    by (simp add: sum_length_filter_compl)
  then have "length ?in + length ?us = nat cap" using c unfolding length_take lf by linarith
  moreover have "set ?us \<subseteq> fst ` set (filter (\<lambda>x. \<not> trim_in_use bound x) pool)"
    using set_take_subset [of "nat (cap - int (length ?in))" ?free] unfolding sf .
  ultimately show ?thesis
    using that foldl_alist_set_new [OF d disj, of "\<lambda>u. the (map_of pool u)"] kept rem d by simp
qed

section \<open>Properties\<close>

text \<open>C12: Trimming an oversized pool is safe and exact. When a trim is planned, the kept pool has
  exactly the capacity of the card, every entry that is realised on the host, bound or reserved to
  a desktop, or referenced by a desktop is kept unchanged, and every dropped entry was free and
  unreferenced; kept and dropped entries together are the old pool.\<close>

theorem plan_pool_trim_safe:
  assumes "plan_pool_trim pool cap bound = Some (kept, removed)" "distinct (map fst pool)"
  shows "int (length kept) = cap \<and> distinct (map fst kept) \<and> set kept \<subseteq> set pool
     \<and> set removed = fst ` set pool - fst ` set kept
     \<and> (\<forall>u e. (u, e) \<in> set pool \<longrightarrow> \<not> mdev_is_free e \<or> u \<in> set bound \<longrightarrow> (u, e) \<in> set kept)"
proof -
  let ?in = "filter (trim_in_use bound) pool"
  from plan_pool_trim_Some [OF assms] obtain us where
    kept: "kept = ?in @ map (\<lambda>u. (u, the (map_of pool u))) us"
    and us: "distinct us" "set us \<subseteq> fst ` set (filter (\<lambda>x. \<not> trim_in_use bound x) pool)"
    and len: "length ?in + length us = nat cap"
    and rem: "removed = filter (\<lambda>u. u \<notin> fst ` set kept) (map fst pool)"
    by blast
  have pos: "1 \<le> cap" using assms(1) by (auto simp: plan_pool_trim_def split: if_splits)
  have val: "(u, the (map_of pool u)) \<in> set pool" if "u \<in> fst ` set pool" for u
    using that assms(2) by auto
  have disj: "fst ` set ?in \<inter> set us = {}"
    using us(2) assms(2) by (fastforce simp: distinct_map inj_on_def)
  show ?thesis
  proof (intro conjI allI impI)
    show "int (length kept) = cap" using kept len pos by simp
    show "distinct (map fst kept)"
      using kept us(1) disj assms(2) by (simp add: comp_def distinct_map_filter)
    show "set kept \<subseteq> set pool" using kept us(2) val by auto
    show "set removed = fst ` set pool - fst ` set kept" using rem by auto
    show "(u, e) \<in> set kept" if "(u, e) \<in> set pool" "\<not> mdev_is_free e \<or> u \<in> set bound" for u e
      using that kept by (auto simp: trim_in_use_def)
  qed
qed

theorem plan_pool_trim_safe_witness:
  "let pool = [(''b'', JDict []), (''a'', JDict [(''domain_started'', JStr ''d1'')]), (''c'', JDict [])]
   in plan_pool_trim pool 2 [] = Some ([(''a'', JDict [(''domain_started'', JStr ''d1'')]), (''b'', JDict [])], [''c''])
      \<and> set [''c''] = fst ` set pool - fst ` set [(''a'', JDict [(''domain_started'', JStr ''d1'')]), (''b'', JDict [])]"
proof -
  let ?pool = "[(''b'', JDict []), (''a'', JDict [(''domain_started'', JStr ''d1'')]), (''c'', JDict [])]"
  have p: "plan_pool_trim ?pool 2 [] = Some ([(''a'', JDict [(''domain_started'', JStr ''d1'')]), (''b'', JDict [])], [''c''])"
    by code_simp
  have d: "distinct (map fst ?pool)" by simp
  show ?thesis unfolding Let_def using p plan_pool_trim_safe [OF p d] by blast
qed

text \<open>A pool whose in-use entries number exactly the capacity is not trimmed.\<close>

lemma trim_refuses_at_capacity:
  "plan_pool_trim [(''a'', JDict [(''domain_started'', JStr ''d1'')]), (''b'', JDict [])] 1 [] = None"
  by code_simp

section \<open>Reconciling a pool with the host\<close>

definition db_entry :: "(string \<times> json) list \<Rightarrow> string \<Rightarrow> mdev" where
  "db_entry db u = (case map_of (foldl add_entries [] db) u of None \<Rightarrow> [] | Some e \<Rightarrow> e)"

lemma mdev_get_set: "mdev_get (alist_set k v e) k' = (if k' = k then v else mdev_get e k')"
  by (simp add: json_get_def)

lemma merge_live_get:
  "mdev_get (merge_live (foldl add_entries [] db) running u live_e) k =
     (if k = ''domain_started'' \<and> u \<in> set running \<and> truthy_json (mdev_get (db_entry db u) ''domain_started'')
      then mdev_get (db_entry db u) ''domain_started''
      else if k = ''domain_reserved'' \<and> truthy_json (mdev_get (db_entry db u) ''domain_reserved'')
      then mdev_get (db_entry db u) ''domain_reserved''
      else mdev_get live_e k)"
  by (simp add: merge_live_def Let_def mdev_get_set db_entry_def)

definition pool_uuids :: "pool \<Rightarrow> (string \<times> string list) list" where
  "pool_uuids p = map (\<lambda>(s, es). (s, map fst es)) p"

lemma pool_uuids_reconcile: "pool_uuids (reconcile_pool_to_live db live running) = pool_uuids live"
  by (auto simp: pool_uuids_def reconcile_pool_to_live_def Let_def)

text \<open>C25: Reality wins without stopping a desktop. The reconciled pool has exactly the devices the host
  reports, profile by profile; an entry's \<open>domain_started\<close> differs from the host's only if a desktop
  really runs on the device and the database already bound it; a reservation lock the database
  holds on a reported device survives; every other field is the host's.\<close>

theorem reconcile_pool_reality:
  assumes "(sfx, entries) \<in> set (reconcile_pool_to_live db live running)" "(u, e) \<in> set entries"
  shows "pool_uuids (reconcile_pool_to_live db live running) = pool_uuids live
    \<and> (\<exists>live_entries live_e. (sfx, live_entries) \<in> set live \<and> (u, live_e) \<in> set live_entries
       \<and> (mdev_get e ''domain_started'' \<noteq> mdev_get live_e ''domain_started'' \<longrightarrow>
            u \<in> set running \<and> mdev_get e ''domain_started'' = mdev_get (db_entry db u) ''domain_started'')
       \<and> mdev_get e ''domain_reserved'' =
           (if truthy_json (mdev_get (db_entry db u) ''domain_reserved'')
            then mdev_get (db_entry db u) ''domain_reserved'' else mdev_get live_e ''domain_reserved'')
       \<and> (\<forall>k. k \<noteq> ''domain_started'' \<longrightarrow> k \<noteq> ''domain_reserved'' \<longrightarrow> mdev_get e k = mdev_get live_e k))"
proof -
  obtain live_entries live_e where l: "(sfx, live_entries) \<in> set live" "(u, live_e) \<in> set live_entries"
    and e: "e = merge_live (foldl add_entries [] db) running u live_e"
    using assms by (auto simp: reconcile_pool_to_live_def Let_def)
  show ?thesis
    unfolding e merge_live_get
    by (intro conjI exI [of _ live_entries] exI [of _ live_e] l) (simp_all add: pool_uuids_reconcile)
qed

theorem reconcile_pool_reality_witness:
  "let db = [(''4Q'', JDict [(''u1'', JDict [(''domain_started'', JStr ''d1'')]),
                             (''u2'', JDict [(''domain_reserved'', JStr ''d2'')])])];
       live = [(''4Q'', [(''u1'', [(''domain_started'', JBool False)]), (''u2'', [])])]
   in reconcile_pool_to_live db live [] =
        [(''4Q'', [(''u1'', [(''domain_started'', JBool False)]), (''u2'', [(''domain_reserved'', JStr ''d2'')])])]
      \<and> pool_uuids (reconcile_pool_to_live db live []) = pool_uuids live"
proof -
  let ?db = "[(''4Q'', JDict [(''u1'', JDict [(''domain_started'', JStr ''d1'')]),
                             (''u2'', JDict [(''domain_reserved'', JStr ''d2'')])])]"
  let ?live = "[(''4Q'', [(''u1'', [(''domain_started'', JBool False)]), (''u2'', [])])]"
  let ?out = "[(''u1'', [(''domain_started'', JBool False)]), (''u2'', [(''domain_reserved'', JStr ''d2'')])]"
  have r: "reconcile_pool_to_live ?db ?live [] = [(''4Q'', ?out)]" by code_simp
  have "(''4Q'', ?out) \<in> set (reconcile_pool_to_live ?db ?live [])" "(''u2'', [(''domain_reserved'', JStr ''d2'')]) \<in> set ?out"
    by (simp_all add: r)
  from reconcile_pool_reality [OF this] show ?thesis unfolding Let_def using r by blast
qed

text \<open>The pool as it is written back to the database.\<close>

definition pool_doc :: "pool \<Rightarrow> (string \<times> json) list" where
  "pool_doc p = map (\<lambda>(s, es). (s, JDict (map (\<lambda>(u, e). (u, JDict e)) es))) p"

definition all_uuids :: "pool \<Rightarrow> string list" where
  "all_uuids p = concat (map (\<lambda>(s, es). map fst es) p)"

lemma foldl_pool_doc_Cons:
  "foldl add_entries acc (pool_doc ((s, es) # p)) =
     foldl add_entries (foldl add_entry acc (map (\<lambda>(u, e). (u, JDict e)) es)) (pool_doc p)"
  by (simp add: pool_doc_def) (simp add: add_entries_def)

lemma add_entry_other:
  "u \<notin> fst ` set es \<Longrightarrow> map_of (foldl add_entry acc (map (\<lambda>(u, e). (u, JDict e)) es)) u = map_of acc u"
  by (induction es arbitrary: acc) (auto simp: add_entry_def)

lemma add_entry_hit:
  "distinct (map fst es) \<Longrightarrow> (u, e) \<in> set es \<Longrightarrow>
   map_of (foldl add_entry acc (map (\<lambda>(u, e). (u, JDict e)) es)) u = Some e"
proof (induction es arbitrary: acc)
  case (Cons x es)
  obtain v f where x: "x = (v, f)" by (cases x)
  show ?case
  proof (cases "(u, e) = x")
    case True
    then have "u \<notin> fst ` set es" using Cons.prems x by auto
    then show ?thesis using True x by (simp add: add_entry_other) (simp add: add_entry_def)
  next
    case False
    then show ?thesis using Cons x by auto
  qed
qed simp

lemma pool_doc_other: "u \<notin> set (all_uuids p) \<Longrightarrow> map_of (foldl add_entries acc (pool_doc p)) u = map_of acc u"
  by (induction p arbitrary: acc) (auto simp: pool_doc_def all_uuids_def add_entries_def add_entry_other)

lemma pool_doc_hit:
  "distinct (all_uuids p) \<Longrightarrow> (s, es) \<in> set p \<Longrightarrow> (u, e) \<in> set es \<Longrightarrow>
   map_of (foldl add_entries acc (pool_doc p)) u = Some e"
proof (induction p arbitrary: acc)
  case (Cons x p)
  obtain s' es' where x: "x = (s', es')" by (cases x)
  have d: "distinct (map fst es')" "distinct (all_uuids p)" "set (map fst es') \<inter> set (all_uuids p) = {}"
    using Cons.prems(1) by (auto simp: all_uuids_def x)
  show ?case
  proof (cases "(s, es) = x")
    case True
    then have "u \<notin> set (all_uuids p)" using d(3) Cons.prems(3) x by force
    then show ?thesis
      using pool_doc_other [of u p] add_entry_hit [OF d(1)] Cons.prems(3) True x
      by (simp add: foldl_pool_doc_Cons)
  next
    case False
    then have "(s, es) \<in> set p" using Cons.prems(2) by simp
    from Cons.IH [OF d(2) this Cons.prems(3)] show ?thesis by (simp add: x foldl_pool_doc_Cons)
  qed
qed simp

lemma mdev_get_truthy: "truthy_json (mdev_get e k) \<Longrightarrow> map_of e k = Some (mdev_get e k)"
  by (cases "map_of e k") (simp_all add: json_get_def truthy_json_def)

lemma alist_set_mdev_get: "truthy_json (mdev_get e k) \<Longrightarrow> alist_set k (mdev_get e k) e = e"
  by (rule alist_set_same, rule mdev_get_truthy)

lemma alist_set_mdev_get_other:
  "truthy_json (mdev_get e k) \<Longrightarrow> k \<noteq> k' \<Longrightarrow> alist_set k (mdev_get e k) (alist_set k' v e) = alist_set k' v e"
  using alist_set_mdev_get [of "alist_set k' v e" k] by (simp add: mdev_get_set)

lemma reconcile_cong:
  assumes "\<And>s es u live_e. (s, es) \<in> set live \<Longrightarrow> (u, live_e) \<in> set es \<Longrightarrow>
     merge_live (foldl add_entries [] db) running u live_e = merge_live (foldl add_entries [] db') running u live_e"
  shows "reconcile_pool_to_live db live running = reconcile_pool_to_live db' live running"
  unfolding reconcile_pool_to_live_def Let_def using assms by (auto intro!: map_cong)

lemma merge_live_idem:
  assumes "map_of byu u = Some (merge_live byu' running u live_e)"
  shows "merge_live byu running u live_e = merge_live byu' running u live_e"
proof -
  let ?old = "case map_of byu' u of None \<Rightarrow> [] | Some e \<Rightarrow> e"
  show ?thesis
    using assms
    by (cases "u \<in> set running \<and> truthy_json (mdev_get ?old ''domain_started'')";
        cases "truthy_json (mdev_get ?old ''domain_reserved'')")
      (auto simp: merge_live_def Let_def mdev_get_set alist_set_mdev_get alist_set_mdev_get_other)
qed

text \<open>Reconciling is idempotent: for a host whose devices have distinct ids, writing the
  reconciled pool back and reconciling it again with the same report changes nothing, so repeated
  reports never make the database drift.\<close>

theorem reconcile_pool_idempotent:
  assumes "distinct (all_uuids live)"
  shows "reconcile_pool_to_live (pool_doc (reconcile_pool_to_live db live running)) live running
    = reconcile_pool_to_live db live running"
proof -
  let ?out = "reconcile_pool_to_live db live running"
  have "all_uuids p = concat (map snd (pool_uuids p))" for p
    by (induction p) (auto simp: all_uuids_def pool_uuids_def)
  then have d: "distinct (all_uuids ?out)" using assms pool_uuids_reconcile by metis
  have "merge_live (foldl add_entries [] (pool_doc ?out)) running u live_e
      = merge_live (foldl add_entries [] db) running u live_e"
    if "(s, es) \<in> set live" "(u, live_e) \<in> set es" for s es u live_e
  proof (rule merge_live_idem, rule pool_doc_hit [OF d])
    let ?m = "\<lambda>(u, live_e). (u, merge_live (foldl add_entries [] db) running u live_e)"
    show "(s, map ?m es) \<in> set ?out"
      using that(1) by (force simp: reconcile_pool_to_live_def Let_def)
    show "(u, merge_live (foldl add_entries [] db) running u live_e) \<in> set (map ?m es)"
      using that(2) by force
  qed
  then show ?thesis by (rule reconcile_cong)
qed

theorem reconcile_pool_idempotent_witness:
  "let live = [(''4Q'', [(''u1'', []), (''u2'', [])])]; db = [(''2Q'', JDict [(''u1'', JDict [(''domain_reserved'', JStr ''d'')])])]
   in distinct (all_uuids live)
      \<and> reconcile_pool_to_live (pool_doc (reconcile_pool_to_live db live [])) live [] = reconcile_pool_to_live db live []"
proof -
  have "distinct (all_uuids [(''4Q'', [(''u1'', []), (''u2'', [])])])" by (simp add: all_uuids_def)
  then show ?thesis unfolding Let_def using reconcile_pool_idempotent by blast
qed

section \<open>Releasing a desktop and tenant isolation\<close>

text \<open>Stopping a desktop releases everything it holds on a card and nothing else: the patch turns
  off the binding of a device exactly when the device is started or reserved for that desktop,
  however many profiles and devices it holds.\<close>

theorem frees_exactly_the_domain:
  "(\<exists>es. (profile, es) \<in> set (vgpu_pool_frees_for_domain mdevs did) \<and> (u, flags) \<in> set es) \<longleftrightarrow>
     flags = freed_flags \<and> (\<exists>entries e. (profile, JDict entries) \<in> set mdevs \<and> (u, e) \<in> set entries \<and> pinned_to did e)"
proof -
  have p: "(\<exists>es. (profile, es) \<in> set (profile_frees did pe) \<and> (u, flags) \<in> set es) \<longleftrightarrow>
      flags = freed_flags \<and> (\<exists>entries e. pe = (profile, JDict entries) \<and> (u, e) \<in> set entries \<and> pinned_to did e)" for pe
  proof -
    obtain q j where pe: "pe = (q, j)" by (cases pe)
    show ?thesis
      by (cases j) (force simp: pe profile_frees_def Let_def filter_empty_conv)+
  qed
  have "(\<exists>es. (profile, es) \<in> set (vgpu_pool_frees_for_domain mdevs did) \<and> (u, flags) \<in> set es) \<longleftrightarrow>
      (\<exists>pe \<in> set mdevs. \<exists>es. (profile, es) \<in> set (profile_frees did pe) \<and> (u, flags) \<in> set es)"
    by (auto simp: vgpu_pool_frees_for_domain_def)
  then show ?thesis unfolding p by blast
qed

lemma visible_ids_iff:
  assumes "visible_gpu_card_ids categories gpus payload = Some ids"
  shows "c \<in> set ids \<longleftrightarrow> (\<exists>g \<in> set gpus. g_id g = c \<and> (\<exists>p. payload = Some p \<and>
     (g_category g = rq_category_id p
      \<or> g_category g = None \<and> category_uses_global_pool categories (rq_category_id p))))"
  using assms
  by (auto simp: visible_gpu_card_ids_def card_visible_def gpu_owner_category_def Let_def
      split: option.splits if_splits)

text \<open>C26: Tenant isolation of GPU capacity. A requester who is not an administrator is shown a plan of
  a GPU card only if some card row with that id is delegated to the requester's own category, or
  is undelegated and the category draws from the global pool; plans of other resources pass, order
  is kept, and an administrator sees every plan.\<close>

theorem gpu_plans_tenant_isolation:
  "filter_gpu_plans_by_category categories gpus plans (Some req) =
     filter (\<lambda>p. rq_role_id req = ''admin'' \<or> pl_item_type p \<noteq> ''gpus'' \<or>
        (\<exists>g \<in> set gpus. g_id g = pl_item_id p \<and>
           (g_category g = rq_category_id req
            \<or> g_category g = None \<and> (case rq_category_id req of None \<Rightarrow> True
                | Some c \<Rightarrow> c = [] \<or> (case categories c of None \<Rightarrow> True | Some v \<Rightarrow> v = JNull \<or> truthy_json v))))) plans"
proof (cases "rq_role_id req = ''admin''")
  case True
  then show ?thesis by (simp add: filter_gpu_plans_by_category_def visible_gpu_card_ids_def)
next
  case False
  then obtain ids where ids: "visible_gpu_card_ids categories gpus (Some req) = Some ids"
    by (simp add: visible_gpu_card_ids_def Let_def)
  have glob: "category_uses_global_pool categories (rq_category_id req) \<longleftrightarrow>
      (case rq_category_id req of None \<Rightarrow> True
       | Some c \<Rightarrow> c = [] \<or> (case categories c of None \<Rightarrow> True | Some v \<Rightarrow> v = JNull \<or> truthy_json v))"
    by (auto simp: category_uses_global_pool_def split: option.splits)
  show ?thesis
    unfolding filter_gpu_plans_by_category_def ids option.case visible_ids_iff [OF ids] glob [symmetric]
    using False by (intro filter_cong) auto
qed

theorem gpu_plans_tenant_isolation_witness:
  "filter_gpu_plans_by_category (\<lambda>c. None)
     [\<lparr>g_id = ''card'', g_category = Some ''b'', g_profiles_enabled = []\<rparr>]
     [\<lparr>pl_item_type = ''gpus'', pl_item_id = ''card''\<rparr>]
     (Some \<lparr>rq_role_id = ''user'', rq_category_id = Some ''a''\<rparr>) = []"
  unfolding gpu_plans_tenant_isolation by simp

end
