(* ===== verification/Memory_Placement.thy ===== *)
theory Memory_Placement
  imports Prelude
begin

text \<open>
  Where the memory of a desktop goes on one host: the backing decision of the engine's
  \<open>models/memory_placement.py\<close>, the NUMA node choice of \<open>models/numa_balancer.py\<close> and the
  statistics helper \<open>services/lib/mem_stats.py\<close>. The statistics a host reports are a record of
  optional integers (KiB); a dictionary that lacks a key has \<open>None\<close> there. Ratios are exact
  rationals.
\<close>

section \<open>Memory backing\<close>

definition GIB_KB :: int where "GIB_KB = 1048576"

datatype backing = REGULAR | HUGEPAGES

record mem_stats =
  ms_available :: "int option"
  ms_total :: "int option"
  ms_used :: "int option"
  ms_guests_kb :: "int option"
  ms_hugepages_used_kb :: "int option"
  ms_hugepages_total_kb :: "int option"
  ms_hugepages_free_kb :: "int option"

definition no_stats :: mem_stats where
  "no_stats = \<lparr>ms_available = None, ms_total = None, ms_used = None, ms_guests_kb = None,
     ms_hugepages_used_kb = None, ms_hugepages_total_kb = None, ms_hugepages_free_kb = None\<rparr>"

text \<open>\<open>d.get(k, 0) or 0\<close> on an integer field.\<close>

definition or0 :: "int option \<Rightarrow> int" where
  "or0 x = (case x of None \<Rightarrow> 0 | Some n \<Rightarrow> n)"

record hugepages_info =
  hp_mounted :: bool
  hp_mount_sizes :: "string list option"
  hp_total_1G :: int
  hp_total_2M :: int

text \<open>The hugepage sizes, largest first: the page, its label and its size in KiB.\<close>

datatype page_size = Page1G | Page2M

definition HUGEPAGE_SIZES :: "(page_size \<times> string \<times> int) list" where
  "HUGEPAGE_SIZES = [(Page1G, ''1G'', 1048576), (Page2M, ''2M'', 2048)]"

definition hp_total :: "hugepages_info \<Rightarrow> page_size \<Rightarrow> int" where
  "hp_total info page = (case page of Page1G \<Rightarrow> hp_total_1G info | Page2M \<Rightarrow> hp_total_2M info)"

definition pool_kb :: "hugepages_info \<Rightarrow> (page_size \<times> int) list" where
  "pool_kb info = map (\<lambda>(page, label, page_kb). (page, hp_total info page * page_kb)) HUGEPAGE_SIZES"

fun pick_size :: "int \<Rightarrow> hugepages_info \<Rightarrow> int \<Rightarrow> (page_size \<times> string \<times> int) list \<Rightarrow> page_size option" where
  "pick_size memory_kb info free_kb [] = None"
| "pick_size memory_kb info free_kb ((page, label, page_kb) # rest) =
     (if the (map_of (pool_kb info) page) = 0 \<or> memory_kb mod page_kb \<noteq> 0
      then pick_size memory_kb info free_kb rest
      else if (case hp_mount_sizes info of None \<Rightarrow> False | Some usable \<Rightarrow> label \<notin> set usable)
      then pick_size memory_kb info free_kb rest
      else if free_kb - sum_list (map snd (filter (\<lambda>(k, v). k \<noteq> page) (pool_kb info))) \<ge> memory_kb
      then Some page
      else pick_size memory_kb info free_kb rest)"

definition pick_hugepage_size :: "int \<Rightarrow> hugepages_info \<Rightarrow> int \<Rightarrow> page_size option" where
  "pick_hugepage_size memory_kb hugepages free_kb = pick_size memory_kb hugepages free_kb HUGEPAGE_SIZES"

definition committed_regular_kb :: "mem_stats \<Rightarrow> int option" where
  "committed_regular_kb ms =
     (case ms_guests_kb ms of
        None \<Rightarrow> None
      | Some guests_kb \<Rightarrow> Some (max 0 (guests_kb - or0 (ms_hugepages_used_kb ms))))"

definition regular_room_kb :: "mem_stats \<Rightarrow> int \<Rightarrow> int \<Rightarrow> int \<times> int option" where
  "regular_room_kb ms min_free_kb pending_regular_kb =
     (let measured = or0 (ms_available ms) - pending_regular_kb - min_free_kb
      in case committed_regular_kb ms of
           None \<Rightarrow> (measured, None)
         | Some committed \<Rightarrow>
             (let regular_total_kb = or0 (ms_total ms) - or0 (ms_hugepages_total_kb ms)
              in (measured, Some (regular_total_kb - min_free_kb - committed - pending_regular_kb))))"

text \<open>\<open>None\<close> for the host's \<open>hugepages_info\<close> and statistics is a missing or empty dictionary.\<close>

definition plan_memory_backing ::
  "mem_stats option \<Rightarrow> hugepages_info option \<Rightarrow> int \<Rightarrow> int \<Rightarrow> int \<Rightarrow> int \<Rightarrow> backing option" where
  "plan_memory_backing stats hugepages min_free_mem_gb domain_memory_kb pending_regular_kb pending_hugepages_kb =
     (let mounted = (case hugepages of None \<Rightarrow> False | Some h \<Rightarrow> hp_mounted h);
          min_free_kb = min_free_mem_gb * GIB_KB
      in if \<not> mounted \<and> min_free_kb = 0 then Some REGULAR
         else (let ms = (case stats of None \<Rightarrow> no_stats | Some m \<Rightarrow> m)
               in if ms_available ms = None then Some REGULAR
                  else (let (measured, committed) = regular_room_kb ms min_free_kb pending_regular_kb;
                            fits_measured = (measured \<ge> domain_memory_kb);
                            fits_committed = (case committed of None \<Rightarrow> True | Some c \<Rightarrow> c \<ge> domain_memory_kb)
                        in if fits_measured \<and> fits_committed then Some REGULAR
                           else (let has_pool = (mounted \<and> (case hugepages of None \<Rightarrow> False
                                        | Some h \<Rightarrow> list_ex (\<lambda>(page, _). hp_total h page \<noteq> 0) HUGEPAGE_SIZES))
                                 in if \<not> has_pool
                                    then (if fits_measured \<and> min_free_kb = 0 then Some REGULAR else None)
                                    else if pick_hugepage_size domain_memory_kb (the hugepages)
                                              (or0 (ms_hugepages_free_kb ms) - pending_hugepages_kb) \<noteq> None
                                    then Some HUGEPAGES
                                    else if fits_measured then Some REGULAR else None))))"

section \<open>NUMA nodes\<close>

definition cpulist_part :: "string \<Rightarrow> int" where
  "cpulist_part p =
     (let part = strip p
      in if part = [] then 0
         else if CHR ''-'' \<in> set part
         then (case split_max 1 (CHR ''-'') part of
                 [lo, hi] \<Rightarrow> (case (py_int_str hi, py_int_str lo) of
                               (Some h, Some l) \<Rightarrow> h - l + 1 | _ \<Rightarrow> 0)
               | _ \<Rightarrow> 0)
         else (case py_int_str part of None \<Rightarrow> 0 | Some _ \<Rightarrow> 1))"

definition cpulist_size :: "string \<Rightarrow> int" where
  "cpulist_size cpulist =
     (if cpulist = [] then 0 else sum_list (map cpulist_part (split_on (CHR '','') cpulist)))"

text \<open>An in-flight start on a node: node, memory in GiB, vCPUs and time.\<close>

type_synonym node_pending = "string \<times> rat \<times> int \<times> rat"

definition add_node_pending ::
  "rat \<Rightarrow> (string \<times> rat \<times> int) list \<Rightarrow> node_pending \<Rightarrow> (string \<times> rat \<times> int) list" where
  "add_node_pending cutoff result e =
     (case e of (node, ram_gb, vcpus, ts) \<Rightarrow>
        if ts \<le> cutoff then result
        else (let (r, v) = (case map_of result node of None \<Rightarrow> (0, 0) | Some rv \<Rightarrow> rv)
              in alist_set node (r + ram_gb * of_int GIB_KB, v + vcpus) result))"

definition aggregate_pending_by_node :: "node_pending list \<Rightarrow> rat \<Rightarrow> rat \<Rightarrow> (string \<times> rat \<times> int) list" where
  "aggregate_pending_by_node entries now expiry_seconds =
     foldl (add_node_pending (now - expiry_seconds)) [] entries"

definition node_score ::
  "string \<Rightarrow> int \<Rightarrow> rat \<Rightarrow> int \<Rightarrow> int \<Rightarrow> int \<Rightarrow> rat" where
  "node_score cpulist free_kb pending_ram_kb pending_vcpus domain_memory_kb domain_vcpus =
     (let n = cpulist_size cpulist; node_cpus = (if n = 0 then 1 else n);
          mem_headroom = of_int free_kb - pending_ram_kb - of_int domain_memory_kb;
          vcpu_headroom = node_cpus - pending_vcpus - domain_vcpus
      in min (mem_headroom / of_int (if free_kb = 0 then 1 else free_kb)) (of_int vcpu_headroom / of_int node_cpus))"

fun best_node :: "(string \<Rightarrow> rat) \<Rightarrow> string list \<Rightarrow> (string \<times> rat) option \<Rightarrow> (string \<times> rat) option" where
  "best_node score [] best = best"
| "best_node score (n # ns) best =
     best_node score ns
       (case best of None \<Rightarrow> Some (n, score n)
        | Some (b, s) \<Rightarrow> if score n > s then Some (n, score n) else best)"

definition numa_score ::
  "(string \<times> string) list \<Rightarrow> (string \<times> int) list \<Rightarrow> int \<Rightarrow> int \<Rightarrow> (string \<times> rat \<times> int) list \<Rightarrow> string \<Rightarrow> rat" where
  "numa_score nodes numa_hugepages_free_kb domain_memory_kb domain_vcpus pending_by_node node =
     (let free_kb = or0 (map_of numa_hugepages_free_kb node);
          (pr, pv) = (case map_of pending_by_node node of None \<Rightarrow> (0, 0) | Some p \<Rightarrow> p)
      in node_score (the (map_of nodes node)) free_kb pr pv domain_memory_kb domain_vcpus)"

definition select_balanced_numa_node ::
  "(string \<times> string) list \<Rightarrow> (string \<times> int) list \<Rightarrow> int \<Rightarrow> int \<Rightarrow> (string \<times> rat \<times> int) list \<Rightarrow> string option" where
  "select_balanced_numa_node nodes numa_hugepages_free_kb domain_memory_kb domain_vcpus pending_by_node =
     (if length nodes < 2 then None
      else map_option fst (best_node
        (numa_score nodes numa_hugepages_free_kb domain_memory_kb domain_vcpus pending_by_node)
        (sort (map fst nodes)) None))"

section \<open>Free memory\<close>

definition hyper_free_ram_kb :: "mem_stats \<Rightarrow> int" where
  "hyper_free_ram_kb ms =
     (case ms_used ms of
        None \<Rightarrow> or0 (ms_available ms)
      | Some used \<Rightarrow> max 0 (or0 (ms_total ms) - used))"

section \<open>Lemmas\<close>

definition fits_page :: "int \<Rightarrow> hugepages_info \<Rightarrow> int \<Rightarrow> page_size \<times> string \<times> int \<Rightarrow> bool" where
  "fits_page m info free x = (case x of (page, label, page_kb) \<Rightarrow>
     the (map_of (pool_kb info) page) \<noteq> 0 \<and> m mod page_kb = 0
     \<and> (case hp_mount_sizes info of None \<Rightarrow> True | Some us \<Rightarrow> label \<in> set us)
     \<and> m \<le> free - sum_list (map snd (filter (\<lambda>(k, v). k \<noteq> page) (pool_kb info))))"

lemma pick_size_find: "pick_size m info free sizes = map_option fst (List.find (fits_page m info free) sizes)"
proof (induction sizes)
  case (Cons x sizes)
  obtain page label page_kb where x: "x = (page, label, page_kb)" by (cases x)
  show ?case using Cons by (simp add: x fits_page_def split: option.splits)
qed simp

lemma pool_kb_eq: "pool_kb info = [(Page1G, hp_total_1G info * 1048576), (Page2M, hp_total_2M info * 2048)]"
  by (simp add: pool_kb_def HUGEPAGE_SIZES_def hp_total_def)

lemma best_node_acc:
  assumes "sorted ns"
  shows "\<exists>n. best_node score ns (Some (b, score b)) = Some (n, score n) \<and> n \<in> insert b (set ns)
     \<and> (\<forall>m \<in> insert b (set ns). score m \<le> score n)
     \<and> (\<forall>m \<in> set ns. score m = score n \<longrightarrow> n = b \<or> n \<le> m) \<and> (score b = score n \<longrightarrow> n = b)"
  using assms
proof (induction ns arbitrary: b)
  case (Cons x ns)
  have sns: "sorted ns" and le: "\<forall>m \<in> set ns. x \<le> m" using Cons.prems by simp_all
  show ?case
  proof (cases "score x > score b")
    case True
    obtain n where n: "best_node score ns (Some (x, score x)) = Some (n, score n)" "n \<in> insert x (set ns)"
      "\<forall>m \<in> insert x (set ns). score m \<le> score n"
      "\<forall>m \<in> set ns. score m = score n \<longrightarrow> n = x \<or> n \<le> m" "score x = score n \<longrightarrow> n = x"
      using Cons.IH [OF sns] by blast
    have "score b < score n" using True n(3) by (meson insertI1 less_le_trans)
    note lt = this
    have "best_node score (x # ns) (Some (b, score b)) = Some (n, score n)" using n(1) True by simp
    moreover have "n \<in> insert b (set (x # ns))" using n(2) by simp
    moreover have "\<forall>m \<in> insert b (set (x # ns)). score m \<le> score n" using n(3) lt by simp
    moreover have "\<forall>m \<in> set (x # ns). score m = score n \<longrightarrow> n = b \<or> n \<le> m"
      using n(4,5) le by (metis order_refl set_ConsD)
    ultimately show ?thesis using lt by (intro exI [of _ n]) simp
  next
    case False
    obtain n where n: "best_node score ns (Some (b, score b)) = Some (n, score n)" "n \<in> insert b (set ns)"
      "\<forall>m \<in> insert b (set ns). score m \<le> score n"
      "\<forall>m \<in> set ns. score m = score n \<longrightarrow> n = b \<or> n \<le> m" "score b = score n \<longrightarrow> n = b"
      using Cons.IH [OF sns] by blast
    have "score x \<le> score n" using False n(3) by (meson insertI1 not_less order_trans)
    moreover have "score x = score n \<Longrightarrow> n = b" using False n(3,5) by (metis insertI1 not_less order_antisym)
    ultimately show ?thesis using n False by (intro exI [of _ n]) auto
  qed
qed simp

lemma best_node_max:
  assumes "sorted ns" "ns \<noteq> []"
  shows "\<exists>n. best_node score ns None = Some (n, score n) \<and> n \<in> set ns
     \<and> (\<forall>m \<in> set ns. score m \<le> score n) \<and> (\<forall>m \<in> set ns. score m = score n \<longrightarrow> n \<le> m)"
proof -
  obtain x xs where x: "ns = x # xs" using assms(2) by (cases ns) auto
  with assms(1) have "sorted xs" "\<forall>m \<in> set xs. x \<le> m" by simp_all
  note le = this(2)
  obtain n where n: "best_node score xs (Some (x, score x)) = Some (n, score n)" "n \<in> insert x (set xs)"
    "\<forall>m \<in> insert x (set xs). score m \<le> score n"
    "\<forall>m \<in> set xs. score m = score n \<longrightarrow> n = x \<or> n \<le> m" "score x = score n \<longrightarrow> n = x"
    using best_node_acc [OF \<open>sorted xs\<close>] by blast
  have "\<forall>m \<in> set ns. score m = score n \<longrightarrow> n \<le> m"
    using n(4,5) le unfolding x by (metis order_refl set_ConsD)
  then show ?thesis using n(1-3) by (intro exI [of _ n]) (simp add: x)
qed

text \<open>What an answer of the planner promises about the host.\<close>

lemma plan_regular:
  assumes "plan_memory_backing stats hp gb m pr ph = Some REGULAR"
  shows "((case hp of None \<Rightarrow> True | Some h \<Rightarrow> \<not> hp_mounted h) \<and> gb * GIB_KB = 0)
     \<or> (case stats of None \<Rightarrow> True | Some ms \<Rightarrow> ms_available ms = None)
     \<or> (\<exists>ms a. stats = Some ms \<and> ms_available ms = Some a \<and> m \<le> a - pr - gb * GIB_KB)"
  using assms
  by (auto simp: plan_memory_backing_def regular_room_kb_def Let_def or0_def no_stats_def
      split: if_splits option.splits prod.splits)

lemma pick_le_free:
  assumes "pick_hugepage_size m info free \<noteq> None" "0 \<le> hp_total_1G info" "0 \<le> hp_total_2M info"
  shows "m \<le> free"
proof -
  obtain page where "pick_hugepage_size m info free = Some page" using assms(1) by auto
  then obtain label kb where f: "fits_page m info free (page, label, kb)"
    by (auto simp: pick_hugepage_size_def pick_size_find find_Some_iff) (metis)
  then show ?thesis
    using assms(2,3) by (cases page) (auto simp: fits_page_def pool_kb_eq)
qed

lemma plan_hugepages:
  assumes "plan_memory_backing stats hp gb m pr ph = Some HUGEPAGES"
    and "\<And>h. hp = Some h \<Longrightarrow> 0 \<le> hp_total_1G h \<and> 0 \<le> hp_total_2M h"
  shows "\<exists>ms h. stats = Some ms \<and> hp = Some h \<and> hp_mounted h \<and> m \<le> or0 (ms_hugepages_free_kb ms) - ph"
proof -
  obtain h where h: "hp = Some h" "hp_mounted h"
    using assms(1)
    by (auto simp: plan_memory_backing_def Let_def split: if_splits option.splits prod.splits)
  obtain ms where ms: "stats = Some ms" and p: "pick_hugepage_size m h (or0 (ms_hugepages_free_kb ms) - ph) \<noteq> None"
    using assms(1) h
    by (auto simp: plan_memory_backing_def Let_def no_stats_def split: if_splits option.splits prod.splits)
  show ?thesis using pick_le_free [OF p] assms(2) h ms by blast
qed

section \<open>Properties\<close>

text \<open>C27: A picked hugepage size really has the room. The free figure a host reports sums the free pages of
  all sizes; however that sum is split between the two pools, the picked size alone has enough
  free pages for the desktop, its memory is a multiple of the page size, the size is mounted, and
  1 GiB pages are passed over only when they cannot serve it.\<close>

theorem hugepage_pick_sound:
  assumes "pick_hugepage_size m info free = Some page" "free = f1 + f2"
    and "f1 \<le> hp_total_1G info * 1048576" "f2 \<le> hp_total_2M info * 2048"
  shows "case page of
     Page1G \<Rightarrow> m \<le> f1 \<and> 1048576 dvd m \<and> (hp_mount_sizes info = None \<or> ''1G'' \<in> set (the (hp_mount_sizes info)))
   | Page2M \<Rightarrow> m \<le> f2 \<and> 2048 dvd m \<and> (hp_mount_sizes info = None \<or> ''2M'' \<in> set (the (hp_mount_sizes info)))
       \<and> \<not> fits_page m info free (Page1G, ''1G'', 1048576)"
proof -
  have p: "fits_page m info free (Page1G, ''1G'', 1048576) \<and> page = Page1G
     \<or> \<not> fits_page m info free (Page1G, ''1G'', 1048576) \<and> fits_page m info free (Page2M, ''2M'', 2048) \<and> page = Page2M"
    using assms(1) by (auto simp: pick_hugepage_size_def pick_size_find HUGEPAGE_SIZES_def split: if_splits)
  have "hp_mount_sizes info = None \<or> l \<in> set (the (hp_mount_sizes info))"
    if "case hp_mount_sizes info of None \<Rightarrow> True | Some us \<Rightarrow> l \<in> set us" for l
    using that by (cases "hp_mount_sizes info") auto
  then show ?thesis
    using p assms(2-4) by (auto simp: fits_page_def pool_kb_eq dvd_eq_mod_eq_0)
qed

theorem hugepage_pick_sound_witness:
  "let info = \<lparr>hp_mounted = True, hp_mount_sizes = None, hp_total_1G = 4, hp_total_2M = 512\<rparr>
   in pick_hugepage_size 2097152 info 3145728 = Some Page1G \<and> 2097152 \<le> (2097152 :: int) \<and> 1048576 dvd (2097152 :: int)"
proof -
  let ?info = "\<lparr>hp_mounted = True, hp_mount_sizes = None, hp_total_1G = 4, hp_total_2M = 512\<rparr>"
  have p: "pick_hugepage_size 2097152 ?info 3145728 = Some Page1G" by code_simp
  from hugepage_pick_sound [OF p, of 2097152 1048576] show ?thesis unfolding Let_def using p by simp
qed

text \<open>The NUMA choice is the best node. With at least two nodes a node of the host is returned whose
  limiting headroom is the maximum over all nodes, and it is the lowest node id among the best;
  with fewer nodes nothing is chosen.\<close>

theorem numa_choice_is_best:
  "case select_balanced_numa_node nodes free mem vcpus pending of
     None \<Rightarrow> length nodes < 2
   | Some n \<Rightarrow> 2 \<le> length nodes \<and> n \<in> fst ` set nodes
       \<and> (\<forall>m \<in> fst ` set nodes. numa_score nodes free mem vcpus pending m \<le> numa_score nodes free mem vcpus pending n)
       \<and> (\<forall>m \<in> fst ` set nodes. numa_score nodes free mem vcpus pending m = numa_score nodes free mem vcpus pending n
            \<longrightarrow> n \<le> m)"
proof (cases "length nodes < 2")
  case True
  then show ?thesis by (simp add: select_balanced_numa_node_def)
next
  case False
  then have "nodes \<noteq> []" by auto
  then have "sort (map fst nodes) \<noteq> []" by (metis map_is_Nil_conv set_empty set_sort)
  from best_node_max [OF sorted_sort this, of "numa_score nodes free mem vcpus pending"] obtain n where
    "best_node (numa_score nodes free mem vcpus pending) (sort (map fst nodes)) None
       = Some (n, numa_score nodes free mem vcpus pending n)"
    and "n \<in> fst ` set nodes" "\<forall>m \<in> fst ` set nodes. numa_score nodes free mem vcpus pending m \<le> numa_score nodes free mem vcpus pending n"
    "\<forall>m \<in> fst ` set nodes. numa_score nodes free mem vcpus pending m = numa_score nodes free mem vcpus pending n \<longrightarrow> n \<le> m"
    by auto
  then show ?thesis using False by (simp add: select_balanced_numa_node_def)
qed

theorem numa_choice_is_best_witness:
  "select_balanced_numa_node [(''0'', ''0-3''), (''1'', ''4-7'')] [(''0'', 100), (''1'', 100)] 10 1 [(''0'', 20, 1)] = Some ''1''
   \<and> numa_score [(''0'', ''0-3''), (''1'', ''4-7'')] [(''0'', 100), (''1'', 100)] 10 1 [(''0'', 20, 1)] ''0''
     \<le> numa_score [(''0'', ''0-3''), (''1'', ''4-7'')] [(''0'', 100), (''1'', 100)] 10 1 [(''0'', 20, 1)] ''1''"
proof -
  have s: "select_balanced_numa_node [(''0'', ''0-3''), (''1'', ''4-7'')] [(''0'', 100), (''1'', 100)] 10 1 [(''0'', 20, 1)] = Some ''1''"
    by code_simp
  show ?thesis
    using s numa_choice_is_best [of "[(''0'', ''0-3''), (''1'', ''4-7'')]" "[(''0'', 100), (''1'', 100)]" 10 1 "[(''0'', 20, 1)]"]
    by simp
qed

end
