(* ===== verification/Hypervisor_Filter.thy ===== *)
theory Hypervisor_Filter
  imports Memory_Placement
begin

text \<open>
  Which hypervisors may run a desktop: \<open>get_hypers_online\<close> and the filters it applies, of the
  engine's \<open>services/db/hypervisors.py\<close>. A row of the \<open>hypervisors\<close> table is a record; a missing
  list field is \<open>None\<close>. The table is an argument, and the rows written back (\<open>gpu_only\<close>) are
  returned as a list of (id, value).
\<close>

section \<open>Rows\<close>

text \<open>The card picked for a GPU desktop on a host, as \<open>get_hypers_gpu_online\<close> attaches it.\<close>

record gpu_selected =
  gs_next_available_uid :: string
  gs_next_gpu_id :: string
  gs_gpu_profile :: string
  gs_pci_bus_id :: "string option"
  gs_gpu_numa_node :: "int option"
  gs_mig :: bool
  gs_framework :: "string option"
  gs_vf_bdf :: "string option"
  gs_companion_pci_bdfs :: "string list option"
  gs_hugepages_info :: "hugepages_info option"
  gs_hugepages_free_kb :: "int option"
  gs_numa_hugepages_free_kb :: "(string \<times> int) list"
  gs_numa_nodes :: "(string \<times> string) list"

record hyper =
  h_id :: string
  h_status :: string
  h_cap_hypervisor :: bool
  h_hypervisors_pools :: "string list"
  h_only_forced :: bool
  h_gpu_only :: bool
  h_storage_pools :: "string list option"
  h_enabled_storage_pools :: "string list option"
  h_virt_pools :: "string list option"
  h_enabled_virt_pools :: "string list option"
  h_mem_stats :: "mem_stats option"
  h_cpu_idle :: "rat option"
  h_min_free_mem_gb :: int
  h_min_free_gpu_mem_gb :: int
  h_hugepages_info :: "hugepages_info option"
  h_numa_nodes :: "(string \<times> string) list"
  h_numa_hugepages_free_kb :: "(string \<times> int) list"
  h_libvirt_warning :: bool
  h_degraded :: bool
  h_gpu_selected :: "gpu_selected option"

definition stats_of :: "hyper \<Rightarrow> mem_stats" where
  "stats_of h = (case h_mem_stats h of None \<Rightarrow> no_stats | Some ms \<Rightarrow> ms)"

definition get_hyper_free_ram_kb :: "hyper \<Rightarrow> int" where
  "get_hyper_free_ram_kb h = hyper_free_ram_kb (stats_of h)"

section \<open>Filters\<close>

definition filter_degraded_hypers :: "hyper list \<Rightarrow> hyper list" where
  "filter_degraded_hypers hypers_online = filter (\<lambda>h. \<not> h_degraded h) hypers_online"

definition filter_outofmem_hypers :: "hyper list \<Rightarrow> hyper list" where
  "filter_outofmem_hypers hypers_online =
     filter (\<lambda>h. get_hyper_free_ram_kb h \<ge> h_min_free_mem_gb h * 1048576) hypers_online"

definition filter_warned_hypers :: "hyper list \<Rightarrow> hyper list" where
  "filter_warned_hypers hypers_online =
     (let healthy = filter (\<lambda>h. \<not> h_libvirt_warning h) hypers_online;
          warned = filter h_libvirt_warning hypers_online
      in if hypers_online = [] then []
         else if healthy \<noteq> [] then healthy
         else if warned \<noteq> [] then warned
         else hypers_online)"

definition has_gpu_room :: "hyper \<Rightarrow> bool" where
  "has_gpu_room h \<longleftrightarrow> get_hyper_free_ram_kb h > h_min_free_gpu_mem_gb h * 1048576 + h_min_free_mem_gb h * 1048576"

fun gpumem_loop :: "hyper list \<Rightarrow> hyper list \<times> (string \<times> bool) list" where
  "gpumem_loop [] = ([], [])"
| "gpumem_loop (h # hs) =
     (let (kept, writes) = gpumem_loop hs
      in if h_min_free_gpu_mem_gb h = 0 then (h # kept, writes)
         else if has_gpu_room h
         then (h # kept, if h_gpu_only h then (h_id h, False) # writes else writes)
         else (kept, if \<not> h_gpu_only h then (h_id h, True) # writes else writes))"

definition filter_outofGPUmem_hypers :: "hyper list \<Rightarrow> hyper list \<times> (string \<times> bool) list" where
  "filter_outofGPUmem_hypers hypers_online =
     (case hypers_online of
        [h] \<Rightarrow> (hypers_online,
                if h_min_free_gpu_mem_gb h \<noteq> 0 \<and> h_gpu_only h then [(h_id h, False)] else [])
      | _ \<Rightarrow> gpumem_loop hypers_online)"

definition exclude_gpu_hypers :: "hyper list \<Rightarrow> hyper list" where
  "exclude_gpu_hypers hypers_online =
     filter (\<lambda>h. h_min_free_gpu_mem_gb h = 0 \<and> \<not> h_gpu_only h) hypers_online
     @ filter (\<lambda>h. h_min_free_gpu_mem_gb h \<noteq> 0) hypers_online"

definition filter_available_hypers ::
  "hyper list \<Rightarrow> string list \<Rightarrow> string list \<Rightarrow> bool \<Rightarrow> bool \<Rightarrow> hyper list \<times> (string \<times> bool) list" where
  "filter_available_hypers hypers_online forced_hyp favourite_hyp exclude_gpu exclude_outofmem =
     (let online1 = filter_degraded_hypers hypers_online;
          online2 = (if exclude_outofmem then filter_outofmem_hypers online1 else online1);
          online3 = (if exclude_gpu then exclude_gpu_hypers online2 else online2)
      in if forced_hyp \<noteq> [] then (filter (\<lambda>h. h_id h \<in> set forced_hyp) online3, [])
         else (let (online4, writes) = filter_outofGPUmem_hypers online3;
                   online5 = filter (\<lambda>h. \<not> h_only_forced h) online4;
                   favourite_hyp_found = filter (\<lambda>h. h_id h \<in> set favourite_hyp) online5
               in if favourite_hyp \<noteq> [] \<and> favourite_hyp_found \<noteq> []
                  then (favourite_hyp_found, writes)
                  else (filter_warned_hypers online5, writes)))"

text \<open>
  The storage pool test of a row. The fallback of \<open>hyp.get("enabled_virt_pools", \<dots>)\<close> is the value of
  \<open>pools and (storage_pool_id in enabled_storage_pools)\<close>: an empty list when \<open>pools\<close> is empty, a
  Boolean otherwise, and the membership test then raises a TypeError.
\<close>

definition get_list :: "string list option \<Rightarrow> string list \<Rightarrow> string list" where
  "get_list field d = (case field of None \<Rightarrow> d | Some xs \<Rightarrow> xs)"

definition serves_pool :: "string \<Rightarrow> hyper \<Rightarrow> bool res" where
  "serves_pool storage_pool_id h =
     (case h_enabled_virt_pools h of
        Some pools \<Rightarrow> Inr (storage_pool_id \<in> set pools)
      | None \<Rightarrow> if get_list (h_virt_pools h) (get_list (h_storage_pools h) []) = [] then Inr False
                else Inl (TypeError ''argument of type bool is not iterable''))"

fun filter_res :: "('a \<Rightarrow> bool res) \<Rightarrow> 'a list \<Rightarrow> 'a list res" where
  "filter_res p [] = Inr []"
| "filter_res p (x # xs) =
     (case p x of
        Inl e \<Rightarrow> Inl e
      | Inr b \<Rightarrow> (case filter_res p xs of Inl e \<Rightarrow> Inl e | Inr ys \<Rightarrow> Inr (if b then x # ys else ys)))"

definition online_row :: "string \<Rightarrow> hyper \<Rightarrow> bool" where
  "online_row id_pool h \<longleftrightarrow> h_status h = ''Online'' \<and> h_cap_hypervisor h \<and> id_pool \<in> set (h_hypervisors_pools h)"

definition get_hypers_online ::
  "hyper list \<Rightarrow> string \<Rightarrow> string list \<Rightarrow> string list \<Rightarrow> string \<Rightarrow> (hyper list \<times> (string \<times> bool) list) res" where
  "get_hypers_online rows id_pool forced_hyp favourite_hyp storage_pool_id =
     (let online = filter (\<lambda>h. \<not> h_gpu_only h) (filter (online_row id_pool) rows)
      in case filter_res (serves_pool storage_pool_id) online of
           Inl e \<Rightarrow> Inl e
         | Inr served \<Rightarrow> Inr (filter_available_hypers served forced_hyp favourite_hyp True True))"

section \<open>Lemmas\<close>

lemma filter_res_Inr:
  "filter_res p xs = Inr ys \<Longrightarrow> ys = filter (\<lambda>x. p x = Inr True) xs"
proof (induction xs arbitrary: ys)
  case (Cons x xs)
  then show ?case by (cases "p x"; cases "filter_res p xs") auto
qed simp

lemma gpumem_loop_kept:
  "fst (gpumem_loop hs) = filter (\<lambda>h. h_min_free_gpu_mem_gb h = 0 \<or> has_gpu_room h) hs"
  by (induction hs) (auto simp: Let_def split: prod.splits)

declare gpumem_loop.simps [simp del]

lemma outofGPUmem_kept:
  "fst (filter_outofGPUmem_hypers hs) =
     (if length hs = 1 then hs else filter (\<lambda>h. h_min_free_gpu_mem_gb h = 0 \<or> has_gpu_room h) hs)"
proof (cases hs)
  case (Cons h t)
  then show ?thesis by (cases t) (simp_all add: filter_outofGPUmem_hypers_def gpumem_loop_kept)
qed (simp add: filter_outofGPUmem_hypers_def gpumem_loop_kept)

lemma outofGPUmem_subset: "set (fst (filter_outofGPUmem_hypers hs)) \<subseteq> set hs"
  by (simp add: outofGPUmem_kept)

lemma outofGPUmem_keeps:
  "h \<in> set hs \<Longrightarrow> h_min_free_gpu_mem_gb h = 0 \<Longrightarrow> h \<in> set (fst (filter_outofGPUmem_hypers hs))"
  by (simp add: outofGPUmem_kept)

lemma warned_subset: "set (filter_warned_hypers hs) \<subseteq> set hs"
  by (auto simp: filter_warned_hypers_def Let_def)

lemma warned_nonempty: "filter_warned_hypers hs = [] \<longleftrightarrow> hs = []"
  by (auto simp: filter_warned_hypers_def Let_def)

lemma warned_prefers_healthy:
  "h \<in> set (filter_warned_hypers hs) \<Longrightarrow> h_libvirt_warning h \<Longrightarrow> g \<in> set hs \<Longrightarrow> h_libvirt_warning g"
  by (auto simp: filter_warned_hypers_def Let_def filter_empty_conv split: if_splits)

definition base_hypers :: "hyper list \<Rightarrow> hyper list" where
  "base_hypers hs = exclude_gpu_hypers (filter_outofmem_hypers (filter_degraded_hypers hs))"

definition unforced_hypers :: "hyper list \<Rightarrow> hyper list" where
  "unforced_hypers hs = filter (\<lambda>h. \<not> h_only_forced h) (fst (filter_outofGPUmem_hypers (base_hypers hs)))"

lemma available_fst:
  "fst (filter_available_hypers hs forced fav True True) =
     (if forced \<noteq> [] then filter (\<lambda>h. h_id h \<in> set forced) (base_hypers hs)
      else if fav \<noteq> [] \<and> filter (\<lambda>h. h_id h \<in> set fav) (unforced_hypers hs) \<noteq> []
      then filter (\<lambda>h. h_id h \<in> set fav) (unforced_hypers hs)
      else filter_warned_hypers (unforced_hypers hs))"
  by (simp add: filter_available_hypers_def base_hypers_def unforced_hypers_def Let_def split: prod.split)

lemma base_hypers_sound:
  "h \<in> set (base_hypers hs) \<Longrightarrow>
     h \<in> set hs \<and> \<not> h_degraded h \<and> get_hyper_free_ram_kb h \<ge> h_min_free_mem_gb h * 1048576"
  by (auto simp: base_hypers_def exclude_gpu_hypers_def filter_outofmem_hypers_def filter_degraded_hypers_def)

lemma unforced_hypers_sound: "h \<in> set (unforced_hypers hs) \<Longrightarrow> h \<in> set (base_hypers hs) \<and> \<not> h_only_forced h"
  using outofGPUmem_subset by (auto simp: unforced_hypers_def)

lemma available_subset:
  assumes "h \<in> set (fst (filter_available_hypers hs forced fav True True))"
  shows "h \<in> set hs \<and> \<not> h_degraded h \<and> get_hyper_free_ram_kb h \<ge> h_min_free_mem_gb h * 1048576
     \<and> (if forced \<noteq> [] then h_id h \<in> set forced else \<not> h_only_forced h)"
proof -
  have "if forced \<noteq> [] then h \<in> set (base_hypers hs) \<and> h_id h \<in> set forced else h \<in> set (unforced_hypers hs)"
    using assms warned_subset [of "unforced_hypers hs"] by (auto simp: available_fst split: if_splits)
  then show ?thesis using base_hypers_sound unforced_hypers_sound by (metis)
qed

lemma get_hypers_online_Inr:
  assumes "get_hypers_online rows pool forced fav sp = Inr (hs, w)"
  shows "(hs, w) = filter_available_hypers
           (filter (\<lambda>h. serves_pool sp h = Inr True) (filter (\<lambda>h. \<not> h_gpu_only h) (filter (online_row pool) rows)))
           forced fav True True"
proof -
  obtain served where s: "filter_res (serves_pool sp) (filter (\<lambda>h. \<not> h_gpu_only h) (filter (online_row pool) rows)) = Inr served"
    and hs: "filter_available_hypers served forced fav True True = (hs, w)"
    using assms unfolding get_hypers_online_def Let_def by (auto split: sum.splits)
  show ?thesis using filter_res_Inr [OF s] hs by simp
qed

text \<open>A row without \<open>enabled_virt_pools\<close> but with storage pools makes the whole query raise, whatever
  its \<open>enabled_storage_pools\<close> say.\<close>

lemma missing_virt_pools_raises:
  assumes "h_enabled_virt_pools h = None" "h_virt_pools h = None" "h_storage_pools h = Some (p # ps)"
    and "online_row pool h" "\<not> h_gpu_only h"
  shows "\<exists>e. get_hypers_online [h] pool forced fav sp = Inl e"
  using assms by (simp add: get_hypers_online_def serves_pool_def get_list_def)

section \<open>Properties\<close>

text \<open>C28: Placement candidates are sound. Every host offered for a desktop is online, a hypervisor of the
  pool, not reserved to GPU desktops, enabled for the desktop's storage pool, not degraded, and
  keeps its memory reserve; a forced desktop is only offered the forced hosts, any other desktop
  never a host kept for forced ones; and a host with a libvirt warning is offered to a desktop
  without forced or favourite hosts only when every offered host has a warning.\<close>

theorem placement_candidates_sound:
  assumes "get_hypers_online rows pool forced fav sp = Inr (hs, w)" "h \<in> set hs"
  shows "h \<in> set rows \<and> h_status h = ''Online'' \<and> h_cap_hypervisor h \<and> pool \<in> set (h_hypervisors_pools h)
     \<and> \<not> h_gpu_only h \<and> sp \<in> set (the (h_enabled_virt_pools h)) \<and> \<not> h_degraded h
     \<and> h_min_free_mem_gb h * 1048576 \<le> get_hyper_free_ram_kb h
     \<and> (if forced \<noteq> [] then h_id h \<in> set forced else \<not> h_only_forced h)
     \<and> (forced = [] \<and> fav = [] \<and> h_libvirt_warning h \<longrightarrow> (\<forall>g \<in> set hs. h_libvirt_warning g))"
proof -
  let ?served = "filter (\<lambda>h. serves_pool sp h = Inr True) (filter (\<lambda>h. \<not> h_gpu_only h) (filter (online_row pool) rows))"
  have hs: "hs = fst (filter_available_hypers ?served forced fav True True)"
    using get_hypers_online_Inr [OF assms(1)] by (metis fst_conv)
  note sub = available_subset [OF assms(2) [unfolded hs]]
  have serve: "sp \<in> set (the (h_enabled_virt_pools h))"
    using sub by (auto simp: serves_pool_def split: option.splits if_splits)
  have warned: "\<forall>g \<in> set hs. h_libvirt_warning g" if "forced = []" "fav = []" "h_libvirt_warning h"
  proof -
    have "hs = filter_warned_hypers (unforced_hypers ?served)"
      using hs that by (simp add: available_fst)
    then show ?thesis using warned_prefers_healthy assms(2) that(3) warned_subset by blast
  qed
  show ?thesis using sub serve warned by (auto simp: online_row_def)
qed

definition sample_hyper :: "string \<Rightarrow> hyper" where
  "sample_hyper i = \<lparr>h_id = i, h_status = ''Online'', h_cap_hypervisor = True, h_hypervisors_pools = [''default''],
     h_only_forced = False, h_gpu_only = False, h_storage_pools = Some [''p''], h_enabled_storage_pools = Some [''p''],
     h_virt_pools = Some [''p''], h_enabled_virt_pools = Some [''p''],
     h_mem_stats = Some (no_stats\<lparr>ms_available := Some 8388608, ms_total := Some 16777216\<rparr>),
     h_cpu_idle = Some 50, h_min_free_mem_gb = 2, h_min_free_gpu_mem_gb = 0, h_hugepages_info = None,
     h_numa_nodes = [], h_numa_hugepages_free_kb = [], h_libvirt_warning = False, h_degraded = False,
     h_gpu_selected = None\<rparr>"

theorem placement_candidates_sound_witness:
  "get_hypers_online [sample_hyper ''h1''] ''default'' [] [] ''p'' = Inr ([sample_hyper ''h1''], [])
   \<and> h_min_free_mem_gb (sample_hyper ''h1'') * 1048576 \<le> get_hyper_free_ram_kb (sample_hyper ''h1'')"
proof -
  have r: "get_hypers_online [sample_hyper ''h1''] ''default'' [] [] ''p'' = Inr ([sample_hyper ''h1''], [])"
    by code_simp
  show ?thesis using r placement_candidates_sound [OF r] by simp
qed



end
