(* ===== verification/Balancer.thy ===== *)
theory Balancer
  imports Hypervisor_Filter Gpu_Profiles
begin

text \<open>
  The hypervisor balancer of the engine, \<open>models/balancers.py\<close>: the six placement strategies, the
  accounting of starts still in flight (\<open>_pending_ram\<close>, \<open>_pending_node\<close>) and the two placement
  routines. \<open>time.time()\<close> is one value \<open>now\<close> per call, \<open>random.random()\<close> is an argument \<open>u\<close>, and the
  names of the running worker threads are a predicate. The pending dictionaries are functions from
  host ids to entry lists: a missing key and an empty list read alike everywhere. The host lists
  are what \<open>get_hypers_online\<close> and \<open>get_hypers_gpu_online\<close> return.
\<close>

section \<open>Strategies\<close>

datatype strategy = Round_robin | Available_ram | Available_ram_percent | Less_cpu
  | Less_cpu_till_low_ram | Less_cpu_till_low_ram_percent

definition BALANCERS :: "(string \<times> strategy) list" where
  "BALANCERS = [(''round_robin'', Round_robin), (''available_ram'', Available_ram),
     (''available_ram_percent'', Available_ram_percent), (''less_cpu'', Less_cpu),
     (''less_cpu_till_low_ram'', Less_cpu_till_low_ram),
     (''less_cpu_till_low_ram_percent'', Less_cpu_till_low_ram_percent)]"

definition get_used_ram_percentage :: "hyper \<Rightarrow> rat" where
  "get_used_ram_percentage h =
     (let ms = stats_of h;
          total_ram = (case ms_total ms of None \<Rightarrow> 1 | Some t \<Rightarrow> t);
          used_ram = (case ms_used ms of None \<Rightarrow> total_ram - or0 (ms_available ms) | Some n \<Rightarrow> n)
      in if total_ram > 0 then of_int used_ram / of_int total_ram else 0)"

text \<open>\<open>sorted(\<dots>, reverse=True)\<close> keeps the order of equal keys, as sorting by the negated key does.\<close>

definition sort_hypervisors_ram_absolute :: "hyper list \<Rightarrow> hyper list" where
  "sort_hypervisors_ram_absolute hypers = sort_key (\<lambda>h. - get_hyper_free_ram_kb h) hypers"

definition sort_hypervisors_ram_percentage :: "hyper list \<Rightarrow> hyper list" where
  "sort_hypervisors_ram_percentage hypers = sort_key get_used_ram_percentage hypers"

definition sort_hypervisors_cpu_percentage :: "hyper list \<Rightarrow> hyper list" where
  "sort_hypervisors_cpu_percentage hypers =
     sort_key (\<lambda>h. - (case h_cpu_idle h of None \<Rightarrow> 0 | Some i \<Rightarrow> i)) hypers"

text \<open>
  \<open>random.choices\<close> with the weights \<open>n, n-1, \<dots>, 1\<close>: the index is the number of cumulative weights,
  the last one left out, that are at most \<open>u\<close> times their total.
\<close>

definition cum_weight :: "nat \<Rightarrow> nat \<Rightarrow> nat" where
  "cum_weight n k = sum_list (map (\<lambda>j. n - j) [0..<k])"

definition weighted_index :: "nat \<Rightarrow> rat \<Rightarrow> nat" where
  "weighted_index n u =
     length (filter (\<lambda>k. of_nat (cum_weight n k) \<le> u * of_nat (cum_weight n n)) [1..<n])"

definition weighted_select :: "rat \<Rightarrow> hyper list \<Rightarrow> hyper" where
  "weighted_select u sorted_hypers = sorted_hypers ! weighted_index (length sorted_hypers) u"

definition RAM_LIMIT :: rat where "RAM_LIMIT = 3/4"

definition round_robin_next :: "nat \<Rightarrow> nat \<Rightarrow> nat" where
  "round_robin_next index n = (if index + 1 \<ge> n then 0 else index + 1)"

definition cpu_till_low_ram :: "(hyper list \<Rightarrow> hyper list) \<Rightarrow> rat \<Rightarrow> hyper list \<Rightarrow> hyper" where
  "cpu_till_low_ram by_ram u hypers =
     (let eligible = filter (\<lambda>h. get_used_ram_percentage h \<le> RAM_LIMIT) (sort_hypervisors_cpu_percentage hypers)
      in if eligible \<noteq> [] then weighted_select u eligible else weighted_select u (by_ram hypers))"

text \<open>\<open>_balancer._balancer(hypers)\<close>, with the round robin index before and after.\<close>

definition run_strategy :: "strategy \<Rightarrow> nat \<Rightarrow> rat \<Rightarrow> hyper list \<Rightarrow> hyper \<times> nat" where
  "run_strategy st index u hypers =
     (case st of
        Round_robin \<Rightarrow> (let i = round_robin_next index (length hypers) in (hypers ! i, i))
      | Available_ram \<Rightarrow> (weighted_select u (sort_hypervisors_ram_absolute hypers), index)
      | Available_ram_percent \<Rightarrow> (weighted_select u (sort_hypervisors_ram_percentage hypers), index)
      | Less_cpu \<Rightarrow> (weighted_select u (sort_hypervisors_cpu_percentage hypers), index)
      | Less_cpu_till_low_ram \<Rightarrow> (cpu_till_low_ram sort_hypervisors_ram_absolute u hypers, index)
      | Less_cpu_till_low_ram_percent \<Rightarrow> (cpu_till_low_ram sort_hypervisors_ram_percentage u hypers, index))"

section \<open>Starts in flight\<close>

record pending_start =
  ps_ram_gb :: rat
  ps_time :: rat
  ps_domain :: "string option"
  ps_backing :: backing

record balancer =
  bl_id_pool :: string
  bl_strategy :: strategy
  bl_index :: nat
  bl_pending_ram :: "string \<Rightarrow> pending_start list"
  bl_pending_node :: "string \<Rightarrow> node_pending list"

text \<open>An unknown type ends the process (\<open>None\<close>).\<close>

definition init_balancer :: "string \<Rightarrow> string \<Rightarrow> balancer option" where
  "init_balancer id_pool balancer_type =
     (case map_of BALANCERS balancer_type of
        None \<Rightarrow> None
      | Some st \<Rightarrow> Some \<lparr>bl_id_pool = id_pool, bl_strategy = st, bl_index = 0,
                        bl_pending_ram = (\<lambda>_. []), bl_pending_node = (\<lambda>_. [])\<rparr>)"

definition PENDING_EXPIRY_SECONDS :: rat where "PENDING_EXPIRY_SECONDS = 30"

definition PENDING_TRACKED_EXPIRY_SECONDS :: rat where "PENDING_TRACKED_EXPIRY_SECONDS = 900"

definition record_pending ::
  "rat \<Rightarrow> string \<Rightarrow> rat \<Rightarrow> string option \<Rightarrow> backing \<Rightarrow> balancer \<Rightarrow> balancer" where
  "record_pending now hyp_id ram_gb domain_id backing b =
     (let entries = bl_pending_ram b hyp_id;
          others = (if truthy_str domain_id then filter (\<lambda>e. ps_domain e \<noteq> domain_id) entries else entries)
      in b\<lparr>bl_pending_ram := (bl_pending_ram b)(hyp_id := others @
             [\<lparr>ps_ram_gb = ram_gb, ps_time = now, ps_domain = domain_id, ps_backing = backing\<rparr>])\<rparr>)"

definition release_pending :: "string \<Rightarrow> string \<Rightarrow> balancer \<Rightarrow> balancer" where
  "release_pending hyp_id domain_id b =
     b\<lparr>bl_pending_ram := (bl_pending_ram b)(hyp_id :=
          filter (\<lambda>e. ps_domain e \<noteq> Some domain_id) (bl_pending_ram b hyp_id))\<rparr>"

definition release_pending_start :: "string \<Rightarrow> string \<Rightarrow> balancer list \<Rightarrow> balancer list" where
  "release_pending_start hyp_id domain_id balancers =
     (if domain_id = [] then balancers else map (release_pending hyp_id domain_id) balancers)"

definition pending_alive :: "rat \<Rightarrow> pending_start \<Rightarrow> bool" where
  "pending_alive now e \<longleftrightarrow>
     ps_time e > now - (if truthy_str (ps_domain e) then PENDING_TRACKED_EXPIRY_SECONDS else PENDING_EXPIRY_SECONDS)"

definition record_pending_node :: "rat \<Rightarrow> string \<Rightarrow> string \<Rightarrow> rat \<Rightarrow> int \<Rightarrow> balancer \<Rightarrow> balancer" where
  "record_pending_node now hyp_id node ram_gb vcpus b =
     b\<lparr>bl_pending_node := (bl_pending_node b)(hyp_id := bl_pending_node b hyp_id @ [(node, ram_gb, vcpus, now)])\<rparr>"

definition get_pending_by_node :: "rat \<Rightarrow> string \<Rightarrow> balancer \<Rightarrow> (string \<times> rat \<times> int) list" where
  "get_pending_by_node now hyp_id b =
     aggregate_pending_by_node (bl_pending_node b hyp_id) now PENDING_EXPIRY_SECONDS"

definition cleanup_expired :: "rat \<Rightarrow> balancer \<Rightarrow> balancer" where
  "cleanup_expired now b =
     b\<lparr>bl_pending_ram := (\<lambda>hyp_id. filter (pending_alive now) (bl_pending_ram b hyp_id)),
       bl_pending_node := (\<lambda>hyp_id. filter (\<lambda>(node, ram_gb, vcpus, t). t > now - PENDING_EXPIRY_SECONDS)
                                     (bl_pending_node b hyp_id))\<rparr>"

definition pending_sum :: "backing option \<Rightarrow> pending_start list \<Rightarrow> rat" where
  "pending_sum backing entries =
     sum_list (map ps_ram_gb (filter (\<lambda>e. backing = None \<or> Some (ps_backing e) = backing) entries))"

definition get_pending_ram_kb :: "string \<Rightarrow> backing option \<Rightarrow> balancer \<Rightarrow> int" where
  "get_pending_ram_kb hyp_id backing b =
     trunc_rat (pending_sum backing (bl_pending_ram b hyp_id) * of_int GIB_KB)"

definition plan_backing :: "balancer \<Rightarrow> rat \<Rightarrow> hyper \<Rightarrow> backing option" where
  "plan_backing b domain_memory_gb h =
     plan_memory_backing (h_mem_stats h) (h_hugepages_info h) (h_min_free_mem_gb h)
       (trunc_rat (domain_memory_gb * of_int GIB_KB))
       (get_pending_ram_kb (h_id h) (Some REGULAR) b)
       (get_pending_ram_kb (h_id h) (Some HUGEPAGES) b)"

definition charge_pending :: "int \<Rightarrow> mem_stats \<Rightarrow> mem_stats" where
  "charge_pending pending_kb ms =
     ms\<lparr>ms_used := (case ms_used ms of None \<Rightarrow> None
          | Some used \<Rightarrow> Some (min (case ms_total ms of None \<Rightarrow> used + pending_kb | Some t \<Rightarrow> t) (used + pending_kb))),
        ms_available := (case ms_available ms of None \<Rightarrow> None
          | Some a \<Rightarrow> Some (max 0 (a - pending_kb)))\<rparr>"

definition adjust_for_pending :: "balancer \<Rightarrow> hyper \<Rightarrow> hyper" where
  "adjust_for_pending b h =
     (let pending_kb = get_pending_ram_kb (h_id h) None b
      in if pending_kb \<le> 0 then h
         else h\<lparr>h_mem_stats := map_option (charge_pending pending_kb) (h_mem_stats h)\<rparr>)"

section \<open>Placement\<close>

record virt_extra =
  ve_hugepages :: "hugepages_info option"
  ve_min_free_mem_gb :: "int option"
  ve_mem_available_kb :: "int option"
  ve_hugepages_free_kb :: "int option"
  ve_numa_nodes :: "(string \<times> string) list"
  ve_numa_hugepages_free_kb :: "(string \<times> int) list"
  ve_memory_backing :: "backing option"
  ve_selected_numa_node :: "string option"

record gpu_extra =
  ge_uid :: string
  ge_gpu_id :: string
  ge_model :: string
  ge_profile :: string
  ge_pci_bus_id :: "string option"
  ge_gpu_numa_node :: "int option"
  ge_mig :: bool
  ge_framework :: "string option"
  ge_vf_bdf :: "string option"
  ge_companion_pci_bdfs :: "string list"
  ge_hugepages :: "hugepages_info option"
  ge_hugepages_free_kb :: int
  ge_numa_hugepages_free_kb :: "(string \<times> int) list"
  ge_numa_nodes :: "(string \<times> string) list"

text \<open>The answer: \<open>(False, {})\<close>, \<open>(False, {"reason": \<dots>})\<close> with the hosts named in the reason, or a host
  with its extra information.\<close>

datatype placement =
    No_hypervisor
  | No_memory rat "string list"
  | Placed string virt_extra
  | Placed_gpu string gpu_extra

definition mounted :: "hugepages_info option \<Rightarrow> bool" where
  "mounted info = (case info of None \<Rightarrow> False | Some h \<Rightarrow> hp_mounted h)"

definition build_hugepages_extra :: "hyper \<Rightarrow> int \<Rightarrow> int \<Rightarrow> virt_extra" where
  "build_hugepages_extra h pending_regular_kb pending_hugepages_kb =
     (let ms = stats_of h;
          common = \<lparr>ve_hugepages = None, ve_min_free_mem_gb = None, ve_mem_available_kb = None,
                    ve_hugepages_free_kb = None, ve_numa_nodes = h_numa_nodes h,
                    ve_numa_hugepages_free_kb = h_numa_hugepages_free_kb h,
                    ve_memory_backing = None, ve_selected_numa_node = None\<rparr>
      in if \<not> mounted (h_hugepages_info h) then common
         else common\<lparr>ve_hugepages := h_hugepages_info h,
                     ve_min_free_mem_gb := Some (h_min_free_mem_gb h),
                     ve_mem_available_kb := Some (max 0 (or0 (ms_available ms) - pending_regular_kb)),
                     ve_hugepages_free_kb := Some (max 0 (or0 (ms_hugepages_free_kb ms) - pending_hugepages_kb))\<rparr>)"

definition parse_extra_gpu_info :: "gpu_selected \<Rightarrow> gpu_extra res" where
  "parse_extra_gpu_info g =
     (let parts = split_max 2 (CHR ''-'') (gs_gpu_profile g)
      in if length parts < 2 then Inl IndexError
         else Inr \<lparr>ge_uid = gs_next_available_uid g, ge_gpu_id = gs_next_gpu_id g, ge_model = parts ! 1,
                ge_profile = (if length parts > 2 then profile_suffix_from_id (gs_gpu_profile g) else []),
                ge_pci_bus_id = gs_pci_bus_id g, ge_gpu_numa_node = gs_gpu_numa_node g, ge_mig = gs_mig g,
                ge_framework = gs_framework g, ge_vf_bdf = gs_vf_bdf g,
                ge_companion_pci_bdfs = get_list (gs_companion_pci_bdfs g) [],
                ge_hugepages = gs_hugepages_info g, ge_hugepages_free_kb = or0 (gs_hugepages_free_kb g),
                ge_numa_hugepages_free_kb = gs_numa_hugepages_free_kb g, ge_numa_nodes = gs_numa_nodes g\<rparr>)"

definition gpu_backing :: "gpu_extra \<Rightarrow> backing" where
  "gpu_backing e = (if mounted (ge_hugepages e) then HUGEPAGES else REGULAR)"

definition get_pools_threads_running :: "(string \<Rightarrow> bool) \<Rightarrow> hyper list \<Rightarrow> hyper list" where
  "get_pools_threads_running running hypervisors = filter (\<lambda>h. running (''worker_'' @ h_id h)) hypervisors"

definition vcpus_or_1 :: "int \<Rightarrow> int" where
  "vcpus_or_1 v = (if v = 0 then 1 else v)"

definition record_gpu_node_pending :: "rat \<Rightarrow> string \<Rightarrow> gpu_extra \<Rightarrow> rat \<Rightarrow> int \<Rightarrow> balancer \<Rightarrow> balancer" where
  "record_gpu_node_pending now hyp_id gpu_extra domain_memory_gb domain_vcpus b =
     (case ge_gpu_numa_node gpu_extra of
        None \<Rightarrow> b
      | Some nn \<Rightarrow> if nn \<ge> 0
                    then record_pending_node now hyp_id (str_nat (nat nn)) domain_memory_gb (vcpus_or_1 domain_vcpus) b
                    else b)"

definition attach_balanced_node ::
  "rat \<Rightarrow> string \<Rightarrow> hyper \<Rightarrow> virt_extra \<Rightarrow> rat \<Rightarrow> int \<Rightarrow> balancer \<Rightarrow> virt_extra \<times> balancer" where
  "attach_balanced_node now hyp_id h extra domain_memory_gb domain_vcpus b =
     (let vcpus = vcpus_or_1 domain_vcpus
      in case select_balanced_numa_node (h_numa_nodes h) (h_numa_hugepages_free_kb h)
                (trunc_rat (domain_memory_gb * 1048576)) vcpus (get_pending_by_node now hyp_id b) of
           None \<Rightarrow> (extra, b)
         | Some node \<Rightarrow> (extra\<lparr>ve_selected_numa_node := Some node\<rparr>,
                         record_pending_node now hyp_id node domain_memory_gb vcpus b))"

text \<open>The host for a desktop without GPU: with one host left it is that one and the strategy is not
  asked.\<close>

definition choose_host :: "balancer \<Rightarrow> rat \<Rightarrow> hyper list \<Rightarrow> string \<times> nat" where
  "choose_host b u with_room =
     (case with_room of
        [h] \<Rightarrow> (h_id h, bl_index b)
      | _ \<Rightarrow> (let (sel, i) = run_strategy (bl_strategy b) (bl_index b) u (map (adjust_for_pending b) with_room)
               in (h_id sel, i)))"

definition hyper_by_id :: "string \<Rightarrow> hyper list \<Rightarrow> hyper" where
  "hyper_by_id i hs = hd (filter (\<lambda>h. h_id h = i) hs)"

definition get_next_capabilities_virt ::
  "(string \<Rightarrow> bool) \<Rightarrow> rat \<Rightarrow> rat \<Rightarrow> hyper list \<Rightarrow> rat \<Rightarrow> int \<Rightarrow> string option \<Rightarrow> balancer \<Rightarrow> placement \<times> balancer" where
  "get_next_capabilities_virt running now u hypers domain_memory_gb domain_vcpus domain_id b0 =
     (let hypers_w_threads = get_pools_threads_running running hypers
      in if hypers_w_threads = [] then (No_hypervisor, b0)
         else (let b1 = cleanup_expired now b0;
                   with_room = filter (\<lambda>h. plan_backing b1 domain_memory_gb h \<noteq> None) hypers_w_threads
               in if with_room = []
                  then (No_memory domain_memory_gb (sort (map h_id hypers_w_threads)), b1)
                  else (let (hyper_selected, index) = choose_host b1 u with_room;
                            b2 = b1\<lparr>bl_index := index\<rparr>;
                            selected_hyper = hyper_by_id hyper_selected with_room;
                            backing = the (plan_backing b1 domain_memory_gb selected_hyper);
                            extra = (build_hugepages_extra selected_hyper
                                       (get_pending_ram_kb hyper_selected (Some REGULAR) b1)
                                       (get_pending_ram_kb hyper_selected (Some HUGEPAGES) b1))
                                     \<lparr>ve_memory_backing := Some backing\<rparr>;
                            b3 = record_pending now hyper_selected domain_memory_gb domain_id backing b2;
                            (extra', b4) = attach_balanced_node now hyper_selected selected_hyper extra
                                             domain_memory_gb domain_vcpus b3
                        in (Placed hyper_selected extra', b4))))"

definition place_gpu ::
  "rat \<Rightarrow> hyper \<Rightarrow> rat \<Rightarrow> int \<Rightarrow> string option \<Rightarrow> balancer \<Rightarrow> placement res \<times> balancer" where
  "place_gpu now h domain_memory_gb domain_vcpus domain_id b =
     (case h_gpu_selected h of
        None \<Rightarrow> (Inl (KeyError ''gpu_selected''), b)
      | Some g \<Rightarrow>
          (case parse_extra_gpu_info g of
             Inl e \<Rightarrow> (Inl e, b)
           | Inr gpu_extra \<Rightarrow>
               (Inr (Placed_gpu (h_id h) gpu_extra),
                record_gpu_node_pending now (h_id h) gpu_extra domain_memory_gb domain_vcpus
                  (record_pending now (h_id h) domain_memory_gb domain_id (gpu_backing gpu_extra) b))))"

definition get_next_capabilities_virt_gpus ::
  "(string \<Rightarrow> bool) \<Rightarrow> rat \<Rightarrow> rat \<Rightarrow> hyper list \<Rightarrow> rat \<Rightarrow> int \<Rightarrow> string option \<Rightarrow> balancer \<Rightarrow> placement res \<times> balancer" where
  "get_next_capabilities_virt_gpus running now u gpu_hypervisors_online domain_memory_gb domain_vcpus domain_id b =
     (case get_pools_threads_running running gpu_hypervisors_online of
        [] \<Rightarrow> (Inr No_hypervisor, b)
      | [h] \<Rightarrow> place_gpu now h domain_memory_gb domain_vcpus domain_id b
      | hs \<Rightarrow> (let b1 = cleanup_expired now b;
                    (sel, index) = run_strategy (bl_strategy b1) (bl_index b1) u (map (adjust_for_pending b1) hs)
                in place_gpu now (hyper_by_id (h_id sel) hs) domain_memory_gb domain_vcpus domain_id
                     (b1\<lparr>bl_index := index\<rparr>)))"

record start_request =
  sr_forced_hyp :: "string list"
  sr_favourite_hyp :: "string list"
  sr_vgpus :: "string list"
  sr_force_gpus :: "string list"
  sr_storage_pool_id :: "string option"
  sr_domain_memory_gb :: rat
  sr_domain_vcpus :: int
  sr_domain_id :: "string option"

text \<open>\<open>rows\<close> is the hypervisors table, \<open>gpu_online\<close> the GPU host query and \<open>hyp_of_vgpu\<close> the lookup of a
  card's host.\<close>

definition get_next_hypervisor ::
  "hyper list \<Rightarrow> (start_request \<Rightarrow> string \<Rightarrow> string list option \<Rightarrow> hyper list) \<Rightarrow> (string \<Rightarrow> string)
   \<Rightarrow> (string \<Rightarrow> bool) \<Rightarrow> rat \<Rightarrow> rat \<Rightarrow> start_request \<Rightarrow> balancer \<Rightarrow> placement res \<times> balancer" where
  "get_next_hypervisor rows gpu_online hyp_of_vgpu running now u rq b =
     (case sr_storage_pool_id rq of
        None \<Rightarrow> (Inr No_hypervisor, b)
      | Some sp \<Rightarrow>
          (case sr_vgpus rq of
             [] \<Rightarrow> (case get_hypers_online rows (bl_id_pool b) (sr_forced_hyp rq) (sr_favourite_hyp rq) sp of
                      Inl e \<Rightarrow> (Inl e, b)
                    | Inr (hypers, _) \<Rightarrow>
                        (let (r, b') = get_next_capabilities_virt running now u hypers (sr_domain_memory_gb rq)
                                         (sr_domain_vcpus rq) (sr_domain_id rq) b
                         in (Inr r, b')))
           | gpu_profile # _ \<Rightarrow>
               (let forced_gpus_hypervisors =
                      (if sr_force_gpus rq \<noteq> [] then Some (map hyp_of_vgpu (sr_force_gpus rq)) else None)
                in get_next_capabilities_virt_gpus running now u
                     (gpu_online rq gpu_profile forced_gpus_hypervisors)
                     (sr_domain_memory_gb rq) (sr_domain_vcpus rq) (sr_domain_id rq) b)))"

section \<open>The strategy interface\<close>

text \<open>
  What the placement routines need of a strategy and of the adjusted host list: a strategy asked
  with hosts answers one of them, and adjusting a host keeps its id.
\<close>

locale placement_strategy =
  fixes pick :: "nat \<Rightarrow> rat \<Rightarrow> 'h list \<Rightarrow> 'h \<times> nat"
    and adjust :: "'h \<Rightarrow> 'h"
    and ident :: "'h \<Rightarrow> 'k"
  assumes pick_mem: "hs \<noteq> [] \<Longrightarrow> fst (pick i u hs) \<in> set hs"
    and adjust_ident: "ident (adjust h) = ident h"
begin

lemma pick_ident: "hs \<noteq> [] \<Longrightarrow> ident (fst (pick i u (map adjust hs))) \<in> ident ` set hs"
  using pick_mem [of "map adjust hs" i u] by (auto simp: adjust_ident)

lemma pick_original:
  assumes "hs \<noteq> []"
  shows "\<exists>h \<in> set hs. ident h = ident (fst (pick i u (map adjust hs)))"
  using pick_ident [OF assms] by (metis imageE)

end

lemma weighted_index_less: "0 < n \<Longrightarrow> weighted_index n u < n"
  using length_filter_le [of "\<lambda>k. of_nat (cum_weight n k) \<le> u * of_nat (cum_weight n n)" "[1..<n]"]
  by (simp add: weighted_index_def)

lemma weighted_select_mem: "hs \<noteq> [] \<Longrightarrow> weighted_select u hs \<in> set hs"
  by (simp add: weighted_select_def weighted_index_less)

lemma sorts_mem [simp]:
  "set (sort_hypervisors_ram_absolute hs) = set hs" "set (sort_hypervisors_ram_percentage hs) = set hs"
  "set (sort_hypervisors_cpu_percentage hs) = set hs"
  "sort_hypervisors_ram_absolute hs = [] \<longleftrightarrow> hs = []" "sort_hypervisors_ram_percentage hs = [] \<longleftrightarrow> hs = []"
  "sort_hypervisors_cpu_percentage hs = [] \<longleftrightarrow> hs = []"
  by (simp_all add: sort_hypervisors_ram_absolute_def sort_hypervisors_ram_percentage_def
      sort_hypervisors_cpu_percentage_def flip: set_empty)

lemma cpu_till_low_ram_mem:
  assumes "hs \<noteq> []" "set (by_ram hs) = set hs"
  shows "cpu_till_low_ram by_ram u hs \<in> set hs"
proof (cases "filter (\<lambda>h. get_used_ram_percentage h \<le> RAM_LIMIT) (sort_hypervisors_cpu_percentage hs) = []")
  case True
  have "by_ram hs \<noteq> []" using assms by (metis set_empty)
  then show ?thesis using True weighted_select_mem [of "by_ram hs" u] assms(2) by (simp add: cpu_till_low_ram_def)
next
  case False
  then show ?thesis using weighted_select_mem [OF False, of u] by (simp add: cpu_till_low_ram_def)
qed

lemma run_strategy_mem:
  assumes "hs \<noteq> []"
  shows "fst (run_strategy st i u hs) \<in> set hs"
proof (cases st)
  case Round_robin
  have "round_robin_next i (length hs) < length hs" using assms by (simp add: round_robin_next_def)
  then show ?thesis using Round_robin by (simp add: run_strategy_def Let_def)
next
  case Available_ram
  then show ?thesis using assms weighted_select_mem [of "sort_hypervisors_ram_absolute hs" u] by (simp add: run_strategy_def)
next
  case Available_ram_percent
  then show ?thesis using assms weighted_select_mem [of "sort_hypervisors_ram_percentage hs" u] by (simp add: run_strategy_def)
next
  case Less_cpu
  then show ?thesis using assms weighted_select_mem [of "sort_hypervisors_cpu_percentage hs" u] by (simp add: run_strategy_def)
next
  case Less_cpu_till_low_ram
  then show ?thesis using assms cpu_till_low_ram_mem [of hs sort_hypervisors_ram_absolute u] by (simp add: run_strategy_def)
next
  case Less_cpu_till_low_ram_percent
  then show ?thesis using assms cpu_till_low_ram_mem [of hs sort_hypervisors_ram_percentage u] by (simp add: run_strategy_def)
qed

lemma adjust_id [simp]: "h_id (adjust_for_pending b h) = h_id h"
  by (simp add: adjust_for_pending_def Let_def)

interpretation strat: placement_strategy "run_strategy st" "adjust_for_pending b" h_id for st b
  by unfold_locales (simp_all add: run_strategy_mem)

lemma hyper_by_id_mem:
  assumes "h \<in> set hs" "h_id h = i"
  shows "hyper_by_id i hs \<in> set hs" "h_id (hyper_by_id i hs) = i"
proof -
  have "filter (\<lambda>h. h_id h = i) hs \<noteq> []" using assms by (auto simp: filter_empty_conv)
  from hd_in_set [OF this] show "hyper_by_id i hs \<in> set hs" "h_id (hyper_by_id i hs) = i"
    by (simp_all add: hyper_by_id_def)
qed

lemma choose_host_mem:
  assumes "hs \<noteq> []"
  shows "\<exists>h \<in> set hs. h_id h = fst (choose_host b u hs)"
proof (cases "\<exists>h. hs = [h]")
  case True
  then show ?thesis by (auto simp: choose_host_def)
next
  case False
  then have "fst (choose_host b u hs)
      = h_id (fst (run_strategy (bl_strategy b) (bl_index b) u (map (adjust_for_pending b) hs)))"
    by (cases hs rule: list.exhaust [case_product list.exhaust])
      (auto simp: choose_host_def split: list.split prod.split)
  then show ?thesis using strat.pick_original [OF assms] by metis
qed

section \<open>What a placement does\<close>

lemma attach_pending: "bl_pending_ram (snd (attach_balanced_node now i h ex m v b)) = bl_pending_ram b"
  by (simp add: attach_balanced_node_def record_pending_node_def Let_def split: option.split)

lemma attach_backing: "ve_memory_backing (fst (attach_balanced_node now i h ex m v b)) = ve_memory_backing ex"
  by (simp add: attach_balanced_node_def Let_def split: option.split)

text \<open>Either nothing is placed and only expired entries are gone, or a running host whose plan is not
  empty is charged with the desktop under that backing.\<close>

lemma next_virt_cases:
  fixes running now u hs m v d b
  defines "r \<equiv> get_next_capabilities_virt running now u hs m v d b"
    and "live \<equiv> get_pools_threads_running running hs"
    and "b1 \<equiv> cleanup_expired now b"
  obtains (none) "live = []" "r = (No_hypervisor, b)"
  | (full) "live \<noteq> []" "\<forall>h \<in> set live. plan_backing b1 m h = None" "r = (No_memory m (sort (map h_id live)), b1)"
  | (placed) h bk ex where "h \<in> set live" "plan_backing b1 m h = Some bk" "fst r = Placed (h_id h) ex"
      "ve_memory_backing ex = Some bk"
      "bl_pending_ram (snd r) = bl_pending_ram (record_pending now (h_id h) m d bk b1)"
proof -
  let ?room = "filter (\<lambda>h. plan_backing b1 m h \<noteq> None) live"
  consider "live = []" | "live \<noteq> []" "?room = []" | "live \<noteq> []" "?room \<noteq> []" by blast
  then show thesis
  proof cases
    case 1
    then show thesis using none by (simp add: r_def get_next_capabilities_virt_def live_def)
  next
    case 2
    have "r = (No_memory m (sort (map h_id live)), b1)"
      using 2 unfolding r_def get_next_capabilities_virt_def live_def b1_def Let_def by simp
    then show thesis using full 2 by (simp add: filter_empty_conv)
  next
    case 3
    obtain i ix where c: "choose_host b1 u ?room = (i, ix)" by fastforce
    let ?h = "hyper_by_id i ?room"
    obtain h0 where "h0 \<in> set ?room" "h_id h0 = i" using choose_host_mem [OF 3(2), of b1 u] c by auto
    note h = hyper_by_id_mem [OF this]
    then obtain bk where bk: "plan_backing b1 m ?h = Some bk" by auto
    let ?ex = "(build_hugepages_extra ?h (get_pending_ram_kb i (Some REGULAR) b1) (get_pending_ram_kb i (Some HUGEPAGES) b1))
                 \<lparr>ve_memory_backing := Some bk\<rparr>"
    let ?b3 = "record_pending now i m d bk (b1\<lparr>bl_index := ix\<rparr>)"
    let ?a = "attach_balanced_node now i ?h ?ex m v ?b3"
    have r: "r = (Placed i (fst ?a), snd ?a)"
      using 3 c bk unfolding r_def get_next_capabilities_virt_def live_def [symmetric] b1_def [symmetric] Let_def
      by (simp add: case_prod_unfold)
    show thesis
      by (rule placed [of ?h bk "fst ?a"])
        (use h bk in \<open>simp_all add: r attach_pending attach_backing record_pending_def Let_def\<close>)
  qed
qed

section \<open>Accounting of starts in flight\<close>

definition start_kb :: "pending_start \<Rightarrow> int" where
  "start_kb e = trunc_rat (ps_ram_gb e * of_int GIB_KB)"

text \<open>A desktop's memory is a whole, nonnegative number of KiB.\<close>

definition whole_kb :: "rat \<Rightarrow> bool" where
  "whole_kb gb \<longleftrightarrow> 0 \<le> gb \<and> of_int (trunc_rat (gb * of_int GIB_KB)) = gb * of_int GIB_KB"

definition charged_kb :: "backing \<Rightarrow> pending_start list \<Rightarrow> int" where
  "charged_kb bk es = sum_list (map start_kb (filter (\<lambda>e. ps_backing e = bk) es))"

definition whole_entries :: "pending_start list \<Rightarrow> bool" where
  "whole_entries es \<longleftrightarrow> list_all (\<lambda>e. whole_kb (ps_ram_gb e)) es"

lemma trunc_of_int [simp]: "trunc_rat (of_int n) = n"
  by (simp add: trunc_rat_def)

lemma pending_sum_whole:
  "whole_entries es \<Longrightarrow> pending_sum (Some bk) es * of_int GIB_KB = of_int (charged_kb bk es)"
proof (induction es)
  case (Cons e es)
  have "of_int (start_kb e) = ps_ram_gb e * of_int GIB_KB"
    using Cons.prems by (simp add: whole_entries_def whole_kb_def start_kb_def)
  then show ?case
    using Cons by (simp add: whole_entries_def pending_sum_def charged_kb_def distrib_right)
qed (simp add: pending_sum_def charged_kb_def)

lemma get_pending_whole:
  "whole_entries (bl_pending_ram b i) \<Longrightarrow> get_pending_ram_kb i (Some bk) b = charged_kb bk (bl_pending_ram b i)"
  by (simp only: get_pending_ram_kb_def pending_sum_whole trunc_of_int)

lemma start_kb_nonneg: "whole_kb (ps_ram_gb e) \<Longrightarrow> 0 \<le> start_kb e"
  by (simp add: whole_kb_def start_kb_def trunc_rat_def GIB_KB_def)

lemma whole_filter: "whole_entries es \<Longrightarrow> whole_entries (filter P es)"
  by (auto simp: whole_entries_def list_all_iff)

lemma charged_filter_le: "whole_entries es \<Longrightarrow> charged_kb bk (filter P es) \<le> charged_kb bk es"
  by (induction es) (auto simp: charged_kb_def whole_entries_def start_kb_nonneg intro: add_increasing)

lemma charged_append: "charged_kb bk (es @ fs) = charged_kb bk es + charged_kb bk fs"
  by (simp add: charged_kb_def)

text \<open>
  A host is within its memory when the desktops in flight fit: the regular ones into the measured
  free memory above the reserve (where the host is subject to the check at all), the others into the
  free hugepages.
\<close>

definition host_within :: "hyper \<Rightarrow> pending_start list \<Rightarrow> bool" where
  "host_within h es \<longleftrightarrow>
     (mounted (h_hugepages_info h) \<or> h_min_free_mem_gb h \<noteq> 0 \<longrightarrow>
        (case ms_available (stats_of h) of None \<Rightarrow> True
         | Some a \<Rightarrow> charged_kb REGULAR es \<le> max 0 (a - h_min_free_mem_gb h * GIB_KB)))
     \<and> charged_kb HUGEPAGES es \<le> max 0 (or0 (ms_hugepages_free_kb (stats_of h)))"

definition within_memory :: "hyper list \<Rightarrow> balancer \<Rightarrow> bool" where
  "within_memory hosts b \<longleftrightarrow> (\<forall>i. whole_entries (bl_pending_ram b i))
     \<and> (\<forall>h \<in> set hosts. host_within h (bl_pending_ram b (h_id h)))"

definition pools_nonneg :: "hyper \<Rightarrow> bool" where
  "pools_nonneg h \<longleftrightarrow> (case h_hugepages_info h of None \<Rightarrow> True | Some p \<Rightarrow> 0 \<le> hp_total_1G p \<and> 0 \<le> hp_total_2M p)"

lemma host_within_mono:
  assumes "host_within h es" "\<And>bk. charged_kb bk fs \<le> charged_kb bk es"
  shows "host_within h fs"
  using assms(1) assms(2) [of REGULAR] assms(2) [of HUGEPAGES]
  by (auto simp: host_within_def split: option.splits)

lemma host_within_filter: "whole_entries es \<Longrightarrow> host_within h es \<Longrightarrow> host_within h (filter P es)"
  by (erule host_within_mono) (rule charged_filter_le)

lemma within_memory_filter:
  assumes "within_memory hosts b" "\<And>i. \<exists>P. bl_pending_ram b' i = filter P (bl_pending_ram b i)"
  shows "within_memory hosts b'"
  using assms unfolding within_memory_def by (metis whole_filter host_within_filter)

lemma within_cleanup: "within_memory hosts b \<Longrightarrow> within_memory hosts (cleanup_expired now b)"
  by (rule within_memory_filter) (auto simp: cleanup_expired_def)

lemma within_release: "within_memory hosts b \<Longrightarrow> within_memory hosts (release_pending i d b)"
proof (erule within_memory_filter)
  fix j
  have "bl_pending_ram (release_pending i d b) j =
      filter (\<lambda>e. j \<noteq> i \<or> ps_domain e \<noteq> Some d) (bl_pending_ram b j)"
    by (cases "j = i") (simp_all add: release_pending_def)
  then show "\<exists>P. bl_pending_ram (release_pending i d b) j = filter P (bl_pending_ram b j)" by blast
qed

text \<open>One more desktop fits when the plan granted its backing.\<close>

lemma host_within_charge:
  assumes es: "whole_entries es" "host_within h es" and m: "whole_kb m" and pos: "pools_nonneg h"
    and e: "ps_ram_gb e = m" "ps_backing e = bk"
    and plan: "plan_memory_backing (h_mem_stats h) (h_hugepages_info h) (h_min_free_mem_gb h)
       (trunc_rat (m * of_int GIB_KB)) (charged_kb REGULAR es) (charged_kb HUGEPAGES es) = Some bk"
  shows "host_within h (es @ [e])"
proof (cases bk)
  case REGULAR
  have c: "charged_kb REGULAR (es @ [e]) = charged_kb REGULAR es + trunc_rat (m * of_int GIB_KB)"
    "charged_kb HUGEPAGES (es @ [e]) = charged_kb HUGEPAGES es"
    using e REGULAR by (simp_all add: charged_append charged_kb_def start_kb_def)
  from plan_regular [OF plan [unfolded REGULAR]] consider
    "\<not> mounted (h_hugepages_info h)" "h_min_free_mem_gb h = 0"
    | "ms_available (stats_of h) = None"
    | a where "ms_available (stats_of h) = Some a"
        "trunc_rat (m * of_int GIB_KB) \<le> a - charged_kb REGULAR es - h_min_free_mem_gb h * GIB_KB"
    by (auto simp: mounted_def stats_of_def no_stats_def GIB_KB_def split: option.splits)
  then show ?thesis
    by cases (use es(2) in \<open>auto simp: host_within_def c split: option.splits\<close>)
next
  case HUGEPAGES
  have c: "charged_kb HUGEPAGES (es @ [e]) = charged_kb HUGEPAGES es + trunc_rat (m * of_int GIB_KB)"
    "charged_kb REGULAR (es @ [e]) = charged_kb REGULAR es"
    using e HUGEPAGES by (simp_all add: charged_append charged_kb_def start_kb_def)
  have "\<exists>ms p. h_mem_stats h = Some ms \<and> h_hugepages_info h = Some p \<and> hp_mounted p
     \<and> trunc_rat (m * of_int GIB_KB) \<le> or0 (ms_hugepages_free_kb ms) - charged_kb HUGEPAGES es"
    using pos by (intro plan_hugepages [OF plan [unfolded HUGEPAGES]]) (simp add: pools_nonneg_def)
  then have "charged_kb HUGEPAGES (es @ [e]) \<le> or0 (ms_hugepages_free_kb (stats_of h))"
    by (auto simp: c stats_of_def)
  then show ?thesis using es(2) by (auto simp: host_within_def c split: option.splits)
qed

lemma within_record:
  assumes w: "within_memory hosts b" and h: "h \<in> set hosts" "pools_nonneg h" and m: "whole_kb m"
    and d: "distinct (map h_id hosts)" and plan: "plan_backing b m h = Some bk"
  shows "within_memory hosts (record_pending now (h_id h) m did bk b)"
proof -
  let ?es = "bl_pending_ram b (h_id h)"
  let ?e = "\<lparr>ps_ram_gb = m, ps_time = now, ps_domain = did, ps_backing = bk\<rparr>"
  let ?P = "\<lambda>e. truthy_str did \<longrightarrow> ps_domain e \<noteq> did"
  have whole: "whole_entries ?es" and within: "host_within h ?es"
    using w h by (auto simp: within_memory_def)
  have "host_within h (?es @ [?e])"
    by (rule host_within_charge [OF whole within m h(2)])
      (use plan in \<open>simp_all add: plan_backing_def get_pending_whole [OF whole]\<close>)
  then have new: "host_within h (filter ?P ?es @ [?e])"
    by (rule host_within_mono) (simp add: charged_append charged_filter_le [OF whole])
  have new_whole: "whole_entries (filter ?P ?es @ [?e])"
    using whole_filter [OF whole, of ?P] m by (simp add: whole_entries_def)
  have rec: "bl_pending_ram (record_pending now (h_id h) m did bk b) =
      (bl_pending_ram b)(h_id h := filter ?P ?es @ [?e])"
    by (simp add: record_pending_def Let_def)
  have same: "g = h" if "g \<in> set hosts" "h_id g = h_id h" for g
    using d h(1) that by (simp add: distinct_map inj_on_def)
  show ?thesis
    unfolding within_memory_def rec
  proof (intro conjI allI ballI)
    show "whole_entries (((bl_pending_ram b)(h_id h := filter ?P ?es @ [?e])) i)" for i
      using new_whole w by (simp add: within_memory_def)
    show "host_within g (((bl_pending_ram b)(h_id h := filter ?P ?es @ [?e])) (h_id g))" if "g \<in> set hosts" for g
      using new w same [OF that] that by (cases "h_id g = h_id h") (simp_all add: within_memory_def)
  qed
qed

text \<open>
  The life of a balancer between two samples of the host statistics: desktops without GPU are
  placed, tracked starts are released, in any order and at any times.
\<close>

inductive bal_step :: "hyper list \<Rightarrow> balancer \<Rightarrow> balancer \<Rightarrow> bool" for hosts where
  start: "set hs \<subseteq> set hosts \<Longrightarrow> whole_kb m \<Longrightarrow>
     bal_step hosts b (snd (get_next_capabilities_virt running now u hs m v d b))"
| release: "bal_step hosts b (release_pending i d b)"

lemma within_start:
  assumes "within_memory hosts b" "set hs \<subseteq> set hosts" "whole_kb m"
    and "distinct (map h_id hosts)" "list_all pools_nonneg hosts"
  shows "within_memory hosts (snd (get_next_capabilities_virt running now u hs m v d b))"
proof (cases rule: next_virt_cases [of running hs now u m v d b])
  case none
  then show ?thesis using assms(1) by simp
next
  case full
  then show ?thesis using within_cleanup [OF assms(1)] by simp
next
  case (placed h bk ex)
  have "h \<in> set hosts" using placed(1) assms(2) by (auto simp: get_pools_threads_running_def)
  then have "within_memory hosts (record_pending now (h_id h) m d bk (cleanup_expired now b))"
    using within_record [OF within_cleanup [OF assms(1)] _ _ assms(3,4) placed(2)] assms(5)
    by (simp add: list_all_iff)
  then show ?thesis using placed(5) by (simp add: within_memory_def)
qed

interpretation burst: invariant_system "bal_step hosts"
  "\<lambda>b. distinct (map h_id hosts) \<and> list_all pools_nonneg hosts \<longrightarrow> within_memory hosts b" for hosts
proof unfold_locales
  fix s t
  assume "bal_step hosts s t" and inv: "distinct (map h_id hosts) \<and> list_all pools_nonneg hosts \<longrightarrow> within_memory hosts s"
  then show "distinct (map h_id hosts) \<and> list_all pools_nonneg hosts \<longrightarrow> within_memory hosts t"
    by cases (simp_all add: within_start within_release)
qed

lemma init_within: "init_balancer pool ty = Some b \<Longrightarrow> within_memory hosts b"
  by (auto simp: init_balancer_def within_memory_def host_within_def whole_entries_def charged_kb_def
      split: option.splits)

text \<open>The cumulative weights \<open>n, n + (n-1), \<dots>\<close>.\<close>

lemma cum_weight_0 [simp]: "cum_weight n 0 = 0"
  by (simp add: cum_weight_def)

lemma cum_weight_Suc [simp]: "cum_weight n (Suc k) = cum_weight n k + (n - k)"
  by (simp add: cum_weight_def)

lemma cum_weight_mono: "j \<le> k \<Longrightarrow> cum_weight n j \<le> cum_weight n k"
  by (rule lift_Suc_mono_le) simp_all

lemma cum_weight_closed: "k \<le> n \<Longrightarrow> 2 * cum_weight n k + k * k = k * (2 * n + 1)"
proof (induction k)
  case (Suc k)
  obtain j where "n = Suc k + j" using Suc.prems le_Suc_ex by blast
  then show ?case using Suc by (simp add: algebra_simps)
qed simp

lemma weighted_index_interval:
  assumes "k < n" "of_nat (cum_weight n k) \<le> u * of_nat (cum_weight n n)"
    and "u * of_nat (cum_weight n n) < of_nat (cum_weight n (Suc k))"
  shows "weighted_index n u = k"
proof -
  let ?x = "u * of_nat (cum_weight n n)"
  have "of_nat (cum_weight n j) \<le> ?x \<longleftrightarrow> j \<le> k" for j
  proof
    assume "of_nat (cum_weight n j) \<le> ?x"
    then have "cum_weight n j < cum_weight n (Suc k)" using assms(3) by (metis le_less_trans of_nat_less_iff)
    then show "j \<le> k" using cum_weight_mono [of "Suc k" j n] by (meson not_less not_less_eq_eq)
  next
    assume "j \<le> k"
    from cum_weight_mono [OF this, of n] show "of_nat (cum_weight n j) \<le> ?x"
      using assms(2) by (meson of_nat_le_iff order_trans)
  qed
  then have "weighted_index n u = length (filter (\<lambda>j. j \<le> k) [1..<n])" by (simp add: weighted_index_def)
  also have "filter (\<lambda>j. j \<le> k) [1..<n] = filter (\<lambda>j. j \<le> k) ([1..<Suc k] @ [Suc k..<n])"
    using assms(1) by (metis Suc_leI le_add1 le_add_diff_inverse plus_1_eq_Suc upt_add_eq_append)
  also have "\<dots> = [1..<Suc k]" by (simp add: filter_empty_conv)
  finally show ?thesis by simp
qed

lemma weighted_index_covers:
  fixes u :: rat
  assumes "0 \<le> u" "u < 1" "0 < n"
  obtains k where "k < n" "of_nat (cum_weight n k) \<le> u * of_nat (cum_weight n n)"
    "u * of_nat (cum_weight n n) < of_nat (cum_weight n (Suc k))"
proof -
  let ?x = "u * of_nat (cum_weight n n)"
  have pos: "0 < cum_weight n n"
    using cum_weight_mono [of "Suc 0" n n] assms(3) by simp
  have top: "?x < of_nat (cum_weight n n)" using assms(2) pos by simp
  have "\<exists>k<m. of_nat (cum_weight n k) \<le> ?x \<and> ?x < of_nat (cum_weight n (Suc k))"
    if "?x < of_nat (cum_weight n m)" for m
    using that
  proof (induction m)
    case 0
    moreover have "0 \<le> ?x" using assms(1) by simp
    ultimately show ?case by simp
  next
    case (Suc m)
    show ?case
    proof (cases "?x < of_nat (cum_weight n m)")
      case True
      then show ?thesis using Suc.IH less_SucI by blast
    next
      case False
      then show ?thesis using Suc.prems by (metis lessI not_less)
    qed
  qed
  from this [OF top] that show thesis by blast
qed

section \<open>Properties\<close>


definition sample_balancer :: balancer where
  "sample_balancer = the (init_balancer ''default'' ''available_ram'')"

definition sample_start :: "string \<Rightarrow> balancer \<Rightarrow> placement \<times> balancer" where
  "sample_start d b =
     get_next_capabilities_virt (\<lambda>_. True) 100 (1/2) [sample_hyper ''h1''] 4 2 (Some d) b"


text \<open>The outcome of placing a desktop without GPU. It is refused for lack of hosts exactly when no
  offered host has a running worker, and for lack of memory exactly when no such host has a memory
  plan once expired starts are dropped; otherwise it goes to an offered host with a running worker,
  with the backing that host's plan gave, and the start is recorded on that host.\<close>

theorem virt_placement_outcome:
  "case get_next_capabilities_virt running now u hs m v d b of (r, b') \<Rightarrow>
     (let live = filter (\<lambda>h. running (''worker_'' @ h_id h)) hs; b1 = cleanup_expired now b
      in case r of
           No_hypervisor \<Rightarrow> live = [] \<and> b' = b
         | No_memory gb ids \<Rightarrow> live \<noteq> [] \<and> list_all (\<lambda>h. plan_backing b1 m h = None) live \<and> b' = b1
         | Placed i ex \<Rightarrow> (\<exists>h. h \<in> set live \<and> h_id h = i \<and> ve_memory_backing ex \<noteq> None
               \<and> plan_backing b1 m h = ve_memory_backing ex
               \<and> last (bl_pending_ram b' i) = \<lparr>ps_ram_gb = m, ps_time = now, ps_domain = d,
                     ps_backing = the (ve_memory_backing ex)\<rparr>)
         | Placed_gpu i ex \<Rightarrow> False)"
proof (cases rule: next_virt_cases [of running hs now u m v d b])
  case none
  then show ?thesis by (simp add: get_pools_threads_running_def)
next
  case full
  then show ?thesis by (simp add: get_pools_threads_running_def list_all_iff)
next
  case (placed h bk ex)
  obtain b' where r: "get_next_capabilities_virt running now u hs m v d b = (Placed (h_id h) ex, b')"
    using placed(3) by (cases "get_next_capabilities_virt running now u hs m v d b") simp
  show ?thesis
    unfolding r using placed r
    by (auto simp: get_pools_threads_running_def record_pending_def Let_def intro!: exI [of _ h])
qed

text \<open>The weighted draw. With \<open>n\<close> ranked hosts and a random number \<open>u\<close> in [0, 1), the host of rank \<open>k\<close>
  is drawn exactly when \<open>u\<close> falls into an interval whose length is \<open>n - k\<close> parts of \<open>n(n+1)/2\<close>: the
  best of three hosts in half of the cases, the second in a third, the last in a sixth.\<close>

theorem weighted_draw_share:
  assumes "0 \<le> u" "u < 1" "k < n"
  shows "weighted_index n u = k \<longleftrightarrow>
     of_nat (cum_weight n k) \<le> u * (of_nat (n * (n + 1)) / 2)
     \<and> u * (of_nat (n * (n + 1)) / 2) < of_nat (cum_weight n k) + of_nat (n - k)"
proof -
  have "2 * cum_weight n n = n * (n + 1)" using cum_weight_closed [of n n] by (simp add: algebra_simps)
  then have total: "of_nat (cum_weight n n) = (of_nat (n * (n + 1)) / 2 :: rat)"
    by (metis mult.commute nonzero_eq_divide_eq of_nat_mult of_nat_numeral zero_neq_numeral)
  obtain j where j: "j < n" "of_nat (cum_weight n j) \<le> u * of_nat (cum_weight n n)"
      "u * of_nat (cum_weight n n) < of_nat (cum_weight n (Suc j))"
    using weighted_index_covers [OF assms(1,2)] assms(3) by (metis gr_implies_not0 not_gr_zero)
  show ?thesis
    using weighted_index_interval [OF j] weighted_index_interval [OF assms(3), of u] j
    unfolding total by (auto simp: of_nat_diff)
qed

theorem weighted_draw_share_witness:
  "weighted_index 3 (2/3) = 1 \<and> of_nat (cum_weight 3 1) \<le> (2/3 :: rat) * (of_nat (3 * (3 + 1)) / 2)"
proof -
  have "weighted_index 3 (2/3) = 1" by code_simp
  then show ?thesis using weighted_draw_share [of "2/3" 1 3] by simp
qed

end
