(* ===== verification/Migration_Ledger.thy ===== *)
theory Migration_Ledger
  imports Prelude
begin

text \<open>
  The durable ledger of storage migrations, \<open>models/storage_migration.py\<close>: the job and disk states,
  the aggregate totals (recomputed and incremental) and the atomic updates of the two tables. A
  document is an association list of JSON fields; a missing field reads as null. Job totals are a
  record, a state absent from \<open>state_counts\<close> counting as 0.
\<close>

section \<open>States\<close>

datatype migration_status =
    J_DRAFT | J_PLANNED | J_RUNNING | J_PAUSED | J_WINDOW_CLOSED | J_FINISHING_TREE | J_SCHEDULED
  | J_BUDGET_REACHED | J_COMPLETED | J_COMPLETED_WITH_SKIPS | J_FAILED | J_CANCELED

datatype item_state =
    PENDING | PREFLIGHT_OK | MOVING | MOVED | REBASED | REPAIRING | DB_UPDATED | RELEASED
  | FAILED | SKIPPED | QUARANTINED

datatype item_kind = TEMPLATE | DESKTOP | MEDIA

definition MIGRATION_ITEM_STATE_ORDER :: "item_state list" where
  "MIGRATION_ITEM_STATE_ORDER = [PENDING, PREFLIGHT_OK, MOVING, MOVED, REBASED, DB_UPDATED, RELEASED]"

definition DONE_ITEM_STATES :: "item_state list" where
  "DONE_ITEM_STATES = [RELEASED, SKIPPED, QUARANTINED]"

definition MOVED_ITEM_STATES :: "item_state list" where
  "MOVED_ITEM_STATES = [MOVED, REBASED, DB_UPDATED, RELEASED]"

definition SETTLED_ITEM_STATES :: "item_state list" where
  "SETTLED_ITEM_STATES = [RELEASED, SKIPPED, FAILED, QUARANTINED]"

section \<open>Totals\<close>

text \<open>A disk row as far as the totals read it: state and \<open>size_bytes\<close> (null read as 0).\<close>

record ledger_item =
  li_state :: item_state
  li_size :: int

definition item_is_done :: "item_state \<Rightarrow> bool" where
  "item_is_done s \<longleftrightarrow> s \<in> set DONE_ITEM_STATES"

definition item_is_migrated :: "item_state \<Rightarrow> bool" where
  "item_is_migrated s \<longleftrightarrow> s \<in> set MOVED_ITEM_STATES"

definition compute_state_counts :: "ledger_item list \<Rightarrow> item_state \<Rightarrow> int" where
  "compute_state_counts items = foldl (\<lambda>counts it. counts(li_state it := counts (li_state it) + 1)) (\<lambda>_. 0) items"

definition compute_bytes_done :: "ledger_item list \<Rightarrow> int" where
  "compute_bytes_done items = sum_list (map li_size (filter (\<lambda>it. li_state it = RELEASED) items))"

definition compute_bytes_copied :: "ledger_item list \<Rightarrow> int" where
  "compute_bytes_copied items = sum_list (map li_size (filter (\<lambda>it. item_is_migrated (li_state it)) items))"

record totals =
  tt_plan :: "(string \<times> int) list"
  tt_items_total :: int
  tt_bytes_total :: int
  tt_state_counts :: "item_state \<Rightarrow> int"
  tt_bytes_done :: int
  tt_bytes_copied :: int
  tt_done :: int
  tt_migrated :: int
  tt_completed :: int

definition count_items :: "(item_state \<Rightarrow> bool) \<Rightarrow> ledger_item list \<Rightarrow> int" where
  "count_items P items = int (length (filter (\<lambda>it. P (li_state it)) items))"

text \<open>\<open>tt_plan\<close> holds the static plan fields, which are preserved.\<close>

definition build_totals :: "(string \<times> int) list \<Rightarrow> ledger_item list \<Rightarrow> totals" where
  "build_totals plan items =
     \<lparr>tt_plan = plan, tt_items_total = int (length items), tt_bytes_total = sum_list (map li_size items),
      tt_state_counts = compute_state_counts items, tt_bytes_done = compute_bytes_done items,
      tt_bytes_copied = compute_bytes_copied items, tt_done = count_items item_is_done items,
      tt_migrated = count_items item_is_migrated items, tt_completed = count_items (\<lambda>s. s = RELEASED) items\<rparr>"

record delta =
  dl_state_counts :: "(item_state \<times> int) list"
  dl_done :: int
  dl_migrated :: int
  dl_completed :: int
  dl_bytes_done :: int
  dl_bytes_copied :: int

text \<open>A field missing from the delta adds 0.\<close>

definition signed :: "bool \<Rightarrow> bool \<Rightarrow> int \<Rightarrow> int" where
  "signed before after n = (if before \<noteq> after then (if after then n else - n) else 0)"

definition totals_delta :: "item_state \<Rightarrow> item_state \<Rightarrow> int \<Rightarrow> delta" where
  "totals_delta old_state new_state nbytes =
     \<lparr>dl_state_counts = alist_set new_state 1 [(old_state, -1)],
      dl_done = signed (item_is_done old_state) (item_is_done new_state) 1,
      dl_migrated = signed (item_is_migrated old_state) (item_is_migrated new_state) 1,
      dl_completed = signed (old_state = RELEASED) (new_state = RELEASED) 1,
      dl_bytes_done = signed (old_state = RELEASED) (new_state = RELEASED) nbytes,
      dl_bytes_copied = signed (item_is_migrated old_state) (item_is_migrated new_state) nbytes\<rparr>"

definition record_activity :: "delta \<Rightarrow> totals \<Rightarrow> totals" where
  "record_activity d t =
     t\<lparr>tt_state_counts := foldl (\<lambda>counts (s, n). counts(s := counts s + n)) (tt_state_counts t) (dl_state_counts d),
       tt_done := tt_done t + dl_done d, tt_migrated := tt_migrated t + dl_migrated d,
       tt_completed := tt_completed t + dl_completed d, tt_bytes_done := tt_bytes_done t + dl_bytes_done d,
       tt_bytes_copied := tt_bytes_copied t + dl_bytes_copied d\<rparr>"

text \<open>The runner's state write: \<open>_set\<close> in incremental mode, on the disk at position \<open>i\<close>.\<close>

definition set_state :: "nat \<Rightarrow> item_state \<Rightarrow> ledger_item list \<times> totals \<Rightarrow> ledger_item list \<times> totals" where
  "set_state i new_state L =
     (case L of (items, t) \<Rightarrow>
        (let it = items ! i; items' = items[i := it\<lparr>li_state := new_state\<rparr>]
         in if li_state it \<noteq> new_state
            then (items', record_activity (totals_delta (li_state it) new_state (li_size it)) t)
            else (items', t)))"

section \<open>Atomic updates\<close>

type_synonym doc = "(string \<times> json) list"

definition doc_get :: "doc \<Rightarrow> string \<Rightarrow> json" where
  "doc_get d k = (case map_of d k of None \<Rightarrow> JNull | Some v \<Rightarrow> v)"

definition update_doc :: "(string \<times> json) list \<Rightarrow> doc \<Rightarrow> doc" where
  "update_doc upd d = foldl (\<lambda>d (k, v). alist_set k v d) d upd"

text \<open>The claim reports whether the document was replaced.\<close>

definition claim :: "(string \<times> json) list \<Rightarrow> (string \<times> json) list \<Rightarrow> doc \<Rightarrow> (bool \<times> doc) res" where
  "claim when_fields set_fields d =
     (if when_fields = [] then Inl (ValueError ''claim() requires a non-empty `when` predicate'')
      else if list_all (\<lambda>(f, v). doc_get d f = v) when_fields
      then (let d' = update_doc set_fields d in Inr (d' \<noteq> d, d'))
      else Inr (False, d))"

definition incr :: "string \<Rightarrow> int \<Rightarrow> doc \<Rightarrow> int option \<times> doc" where
  "incr field n d =
     (case map_of d field of
        None \<Rightarrow> (Some n, alist_set field (JInt n) d)
      | Some (JInt m) \<Rightarrow> (Some (m + n), alist_set field (JInt (m + n)) d)
      | Some _ \<Rightarrow> (None, d))"

definition active_storage_ids :: "(string \<times> item_state) list \<Rightarrow> string list" where
  "active_storage_ids rows = map fst (filter (\<lambda>(sid, s). s \<notin> set SETTLED_ITEM_STATES) rows)"

definition claim_occurrence :: "string option \<Rightarrow> string option \<Rightarrow> bool \<times> string option" where
  "claim_occurrence key last_occurrence = (if last_occurrence = key then (False, last_occurrence) else (True, key))"

definition release_occurrence :: "string option \<Rightarrow> string option \<Rightarrow> string option \<Rightarrow> string option" where
  "release_occurrence key prev last_occurrence = (if last_occurrence = key then prev else last_occurrence)"

definition drive_active :: "string list \<Rightarrow> string list \<Rightarrow> string list \<Rightarrow> string list" where
  "drive_active add remove active =
     foldl (\<lambda>acc x. if x \<in> set acc then acc else acc @ [x]) [] (filter (\<lambda>x. x \<notin> set remove) active @ add)"

text \<open>The bytes committed in one occurrence; reading \<open>bytes\<close> of a missing field is an error.\<close>

definition add_budget_spent ::
  "string option \<Rightarrow> int \<Rightarrow> (string option \<times> int) option \<Rightarrow> (string option \<times> int) res" where
  "add_budget_spent occurrence nbytes spent =
     (if (case spent of None \<Rightarrow> None | Some (occ, _) \<Rightarrow> occ) = occurrence
      then (case spent of None \<Rightarrow> Inl (KeyError ''bytes'') | Some (occ, n) \<Rightarrow> Inr (occ, n + nbytes))
      else Inr (occurrence, nbytes))"

definition set_budget_spent :: "string option \<Rightarrow> int \<Rightarrow> string option \<times> int" where
  "set_budget_spent occurrence nbytes = (occurrence, nbytes)"

text \<open>The page of rows \<open>page_items\<close> returns from the filtered and ordered rows, with their total.\<close>

definition page_slice :: "int \<Rightarrow> int \<Rightarrow> 'a list \<Rightarrow> 'a list \<times> int" where
  "page_slice page per_page rows =
     (let p = max 1 page; n = max 1 per_page
      in (take (nat n) (drop (nat ((p - 1) * n)) rows), int (length rows)))"

section \<open>Lemmas\<close>

lemma state_counts_eq: "compute_state_counts items s = count_items (\<lambda>x. x = s) items"
proof -
  have "foldl (\<lambda>counts it. counts(li_state it := counts (li_state it) + 1)) c items s
      = c s + count_items (\<lambda>x. x = s) items" for c
    by (induction items arbitrary: c) (auto simp: count_items_def)
  then show ?thesis by (simp add: compute_state_counts_def)
qed

lemma weigh_update:
  fixes f :: "ledger_item \<Rightarrow> int"
  assumes "i < length items"
  shows "sum_list (map f (filter P (items[i := x]))) =
     sum_list (map f (filter P items)) + (if P x then f x else 0) - (if P (items ! i) then f (items ! i) else 0)"
  using assms
proof (induction items arbitrary: i)
  case (Cons y ys)
  then show ?case by (cases i) auto
qed simp

lemma count_as_sum: "count_items P items = sum_list (map (\<lambda>_. 1) (filter (\<lambda>it. P (li_state it)) items))"
  by (induction items) (auto simp: count_items_def)

lemma count_update:
  fixes items :: "ledger_item list"
  assumes "i < length items"
  shows "count_items P (items[i := (items ! i)\<lparr>li_state := s\<rparr>]) =
     count_items P items + signed (P (li_state (items ! i))) (P s) 1"
  using weigh_update [OF assms, of "\<lambda>_. 1" "\<lambda>it. P (li_state it)"]
  by (simp add: count_as_sum signed_def)

lemma bytes_update:
  fixes items :: "ledger_item list"
  assumes "i < length items"
  shows "sum_list (map li_size (filter (\<lambda>it. P (li_state it)) (items[i := (items ! i)\<lparr>li_state := s\<rparr>]))) =
     sum_list (map li_size (filter (\<lambda>it. P (li_state it)) items)) + signed (P (li_state (items ! i))) (P s) (li_size (items ! i))"
  using weigh_update [OF assms, of li_size "\<lambda>it. P (li_state it)"]
  by (simp add: signed_def)

lemma totals_size_update:
  fixes items :: "ledger_item list"
  assumes "i < length items"
  shows "sum_list (map li_size (items[i := (items ! i)\<lparr>li_state := s\<rparr>])) = sum_list (map li_size items)"
  using weigh_update [OF assms, of li_size "\<lambda>_. True"] by simp

text \<open>One state change: the delta turns the old aggregate into the recomputed one.\<close>

lemma record_activity_refines:
  assumes "i < length items" "li_state (items ! i) \<noteq> s"
  shows "record_activity (totals_delta (li_state (items ! i)) s (li_size (items ! i))) (build_totals plan items)
     = build_totals plan (items[i := (items ! i)\<lparr>li_state := s\<rparr>])"
proof -
  have "foldl (\<lambda>counts (s, n). counts(s := counts s + n)) (compute_state_counts items)
          (alist_set s 1 [(li_state (items ! i), -1)])
      = compute_state_counts (items[i := (items ! i)\<lparr>li_state := s\<rparr>])"
    by (rule ext) (use assms in \<open>auto simp: state_counts_eq count_update signed_def\<close>)
  then show ?thesis
    using assms(1)
    by (simp add: record_activity_def totals_delta_def build_totals_def count_update bytes_update
        totals_size_update compute_bytes_done_def compute_bytes_copied_def
        bytes_update [where P = "\<lambda>x. x = RELEASED"])
qed

text \<open>Without the runner's guard a write of the same state would count the disk twice.\<close>

lemma same_state_delta_counts_twice:
  "dl_state_counts (totals_delta s s n) = [(s, 1)]"
  by (simp add: totals_delta_def)

lemma map_of_update_doc: "map_of (update_doc upd d) = map_of d ++ map_of (rev upd)"
  by (induction upd arbitrary: d) (auto simp: update_doc_def)

lemma update_doc_get:
  assumes "distinct (map fst upd)" "map_of upd f = Some v"
  shows "doc_get (update_doc upd d) f = v"
proof -
  have "map_of (rev upd) f = Some v"
    using assms(1) map_of_SomeD [OF assms(2)] by (intro map_of_is_SomeI) (simp_all add: rev_map [symmetric])
  then show ?thesis by (simp add: doc_get_def map_of_update_doc map_add_find_right)
qed

text \<open>Several drivers race for one claim; each one's update is applied atomically, in some order.\<close>

fun race :: "(string \<times> json) list \<Rightarrow> (string \<times> json) list list \<Rightarrow> doc \<Rightarrow> bool list" where
  "race w [] d = []"
| "race w (fs # rest) d =
     (case claim w fs d of
        Inl e \<Rightarrow> False # race w rest d
      | Inr (won, d') \<Rightarrow> won # race w rest d')"

definition changes_guard :: "(string \<times> json) list \<Rightarrow> (string \<times> json) list \<Rightarrow> bool" where
  "changes_guard w fs \<longleftrightarrow> distinct (map fst fs)
     \<and> list_ex (\<lambda>(f, v). case map_of fs f of None \<Rightarrow> False | Some v' \<Rightarrow> v' \<noteq> v) w"

lemma claim_breaks_guard:
  assumes "changes_guard w fs"
  shows "\<not> list_all (\<lambda>(f, v). doc_get (update_doc fs d) f = v) w"
proof
  assume all: "list_all (\<lambda>(f, v). doc_get (update_doc fs d) f = v) w"
  obtain f v v' where w: "(f, v) \<in> set w" "map_of fs f = Some v'" "v' \<noteq> v" "distinct (map fst fs)"
    using assms by (auto simp: changes_guard_def list_ex_iff split: option.splits)
  have "doc_get (update_doc fs d) f = v'" by (rule update_doc_get [OF w(4,2)])
  moreover have "doc_get (update_doc fs d) f = v" using bspec [OF all [unfolded list_all_iff] w(1)] by simp
  ultimately show False using w(3) by simp
qed

lemma race_lost: "w \<noteq> [] \<Longrightarrow> \<not> list_all (\<lambda>(f, v). doc_get d f = v) w \<Longrightarrow> race w callers d = map (\<lambda>_. False) callers"
  by (induction callers) (auto simp: claim_def)

section \<open>Properties\<close>



text \<open>C30: A claim has exactly one winner. When several drivers race to claim one disk row under the same
  guard and each would change a guarded field, then in whatever order their updates are applied
  exactly the first one wins if the guard held, and nobody wins otherwise.\<close>

theorem claim_single_winner:
  assumes "w \<noteq> []" "list_all (changes_guard w) callers"
  shows "race w callers d =
     (case callers of [] \<Rightarrow> [] | c # cs \<Rightarrow> list_all (\<lambda>(f, v). doc_get d f = v) w # map (\<lambda>_. False) cs)"
proof (cases callers)
  case (Cons c cs)
  show ?thesis
  proof (cases "list_all (\<lambda>(f, v). doc_get d f = v) w")
    case True
    have g: "\<not> list_all (\<lambda>(f, v). doc_get (update_doc c d) f = v) w"
      using claim_breaks_guard assms(2) Cons by simp
    then have "update_doc c d \<noteq> d" using True by metis
    then show ?thesis using Cons True assms(1) race_lost [OF assms(1) g] by (simp add: claim_def Let_def)
  next
    case False
    then show ?thesis using Cons race_lost [OF assms(1) False, of callers] by simp
  qed
qed simp

theorem claim_single_winner_witness:
  "race [(''state'', JStr ''pending'')] [[(''state'', JStr ''moving'')], [(''state'', JStr ''moving'')]] [(''state'', JStr ''pending'')]
     = [True, False]"
proof -
  have "list_all (changes_guard [(''state'', JStr ''pending'')]) [[(''state'', JStr ''moving'')], [(''state'', JStr ''moving'')]]"
    by code_simp
  from claim_single_winner [OF _ this, of "[(''state'', JStr ''pending'')]"] show ?thesis
    by (simp add: doc_get_def)
qed

end
