(* ===== verification/Migration_Plan.thy ===== *)
theory Migration_Plan
  imports Migration_Ledger
begin

text \<open>
  The plan of a storage migration, first part of \<open>lib/storage/migration.py\<close>: walking a backing chain,
  splitting it into the subtrees that move, ordering and budgeting trees, the space floor, the
  ledger rows of a plan, and the selection scopes of concurrent jobs. The children lookup is an
  argument; a dictionary whose order matters is an association list.
\<close>

section \<open>Walking a tree\<close>

text \<open>
  The queue loop. \<open>seen\<close> always holds the nodes of \<open>order\<close>, so one list stands for both. The loop may
  not end when the children lookup is infinite; not returning is \<open>None\<close>.
\<close>

partial_function (option) walk_loop :: "('n \<Rightarrow> 'n list) \<Rightarrow> 'n list \<Rightarrow> 'n list \<Rightarrow> 'n list option" where
  [code]: "walk_loop get_children queue order =
     (case queue of
        [] \<Rightarrow> Some order
      | nid # rest \<Rightarrow>
          if nid \<in> set order then walk_loop get_children rest order
          else walk_loop get_children
                 (rest @ filter (\<lambda>cid. cid \<notin> set (order @ [nid])) (get_children nid)) (order @ [nid]))"

definition walk_tree_topo :: "'n \<Rightarrow> ('n \<Rightarrow> 'n list) \<Rightarrow> 'n list option" where
  "walk_tree_topo root_id get_children = walk_loop get_children [root_id] []"

definition classify_kind :: "bool \<Rightarrow> string list \<Rightarrow> string option \<Rightarrow> string \<times> string" where
  "classify_kind has_children domain_kinds path_usage =
     (if has_children then (''template'', ''children'')
      else if ''template'' \<in> set domain_kinds then (''template'', ''domain'')
      else if ''desktop'' \<in> set domain_kinds then (''desktop'', ''domain'')
      else (case path_usage of
              Some u \<Rightarrow> if u = ''desktop'' \<or> u = ''template'' then (u, ''path'') else (''template'', ''default'')
            | None \<Rightarrow> (''template'', ''default'')))"

section \<open>Subtrees that move\<close>

text \<open>State of the loop: the root of each moving node seen, and the groups in order of creation.\<close>

definition add_to_group :: "'n \<Rightarrow> 'n \<Rightarrow> ('n \<times> 'n list) list \<Rightarrow> ('n \<times> 'n list) list" where
  "add_to_group sub nid groups =
     alist_set sub ((case map_of groups sub of None \<Rightarrow> [] | Some g \<Rightarrow> g) @ [nid]) groups"

definition split_step ::
  "('n \<Rightarrow> 'n option) \<Rightarrow> ('n \<Rightarrow> bool) \<Rightarrow> ('n \<rightharpoonup> 'n) \<times> ('n \<times> 'n list) list \<Rightarrow> 'n
   \<Rightarrow> ('n \<rightharpoonup> 'n) \<times> ('n \<times> 'n list) list" where
  "split_step parent_of moves st nid =
     (case st of (sub_root, groups) \<Rightarrow>
        if \<not> moves nid then (sub_root, groups)
        else (let sub = (case parent_of nid of
                            None \<Rightarrow> nid
                          | Some parent \<Rightarrow> (case sub_root parent of None \<Rightarrow> nid | Some r \<Rightarrow> r))
              in (sub_root(nid \<mapsto> sub), add_to_group sub nid groups)))"

definition split_moving_subtrees ::
  "'n list \<Rightarrow> ('n \<Rightarrow> 'n option) \<Rightarrow> ('n \<Rightarrow> bool) \<Rightarrow> ('n \<times> 'n list) list" where
  "split_moving_subtrees order parent_of moves =
     snd (foldl (split_step parent_of moves) (\<lambda>_. None, []) order)"

definition stranded_by_selection ::
  "'n list \<Rightarrow> ('n \<Rightarrow> 'n option) \<Rightarrow> ('n \<Rightarrow> bool) \<Rightarrow> ('n \<times> 'n) list" where
  "stranded_by_selection order parent_of moves =
     map (\<lambda>nid. (the (parent_of nid), nid))
       (filter (\<lambda>nid. \<not> moves nid \<and> (case parent_of nid of None \<Rightarrow> False | Some p \<Rightarrow> moves p)) order)"

section \<open>Order and budget\<close>

definition hotter :: "int option \<Rightarrow> int option \<Rightarrow> int option" where
  "hotter best val =
     (case val of
        None \<Rightarrow> best
      | Some v \<Rightarrow> if v \<noteq> 0 \<and> (case best of None \<Rightarrow> True | Some b \<Rightarrow> v > b) then Some v else best)"

definition tree_order_key :: "'n list \<Rightarrow> ('n \<Rightarrow> 'n list) \<Rightarrow> ('n \<Rightarrow> int option) \<Rightarrow> int option" where
  "tree_order_key moving_ids descendants_of accessed_of =
     foldl (\<lambda>best candidate. hotter best (accessed_of candidate)) None
       (concat (map (\<lambda>sid. sid # descendants_of sid) moving_ids))"

definition usage_key :: "(string \<times> int option) list \<Rightarrow> string \<Rightarrow> int \<times> string" where
  "usage_key tree_keys t = (the (the (map_of tree_keys t)), t)"

definition sort_tree_ids :: "(string \<times> int option) list \<Rightarrow> string \<Rightarrow> string list" where
  "sort_tree_ids tree_keys order =
     (if order \<noteq> ''oldest_first'' \<and> order \<noteq> ''newest_first'' then map fst tree_keys
      else (let known = map fst (filter (\<lambda>(t, k). k \<noteq> None) tree_keys);
                unknown = sort (map fst (filter (\<lambda>(t, k). k = None) tree_keys));
                ordered = (if order = ''newest_first''
                           then rev (sort_key (usage_key tree_keys) (rev known))
                           else sort_key (usage_key tree_keys) known)
            in ordered @ unknown))"

fun budget_loop :: "('n \<Rightarrow> int) \<Rightarrow> int \<Rightarrow> int \<Rightarrow> 'n list \<Rightarrow> 'n list" where
  "budget_loop bytes_of budget spent [] = []"
| "budget_loop bytes_of budget spent (t # ts) =
     (if spent \<ge> budget then [] else t # budget_loop bytes_of budget (spent + bytes_of t) ts)"

definition budget_prefix :: "'n list \<Rightarrow> ('n \<Rightarrow> int) \<Rightarrow> int \<Rightarrow> 'n list" where
  "budget_prefix ordered_trees bytes_of budget =
     (if budget = 0 then ordered_trees else budget_loop bytes_of budget 0 ordered_trees)"

definition tree_within_age_threshold :: "rat option \<Rightarrow> string \<Rightarrow> rat \<Rightarrow> rat \<Rightarrow> bool \<Rightarrow> bool" where
  "tree_within_age_threshold order_key order now usage_age_days include_never_used =
     (if usage_age_days = 0 \<or> (order \<noteq> ''oldest_first'' \<and> order \<noteq> ''newest_first'') then True
      else (case order_key of
              None \<Rightarrow> include_never_used
            | Some k \<Rightarrow> (let cutoff = now - usage_age_days * 86400
                         in if order = ''oldest_first'' then k < cutoff else k \<ge> cutoff)))"

definition free_pct :: "int option \<Rightarrow> int option \<Rightarrow> rat option" where
  "free_pct free_bytes total_bytes =
     (case (free_bytes, total_bytes) of
        (Some f, Some t) \<Rightarrow> if t = 0 then None else Some (max 0 (min 100 (of_int f / of_int t * 100)))
      | _ \<Rightarrow> None)"

definition space_floor_breached :: "int option \<Rightarrow> int option \<Rightarrow> rat \<Rightarrow> int \<Rightarrow> bool" where
  "space_floor_breached free_bytes total_bytes min_free_pct min_free_bytes =
     (case free_bytes of
        None \<Rightarrow> False
      | Some f \<Rightarrow>
          (min_free_bytes \<noteq> 0 \<and> f < min_free_bytes)
          \<or> (min_free_pct \<noteq> 0
             \<and> (case free_pct free_bytes total_bytes of None \<Rightarrow> False | Some pct \<Rightarrow> pct < min_free_pct)))"

section \<open>Ledger rows of a plan\<close>

record node_info =
  ni_kind :: "item_kind option"
  ni_src_path :: "string option"
  ni_dst_path :: "string option"
  ni_dst_dir :: "string option"
  ni_parent_storage_id :: "string option"
  ni_parent_dst_path :: "string option"
  ni_parent_dst_dir :: "string option"
  ni_size_bytes :: "int option"

record plan_item =
  pi_id :: string
  pi_migration_id :: string
  pi_storage_id :: string
  pi_tree_id :: string
  pi_topo_index :: nat
  pi_state :: item_state
  pi_kind :: item_kind
  pi_src_path :: "string option"
  pi_dst_path :: "string option"
  pi_dst_dir :: "string option"
  pi_parent_storage_id :: "string option"
  pi_parent_dst_path :: "string option"
  pi_parent_dst_dir :: "string option"
  pi_size_bytes :: int
  pi_bytes_done :: int
  pi_attempts :: nat

definition opt0 :: "int option \<Rightarrow> int" where
  "opt0 x = (case x of None \<Rightarrow> 0 | Some n \<Rightarrow> n)"

definition tree_item :: "string \<Rightarrow> string \<Rightarrow> (string \<Rightarrow> node_info) \<Rightarrow> nat \<times> string \<Rightarrow> plan_item" where
  "tree_item migration_id root_id info_of x =
     (case x of (idx, nid) \<Rightarrow>
        (let info = info_of nid
         in \<lparr>pi_id = migration_id @ ''--'' @ nid, pi_migration_id = migration_id, pi_storage_id = nid,
             pi_tree_id = root_id, pi_topo_index = idx, pi_state = PENDING,
             pi_kind = (case ni_kind info of None \<Rightarrow> DESKTOP | Some k \<Rightarrow> k),
             pi_src_path = ni_src_path info, pi_dst_path = ni_dst_path info, pi_dst_dir = ni_dst_dir info,
             pi_parent_storage_id = ni_parent_storage_id info,
             pi_parent_dst_path = (if idx = 0 then None else ni_parent_dst_path info),
             pi_parent_dst_dir = (if idx = 0 then None else ni_parent_dst_dir info),
             pi_size_bytes = opt0 (ni_size_bytes info), pi_bytes_done = 0, pi_attempts = 0\<rparr>))"

definition build_tree_items ::
  "string \<Rightarrow> string \<Rightarrow> (string \<Rightarrow> string list) \<Rightarrow> (string \<Rightarrow> node_info) \<Rightarrow> string list option \<Rightarrow> plan_item list option" where
  "build_tree_items migration_id root_id get_children info_of order =
     map_option (\<lambda>ids. map (tree_item migration_id root_id info_of) (enumerate 0 ids))
       (case order of None \<Rightarrow> walk_tree_topo root_id get_children | Some ids \<Rightarrow> Some ids)"

definition kind_selected :: "item_kind \<Rightarrow> item_kind list \<Rightarrow> bool" where
  "kind_selected kind item_kinds \<longleftrightarrow> item_kinds = [] \<or> kind \<in> set item_kinds"

record media_row =
  md_id :: string
  md_path_downloaded :: "string option"
  md_pool_id :: "string option"
  md_category :: "string option"
  md_total_bytes :: "int option"

definition media_size_bytes :: "media_row \<Rightarrow> int" where
  "media_size_bytes row = opt0 (md_total_bytes row)"

record selection =
  sl_kind :: string
  sl_src_pool_id :: "string option"
  sl_category_id :: "string option"
  sl_path_prefix :: "string option"
  sl_tree_ids :: "string list"

definition starts_with :: "string \<Rightarrow> string \<Rightarrow> bool" where
  "starts_with s p \<longleftrightarrow> take (length p) s = p"

definition media_for_selection :: "media_row list \<Rightarrow> selection \<Rightarrow> media_row list" where
  "media_for_selection rows sel =
     filter (\<lambda>r. truthy_str (md_path_downloaded r) \<and>
        (if sl_tree_ids sel \<noteq> [] then md_id r \<in> set (sl_tree_ids sel)
         else \<not> (sl_kind sel = ''pool'' \<and> truthy_str (sl_src_pool_id sel) \<and> md_pool_id r \<noteq> sl_src_pool_id sel)
              \<and> \<not> (sl_kind sel = ''category'' \<and> truthy_str (sl_category_id sel) \<and> md_category r \<noteq> sl_category_id sel)
              \<and> \<not> (sl_kind sel = ''path'' \<and> truthy_str (sl_path_prefix sel)
                    \<and> \<not> starts_with (the (md_path_downloaded r)) (the (sl_path_prefix sel))))) rows"

definition media_item :: "string \<Rightarrow> (media_row \<Rightarrow> string) \<Rightarrow> (media_row \<Rightarrow> int) \<Rightarrow> media_row \<Rightarrow> plan_item" where
  "media_item migration_id dst_dir_of size_of r =
     (let src = the (md_path_downloaded r); dst_dir = dst_dir_of r
      in \<lparr>pi_id = migration_id @ ''--'' @ md_id r, pi_migration_id = migration_id, pi_storage_id = md_id r,
          pi_tree_id = md_id r, pi_topo_index = 0, pi_state = PENDING, pi_kind = MEDIA,
          pi_src_path = Some src, pi_dst_path = Some (dst_dir @ ''/'' @ last (split_on (CHR ''/'') src)),
          pi_dst_dir = Some dst_dir, pi_parent_storage_id = None, pi_parent_dst_path = None,
          pi_parent_dst_dir = None, pi_size_bytes = size_of r, pi_bytes_done = 0, pi_attempts = 0\<rparr>)"

definition build_media_items ::
  "string \<Rightarrow> media_row list \<Rightarrow> (media_row \<Rightarrow> string) \<Rightarrow> (media_row \<Rightarrow> int) \<Rightarrow> plan_item list" where
  "build_media_items migration_id rows dst_dir_of size_of = map (media_item migration_id dst_dir_of size_of) rows"

definition pool_is_drained :: "'a list \<Rightarrow> 'b list \<Rightarrow> 'c list \<Rightarrow> 'd list \<Rightarrow> bool" where
  "pool_is_drained categories disks media queued \<longleftrightarrow> categories = [] \<and> disks = [] \<and> media = [] \<and> queued = []"

section \<open>Selections and scopes\<close>

record storage_row =
  st_id :: string
  st_parent :: "string option"
  st_pool_id :: "string option"
  st_category :: "string option"
  st_directory_path :: "string option"

definition or_empty :: "string option \<Rightarrow> string" where
  "or_empty s = (case s of None \<Rightarrow> [] | Some x \<Rightarrow> x)"

definition selection_members :: "storage_row list \<Rightarrow> selection \<Rightarrow> string list" where
  "selection_members storages sel =
     map st_id (filter (\<lambda>s.
        if sl_kind sel = ''pool'' then st_pool_id s = sl_src_pool_id sel
        else if sl_kind sel = ''category'' then st_category s = sl_category_id sel
        else if sl_kind sel = ''path'' then starts_with (or_empty (st_directory_path s)) (or_empty (sl_path_prefix sel))
        else False) storages)"

definition compute_roots :: "storage_row list \<Rightarrow> selection \<Rightarrow> string list" where
  "compute_roots storages sel =
     (let ids = map st_id storages
      in if sl_tree_ids sel \<noteq> []
         then foldl (\<lambda>out t. if t \<in> set ids \<and> t \<notin> set out then out @ [t] else out) [] (sl_tree_ids sel)
         else (let members = selection_members storages sel
               in map st_id (filter (\<lambda>s. st_id s \<in> set members
                    \<and> (case st_parent s of None \<Rightarrow> True | Some p \<Rightarrow> p \<notin> set members)) storages)))"

text \<open>The closure of a selection; \<open>None\<close> when a walk does not end.\<close>

fun walk_all :: "('n \<Rightarrow> 'n list) \<Rightarrow> 'n list \<Rightarrow> 'n list option" where
  "walk_all children_of [] = Some []"
| "walk_all children_of (r # rs) =
     (case walk_tree_topo r children_of of
        None \<Rightarrow> None
      | Some ids \<Rightarrow> map_option (\<lambda>rest. ids @ rest) (walk_all children_of rs))"

definition resolved_ids_from_rows :: "storage_row list \<Rightarrow> (string \<Rightarrow> string list) \<Rightarrow> selection \<Rightarrow> string list option" where
  "resolved_ids_from_rows rows children_of sel = walk_all children_of (compute_roots rows sel)"

definition scopes_overlap :: "string list \<Rightarrow> string list \<Rightarrow> bool" where
  "scopes_overlap a b \<longleftrightarrow> list_ex (\<lambda>x. x \<in> set b) a"

type_synonym claim_pair = "string option \<times> string option"

definition descriptor_claims ::
  "string \<Rightarrow> string option \<Rightarrow> string option \<Rightarrow> string list \<Rightarrow> claim_pair list" where
  "descriptor_claims kind src_pool_id path_prefix category_pools =
     (if kind = ''pool'' then (if truthy_str src_pool_id then [(src_pool_id, None)] else [])
      else if kind = ''path'' then [(src_pool_id, Some (or_empty path_prefix))]
      else if kind = ''category'' then map (\<lambda>p. (Some p, None)) category_pools
      else [])"

definition claim_overlap :: "claim_pair \<Rightarrow> claim_pair \<Rightarrow> bool" where
  "claim_overlap a b =
     (case (a, b) of ((pa, prefa), (pb, prefb)) \<Rightarrow>
        if pa \<noteq> None \<and> pb \<noteq> None \<and> pa \<noteq> pb then False
        else if prefa = None \<or> prefb = None then True
        else starts_with (the prefa) (the prefb) \<or> starts_with (the prefb) (the prefa))"

definition descriptors_overlap :: "claim_pair list \<Rightarrow> claim_pair list \<Rightarrow> bool" where
  "descriptors_overlap claims_a claims_b \<longleftrightarrow> list_ex (\<lambda>a. list_ex (claim_overlap a) claims_b) claims_a"

record active_job =
  aj_id :: string
  aj_recurring :: bool
  aj_reserved_ids :: "string list"
  aj_claims :: "claim_pair list"

fun scope_conflict :: "string list \<Rightarrow> claim_pair list \<Rightarrow> bool \<Rightarrow> active_job list \<Rightarrow> string option" where
  "scope_conflict new_ids new_claims new_recurring [] = None"
| "scope_conflict new_ids new_claims new_recurring (j # js) =
     (if (new_recurring \<or> aj_recurring j) \<and> descriptors_overlap new_claims (aj_claims j) then Some (aj_id j)
      else if scopes_overlap new_ids (aj_reserved_ids j) then Some (aj_id j)
      else scope_conflict new_ids new_claims new_recurring js)"

section \<open>The walk ends and is in topological order\<close>

text \<open>Every node of the list has a parent among the nodes before it (or in the given set).\<close>

fun linked :: "('n \<Rightarrow> 'n list) \<Rightarrow> 'n set \<Rightarrow> 'n list \<Rightarrow> bool" where
  "linked gc S [] = True"
| "linked gc S (x # xs) = ((\<exists>p \<in> S. x \<in> set (gc p)) \<and> linked gc (insert x S) xs)"

lemma linked_snoc: "linked gc S (xs @ [n]) \<longleftrightarrow> linked gc S xs \<and> (\<exists>p \<in> S \<union> set xs. n \<in> set (gc p))"
  by (induction xs arbitrary: S) auto

lemma linked_nth:
  "linked gc S xs \<Longrightarrow> i < length xs \<Longrightarrow> \<exists>p \<in> S \<union> set (take i xs). xs ! i \<in> set (gc p)"
proof (induction xs arbitrary: S i)
  case (Cons x xs)
  show ?case
  proof (cases i)
    case 0
    then show ?thesis using Cons.prems by simp
  next
    case (Suc k)
    then have "\<exists>p \<in> insert x S \<union> set (take k xs). xs ! k \<in> set (gc p)"
      using Cons.IH [of "insert x S" k] Cons.prems by simp
    then show ?thesis using Suc by auto
  qed
qed simp

definition queue_inv :: "('n \<Rightarrow> 'n list) \<Rightarrow> 'n \<Rightarrow> 'n list \<Rightarrow> 'n list \<Rightarrow> bool" where
  "queue_inv gc r queue t \<longleftrightarrow> distinct (r # t) \<and> linked gc {r} t
     \<and> (\<forall>q \<in> set queue. \<exists>p \<in> set (r # t). q \<in> set (gc p))
     \<and> (\<forall>p \<in> set (r # t). set (gc p) \<subseteq> set queue \<union> set (r # t))"

lemma queue_inv_skip: "queue_inv gc r (n # q) t \<Longrightarrow> n \<in> set (r # t) \<Longrightarrow> queue_inv gc r q t"
  unfolding queue_inv_def by auto

lemma queue_inv_emit:
  assumes inv: "queue_inv gc r (n # q) t" and new: "n \<notin> set (r # t)"
  shows "queue_inv gc r (q @ filter (\<lambda>c. c \<notin> set ((r # t) @ [n])) (gc n)) (t @ [n])"
proof -
  have n: "\<exists>p \<in> set (r # t). n \<in> set (gc p)" and q: "\<forall>x \<in> set q. \<exists>p \<in> set (r # t). x \<in> set (gc p)"
    and c: "\<forall>p \<in> set (r # t). set (gc p) \<subseteq> set (n # q) \<union> set (r # t)"
    and d: "distinct (r # t)" "linked gc {r} t"
    using inv by (simp_all add: queue_inv_def)
  let ?q = "q @ filter (\<lambda>c. c \<notin> set ((r # t) @ [n])) (gc n)"
  have "distinct (r # t @ [n])" using d(1) new by auto
  moreover have "linked gc {r} (t @ [n])" using d(2) n by (simp add: linked_snoc)
  moreover have "\<exists>p \<in> set (r # t @ [n]). x \<in> set (gc p)" if "x \<in> set ?q" for x
  proof (cases "x \<in> set q")
    case True
    then show ?thesis using bspec [OF q True] by auto
  next
    case False
    then have "x \<in> set (gc n)" using that by simp
    then show ?thesis by auto
  qed
  moreover have "set (gc p) \<subseteq> set ?q \<union> set (r # t @ [n])" if "p \<in> set (r # t @ [n])" for p
  proof (cases "p = n")
    case True
    then show ?thesis by auto
  next
    case False
    then have "p \<in> set (r # t)" using that by simp
    from bspec [OF c this] have "set (gc p) \<subseteq> set (n # q) \<union> set (r # t)" .
    then show ?thesis by auto
  qed
  ultimately show ?thesis unfolding queue_inv_def by blast
qed

lemma walk_loop_total:
  assumes "finite R" "\<forall>x \<in> R. set (gc x) \<subseteq> R" "set queue \<union> set (r # t) \<subseteq> R" "queue_inv gc r queue t"
  shows "\<exists>t'. walk_loop gc queue (r # t) = Some (r # t') \<and> queue_inv gc r [] t' \<and> set (r # t') \<subseteq> R"
  using assms(3,4)
proof (induction "(queue, t)" arbitrary: queue t
    rule: wf_induct_rule [OF wf_measures [of "[\<lambda>(q, t). card (R - set (r # t)), \<lambda>(q, t). length q]"]])
  case (1 queue t)
  show ?case
  proof (cases queue)
    case Nil
    then have "walk_loop gc queue (r # t) = Some (r # t)" by (subst walk_loop.simps) simp
    then show ?thesis using "1.prems" Nil by auto
  next
    case (Cons n q)
    show ?thesis
    proof (cases "n \<in> set (r # t)")
      case True
      have "walk_loop gc queue (r # t) = walk_loop gc q (r # t)"
        using True Cons by (subst walk_loop.simps) simp
      moreover have "queue_inv gc r q t" using queue_inv_skip [OF "1.prems"(2) [unfolded Cons] True] .
      moreover have "set q \<union> set (r # t) \<subseteq> R" using "1.prems"(1) Cons by auto
      ultimately show ?thesis using "1.hyps" [of q t] Cons by simp
    next
      case False
      let ?q = "q @ filter (\<lambda>c. c \<notin> set ((r # t) @ [n])) (gc n)"
      have "walk_loop gc queue (r # t) = walk_loop gc ?q (r # t @ [n])"
        using False Cons by (subst walk_loop.simps) simp
      moreover have inv: "queue_inv gc r ?q (t @ [n])" using queue_inv_emit [OF "1.prems"(2) [unfolded Cons] False] .
      moreover have n: "n \<in> R" using "1.prems"(1) Cons by auto
      then have sub: "set ?q \<union> set (r # t @ [n]) \<subseteq> R" using "1.prems"(1) Cons assms(2) by auto
      moreover have "card (R - set (r # t @ [n])) < card (R - set (r # t))"
        using n False assms(1) by (intro psubset_card_mono) auto
      ultimately show ?thesis using "1.hyps" [OF _ sub inv] by simp
    qed
  qed
qed

text \<open>The nodes of a tree: everything reachable from its root.\<close>

definition reachable :: "('n \<Rightarrow> 'n list) \<Rightarrow> 'n \<Rightarrow> 'n set" where
  "reachable gc r = {x. (\<lambda>p c. c \<in> set (gc p))\<^sup>*\<^sup>* r x}"

lemma queue_inv_reachable:
  assumes "queue_inv gc r [] t"
  shows "set (r # t) = reachable gc r"
proof
  have "linked gc S xs \<Longrightarrow> S \<subseteq> reachable gc r \<Longrightarrow> set xs \<subseteq> reachable gc r" for S xs
  proof (induction xs arbitrary: S)
    case (Cons x xs)
    then obtain p where "p \<in> reachable gc r" "x \<in> set (gc p)" by auto
    then have "x \<in> reachable gc r" by (auto simp: reachable_def intro: rtranclp.rtrancl_into_rtrancl)
    then show ?case using Cons by auto
  qed simp
  from this [of "{r}" t] show "set (r # t) \<subseteq> reachable gc r"
    using assms by (auto simp: queue_inv_def reachable_def)
  have "x \<in> set (r # t)" if "(\<lambda>p c. c \<in> set (gc p))\<^sup>*\<^sup>* r x" for x
    using that
  proof (induction rule: rtranclp_induct)
    case (step y z)
    then show ?case using assms unfolding queue_inv_def by auto
  qed simp
  then show "reachable gc r \<subseteq> set (r # t)" by (auto simp: reachable_def)
qed

section \<open>Splitting\<close>

lemma alist_set_map:
  "distinct ks \<Longrightarrow> k \<in> set ks \<Longrightarrow>
     alist_set k v (map (\<lambda>x. (x, f x)) ks) = map (\<lambda>x. (x, if x = k then v else f x)) ks"
  by (induction ks) auto

lemma map_of_map_pair: "k \<in> set ks \<Longrightarrow> map_of (map (\<lambda>x. (x, f x)) ks) k = Some (f k)"
  by (induction ks) auto

lemma map_of_map_pair_none: "k \<notin> set ks \<Longrightarrow> map_of (map (\<lambda>x. (x, f x)) ks) k = None"
  by (induction ks) auto

text \<open>The groups are determined by the root map: one per root, in order, with its nodes in order.\<close>

definition groups_of :: "'n list \<Rightarrow> ('n \<rightharpoonup> 'n) \<Rightarrow> ('n \<times> 'n list) list" where
  "groups_of xs sr = map (\<lambda>r. (r, filter (\<lambda>n. sr n = Some r) xs)) (filter (\<lambda>n. sr n = Some n) xs)"

definition split_inv ::
  "('n \<Rightarrow> 'n option) \<Rightarrow> ('n \<Rightarrow> bool) \<Rightarrow> 'n list \<Rightarrow> ('n \<rightharpoonup> 'n) \<Rightarrow> bool" where
  "split_inv parent_of moves xs sr \<longleftrightarrow>
     (\<forall>n. sr n \<noteq> None \<longleftrightarrow> n \<in> set xs \<and> moves n)
     \<and> (\<forall>n r. sr n = Some r \<longrightarrow> sr r = Some r \<and> (n = r \<or> (\<exists>p. parent_of n = Some p \<and> sr p = Some r)))
     \<and> (\<forall>n. sr n = Some n \<longrightarrow> (\<forall>p. parent_of n = Some p \<longrightarrow> \<not> moves p)
              \<and> hd (filter (\<lambda>m. sr m = Some n) xs) = n)"

definition parents_first :: "('n \<Rightarrow> 'n option) \<Rightarrow> 'n list \<Rightarrow> bool" where
  "parents_first parent_of xs \<longleftrightarrow>
     (\<forall>i < length xs. case parent_of (xs ! i) of None \<Rightarrow> True | Some p \<Rightarrow> p \<in> set (take i xs))"

lemma parents_first_snoc:
  assumes "parents_first parent_of (xs @ [n])"
  shows "parents_first parent_of xs" "parent_of n = Some p \<Longrightarrow> p \<in> set xs"
proof -
  show "parents_first parent_of xs"
    unfolding parents_first_def
  proof (intro allI impI)
    fix i assume "i < length xs"
    then show "case parent_of (xs ! i) of None \<Rightarrow> True | Some p \<Rightarrow> p \<in> set (take i xs)"
      using assms [unfolded parents_first_def, rule_format, of i] by (simp add: nth_append split: option.splits)
  qed
  show "parent_of n = Some p \<Longrightarrow> p \<in> set xs"
    using assms [unfolded parents_first_def, rule_format, of "length xs"] by simp
qed

lemma split_inv_own_root:
  assumes inv: "split_inv parent_of moves xs sr" and n: "n \<notin> set xs" "moves n"
    and p: "\<And>p. parent_of n = Some p \<Longrightarrow> \<not> moves p"
  shows "split_inv parent_of moves (xs @ [n]) (sr(n \<mapsto> n))
     \<and> add_to_group n n (groups_of xs sr) = groups_of (xs @ [n]) (sr(n \<mapsto> n))"
proof -
  have srn: "sr n = None" using inv n unfolding split_inv_def by blast
  have no: "sr m \<noteq> Some n" for m using inv srn unfolding split_inv_def by (metis option.distinct(1))
  have f: "filter (\<lambda>m. (sr(n \<mapsto> n)) m = Some r) xs = filter (\<lambda>m. sr m = Some r) xs" for r
    using n(1) by (intro filter_cong) auto
  have g: "filter (\<lambda>m. (sr(n \<mapsto> n)) m = Some m) xs = filter (\<lambda>m. sr m = Some m) xs"
    using n(1) by (intro filter_cong) auto
  have e: "filter (\<lambda>m. sr m = Some n) xs = []" using no by (simp add: filter_empty_conv)
  have "split_inv parent_of moves (xs @ [n]) (sr(n \<mapsto> n))"
    unfolding split_inv_def
  proof (intro conjI allI impI)
    fix m r p
    show "((sr(n \<mapsto> n)) m \<noteq> None) = (m \<in> set (xs @ [n]) \<and> moves m)"
      using inv n unfolding split_inv_def by auto
    show "(sr(n \<mapsto> n)) r = Some r" if "(sr(n \<mapsto> n)) m = Some r"
      using that inv unfolding split_inv_def by (auto split: if_splits)
    show "m = r \<or> (\<exists>p. parent_of m = Some p \<and> (sr(n \<mapsto> n)) p = Some r)" if "(sr(n \<mapsto> n)) m = Some r"
    proof (cases "m = n")
      case False
      then have "m = r \<or> (\<exists>p. parent_of m = Some p \<and> sr p = Some r)"
        using that inv unfolding split_inv_def by auto
      then show ?thesis using srn by (metis fun_upd_other option.distinct(1))
    qed (use that in simp)
    show "\<not> moves p" if "(sr(n \<mapsto> n)) m = Some m" "parent_of m = Some p"
      using that \<open>\<And>p. parent_of n = Some p \<Longrightarrow> \<not> moves p\<close> inv unfolding split_inv_def
      by (cases "m = n") auto
    show "hd (filter (\<lambda>k. (sr(n \<mapsto> n)) k = Some m) (xs @ [n])) = m" if "(sr(n \<mapsto> n)) m = Some m"
    proof (cases "m = n")
      case True
      then show ?thesis using e by (simp only: filter_append f) simp
    next
      case False
      then have "hd (filter (\<lambda>k. sr k = Some m) xs) = m" "sr m = Some m"
        using that inv unfolding split_inv_def by auto
      then show ?thesis using False by (simp only: filter_append f) simp
    qed
  qed
  moreover have "add_to_group n n (groups_of xs sr) = groups_of (xs @ [n]) (sr(n \<mapsto> n))"
  proof -
    have key: "n \<notin> set (filter (\<lambda>m. sr m = Some m) xs)" using n(1) by simp
    have "add_to_group n n (groups_of xs sr) = groups_of xs sr @ [(n, [n])]"
      unfolding add_to_group_def groups_of_def map_of_map_pair_none [OF key] option.case
      by (subst alist_set_new) (use key in auto)
    moreover have "groups_of (xs @ [n]) (sr(n \<mapsto> n)) = groups_of xs sr @ [(n, [n])]"
    proof -
      have "map (\<lambda>r. (r, filter (\<lambda>m. (sr(n \<mapsto> n)) m = Some r) (xs @ [n]))) (filter (\<lambda>m. sr m = Some m) xs)
          = map (\<lambda>r. (r, filter (\<lambda>m. sr m = Some r) xs)) (filter (\<lambda>m. sr m = Some m) xs)"
        by (intro map_cong) (use key in \<open>auto simp: f [unfolded fun_upd_apply]\<close>)
      then show ?thesis unfolding groups_of_def filter_append g f using e by simp
    qed
    ultimately show ?thesis by simp
  qed
  ultimately show ?thesis by blast
qed

lemma split_inv_join:
  assumes inv: "split_inv parent_of moves xs sr" and n: "n \<notin> set xs" "moves n" and d: "distinct xs"
    and p: "parent_of n = Some p" "sr p = Some r"
  shows "split_inv parent_of moves (xs @ [n]) (sr(n \<mapsto> r))
     \<and> add_to_group r n (groups_of xs sr) = groups_of (xs @ [n]) (sr(n \<mapsto> r))"
proof -
  have srn: "sr n = None" using inv n unfolding split_inv_def by blast
  have srr: "sr r = Some r" using inv p(2) unfolding split_inv_def by blast
  then have rxs: "r \<in> set xs" using inv unfolding split_inv_def by blast
  then have rn: "r \<noteq> n" using n(1) by blast
  have f: "filter (\<lambda>m. (sr(n \<mapsto> r)) m = Some k) xs = filter (\<lambda>m. sr m = Some k) xs" for k
    using n(1) by (intro filter_cong) auto
  have g: "filter (\<lambda>m. (sr(n \<mapsto> r)) m = Some m) xs = filter (\<lambda>m. sr m = Some m) xs"
    using n(1) by (intro filter_cong) auto
  have ne: "filter (\<lambda>m. sr m = Some r) xs \<noteq> []" using srr rxs by (auto simp: filter_empty_conv)
  have "split_inv parent_of moves (xs @ [n]) (sr(n \<mapsto> r))"
    unfolding split_inv_def
  proof (intro conjI allI impI)
    fix m k q
    show "((sr(n \<mapsto> r)) m \<noteq> None) = (m \<in> set (xs @ [n]) \<and> moves m)"
      using inv n unfolding split_inv_def by auto
    show "(sr(n \<mapsto> r)) k = Some k" if "(sr(n \<mapsto> r)) m = Some k"
    proof (cases "m = n")
      case True
      then show ?thesis using that srr rn by simp
    next
      case False
      then have "sr k = Some k" using that inv unfolding split_inv_def by auto
      then show ?thesis using srn by auto
    qed
    show "m = k \<or> (\<exists>p. parent_of m = Some p \<and> (sr(n \<mapsto> r)) p = Some k)" if "(sr(n \<mapsto> r)) m = Some k"
    proof (cases "m = n")
      case True
      then show ?thesis using that p srn by auto
    next
      case False
      then have "m = k \<or> (\<exists>p. parent_of m = Some p \<and> sr p = Some k)"
        using that inv unfolding split_inv_def by auto
      then show ?thesis using srn by (metis fun_upd_other option.distinct(1))
    qed
    show "\<not> moves q" if "(sr(n \<mapsto> r)) m = Some m" "parent_of m = Some q"
      using that inv rn unfolding split_inv_def by (cases "m = n") auto
    show "hd (filter (\<lambda>j. (sr(n \<mapsto> r)) j = Some m) (xs @ [n])) = m" if "(sr(n \<mapsto> r)) m = Some m"
    proof -
      have "m \<noteq> n" using that rn by auto
      then have m: "sr m = Some m" using that by simp
      then have "hd (filter (\<lambda>k. sr k = Some m) xs) = m" "filter (\<lambda>k. sr k = Some m) xs \<noteq> []"
        using inv unfolding split_inv_def by (auto simp: filter_empty_conv)
      then show ?thesis unfolding filter_append f by (subst hd_append2) auto
    qed
  qed
  moreover have "add_to_group r n (groups_of xs sr) = groups_of (xs @ [n]) (sr(n \<mapsto> r))"
  proof -
    let ?roots = "filter (\<lambda>m. sr m = Some m) xs"
    have key: "r \<in> set ?roots" using srr rxs by simp
    have "add_to_group r n (groups_of xs sr) =
        map (\<lambda>x. (x, if x = r then filter (\<lambda>m. sr m = Some r) xs @ [n] else filter (\<lambda>m. sr m = Some x) xs)) ?roots"
      unfolding add_to_group_def groups_of_def map_of_map_pair [OF key] option.case
      by (rule alist_set_map) (use d key in simp_all)
    moreover have "groups_of (xs @ [n]) (sr(n \<mapsto> r)) =
        map (\<lambda>x. (x, if x = r then filter (\<lambda>m. sr m = Some r) xs @ [n] else filter (\<lambda>m. sr m = Some x) xs)) ?roots"
      unfolding groups_of_def filter_append g f using rn by simp
    ultimately show ?thesis by simp
  qed
  ultimately show ?thesis by blast
qed

lemma split_inv_skip:
  assumes "split_inv parent_of moves xs sr" "\<not> moves n"
  shows "split_inv parent_of moves (xs @ [n]) sr \<and> groups_of (xs @ [n]) sr = groups_of xs sr"
proof -
  have srn: "sr n = None" using assms unfolding split_inv_def by blast
  have f: "filter (\<lambda>m. sr m = Some k) (xs @ [n]) = filter (\<lambda>m. sr m = Some k) xs" for k using srn by simp
  show ?thesis
    using assms srn unfolding split_inv_def groups_of_def f by auto
qed

lemma split_loop_inv:
  "distinct xs \<Longrightarrow> parents_first parent_of xs \<Longrightarrow>
     \<exists>sr. foldl (split_step parent_of moves) (\<lambda>_. None, []) xs = (sr, groups_of xs sr) \<and> split_inv parent_of moves xs sr"
proof (induction xs rule: rev_induct)
  case Nil
  then show ?case by (auto simp: groups_of_def split_inv_def)
next
  case (snoc n xs)
  note pf = parents_first_snoc [OF snoc.prems(2)]
  obtain sr where sr: "foldl (split_step parent_of moves) (\<lambda>_. None, []) xs = (sr, groups_of xs sr)"
    and inv: "split_inv parent_of moves xs sr" using snoc.IH snoc.prems(1) pf(1) by auto
  have n: "n \<notin> set xs" "distinct xs" using snoc.prems(1) by auto
  have step: "foldl (split_step parent_of moves) (\<lambda>_. None, []) (xs @ [n]) = split_step parent_of moves (sr, groups_of xs sr) n"
    using sr by simp
  show ?case
  proof (cases "moves n")
    case False
    then have "split_step parent_of moves (sr, groups_of xs sr) n = (sr, groups_of xs sr)"
      by (simp add: split_step_def)
    then show ?thesis using split_inv_skip [OF inv False] step by auto
  next
    case True
    show ?thesis
    proof (cases "\<exists>p r. parent_of n = Some p \<and> sr p = Some r")
      case True
      then obtain p r where p: "parent_of n = Some p" "sr p = Some r" by blast
      have "split_step parent_of moves (sr, groups_of xs sr) n = (sr(n \<mapsto> r), add_to_group r n (groups_of xs sr))"
        using p \<open>moves n\<close> by (simp add: split_step_def)
      then show ?thesis using split_inv_join [OF inv n(1) \<open>moves n\<close> n(2) p] step by auto
    next
      case False
      have "\<not> moves p" if "parent_of n = Some p" for p
        using False that pf(2) [OF that] inv unfolding split_inv_def by (metis option.exhaust)
      note own = split_inv_own_root [OF inv n(1) \<open>moves n\<close> this]
      have "split_step parent_of moves (sr, groups_of xs sr) n = (sr(n \<mapsto> n), add_to_group n n (groups_of xs sr))"
        using False \<open>moves n\<close> by (auto simp: split_step_def split: option.splits)
      then show ?thesis using own step by auto
    qed
  qed
qed

lemma split_inv_group:
  assumes inv: "split_inv parent_of moves xs sr" and r: "sr r = Some r"
  defines "g \<equiv> filter (\<lambda>n. sr n = Some r) xs"
  shows "hd g = r" "g = filter (\<lambda>n. n \<in> set g) xs" "parent_of r = Some p \<Longrightarrow> \<not> moves p"
    "n \<in> set g \<Longrightarrow> n = r \<or> (\<exists>p. parent_of n = Some p \<and> p \<in> set g)"
proof -
  show "hd g = r" "parent_of r = Some p \<Longrightarrow> \<not> moves p"
    using inv r unfolding split_inv_def g_def by blast+
  show "g = filter (\<lambda>n. n \<in> set g) xs" unfolding g_def by (intro filter_cong) auto
  have dom: "q \<in> set xs" if "sr q = Some r" for q using that inv unfolding split_inv_def by blast
  assume "n \<in> set g"
  then have "sr n = Some r" by (simp add: g_def)
  then have "n = r \<or> (\<exists>p. parent_of n = Some p \<and> sr p = Some r)" using inv unfolding split_inv_def by blast
  then show "n = r \<or> (\<exists>p. parent_of n = Some p \<and> p \<in> set g)" using dom by (auto simp: g_def)
qed

lemma split_inv_unique:
  assumes inv: "split_inv parent_of moves xs sr" and n: "n \<in> set xs"
  shows "moves n \<longleftrightarrow> (\<exists>!rg. rg \<in> set (groups_of xs sr) \<and> n \<in> set (snd rg))"
proof
  assume "moves n"
  then obtain r where r: "sr n = Some r" using n inv unfolding split_inv_def by blast
  then have rr: "sr r = Some r" "r \<in> set xs" using inv unfolding split_inv_def by blast+
  let ?rg = "(r, filter (\<lambda>n. sr n = Some r) xs)"
  have "?rg \<in> set (groups_of xs sr) \<and> n \<in> set (snd ?rg)" using rr r n by (simp add: groups_of_def)
  moreover have "rg = ?rg" if mem: "rg \<in> set (groups_of xs sr) \<and> n \<in> set (snd rg)" for rg
  proof -
    obtain k where "rg = (k, filter (\<lambda>n. sr n = Some k) xs)" using mem by (auto simp: groups_of_def)
    then show ?thesis using mem r by simp
  qed
  ultimately show "\<exists>!rg. rg \<in> set (groups_of xs sr) \<and> n \<in> set (snd rg)" by blast
next
  assume "\<exists>!rg. rg \<in> set (groups_of xs sr) \<and> n \<in> set (snd rg)"
  then obtain rg where "rg \<in> set (groups_of xs sr)" "n \<in> set (snd rg)" by blast
  then have "sr n \<noteq> None" by (auto simp: groups_of_def)
  then show "moves n" using inv unfolding split_inv_def by blast
qed

section \<open>Budget and scopes\<close>

lemma budget_loop_prefix: "\<exists>rest. ts = budget_loop f b s ts @ rest"
  by (induction f b s ts rule: budget_loop.induct) auto

lemma budget_loop_spent:
  assumes "budget_loop f b s ts = xs @ [t]"
  shows "s + sum_list (map f xs) < b"
  using assms
proof (induction f b s ts arbitrary: xs rule: budget_loop.induct)
  case (2 f b s t' ts)
  then have lt: "s < b" and eq: "t' # budget_loop f b (s + f t') ts = xs @ [t]" by (auto split: if_splits)
  show ?case
  proof (cases xs)
    case Nil
    then show ?thesis using lt by simp
  next
    case (Cons x xs')
    then have "t' = x" "budget_loop f b (s + f t') ts = xs' @ [t]" using eq by auto
    then show ?thesis using "2.IH" [of xs'] lt Cons by simp
  qed
qed simp

lemma budget_loop_stops:
  assumes "ts = budget_loop f b s ts @ rest" "rest \<noteq> []"
  shows "b \<le> s + sum_list (map f (budget_loop f b s ts))"
  using assms
proof (induction f b s ts rule: budget_loop.induct)
  case (2 f b s t ts)
  show ?case
  proof (cases "s \<ge> b")
    case False
    then have "ts = budget_loop f b (s + f t) ts @ rest" using "2.prems"(1) by auto
    from "2.IH" [OF False this "2.prems"(2)] show ?thesis using False by (simp add: add.assoc)
  qed simp
qed simp

lemma scope_conflict_None:
  "scope_conflict ids claims rec jobs = None \<Longrightarrow> j \<in> set jobs \<Longrightarrow>
     set ids \<inter> set (aj_reserved_ids j) = {}
     \<and> ((rec \<or> aj_recurring j) \<longrightarrow> \<not> descriptors_overlap claims (aj_claims j))"
  by (induction jobs) (auto simp: scopes_overlap_def list_ex_iff split: if_splits)

text \<open>Jobs are admitted one at a time, each against the active ones.\<close>

fun admitted :: "active_job list \<Rightarrow> bool" where
  "admitted [] = True"
| "admitted (j # js) =
     (scope_conflict (aj_reserved_ids j) (aj_claims j) (aj_recurring j) js = None \<and> admitted js)"

section \<open>Properties\<close>

text \<open>C11: The walk of a backing chain ends, in topological order. When the disks below a root stay inside
  some finite set, cyclic or not, the walk returns: the root first, every disk reachable from it
  exactly once and no other, and every disk after some disk it is a derivative of.\<close>

theorem walk_tree_topo_total:
  assumes "finite R" "r \<in> R" "\<forall>x \<in> R. set (gc x) \<subseteq> R"
  shows "\<exists>t. walk_tree_topo r gc = Some (r # t) \<and> distinct (r # t) \<and> set (r # t) = reachable gc r
     \<and> (\<forall>i < length t. \<exists>p \<in> set (take (Suc i) (r # t)). t ! i \<in> set (gc p))"
proof -
  let ?q = "filter (\<lambda>c. c \<notin> set ([] @ [r])) (gc r)"
  have inv: "queue_inv gc r ?q []" by (auto simp: queue_inv_def)
  have sub: "set ?q \<union> set (r # []) \<subseteq> R" using assms(2,3) by auto
  obtain t where t: "walk_loop gc ?q (r # []) = Some (r # t)" "queue_inv gc r [] t"
    using walk_loop_total [OF assms(1,3) sub inv] by auto
  have "walk_tree_topo r gc = walk_loop gc ?q (r # [])"
    unfolding walk_tree_topo_def by (subst walk_loop.simps) simp
  moreover have "\<exists>p \<in> set (take (Suc i) (r # t)). t ! i \<in> set (gc p)" if "i < length t" for i
    using linked_nth [of gc "{r}" t i] t(2) that by (simp add: queue_inv_def)
  moreover have "distinct (r # t)" using t(2) by (simp only: queue_inv_def)
  ultimately show ?thesis using t queue_inv_reachable [OF t(2)] by auto
qed

definition sample_children :: "string \<Rightarrow> string list" where
  "sample_children n = (if n = ''base'' then [''a'', ''b''] else if n = ''a'' then [''c'', ''base''] else [])"

theorem walk_tree_topo_total_witness:
  "\<exists>t. walk_tree_topo ''base'' sample_children = Some (''base'' # t) \<and> distinct (''base'' # t)"
  using walk_tree_topo_total [of "set [''base'', ''a'', ''b'', ''c'']" "''base''" sample_children]
  by (auto simp: sample_children_def)

text \<open>C31: Splitting a tree into the subtrees that move. For a chain walked parents first, the groups
  partition the moving disks: each moving disk is in exactly one group, each group lists its disks
  in walk order starting with its root, the parent of any other disk of the group is in the group
  too, and the root's own parent does not move.\<close>

theorem split_moving_subtrees_partition:
  assumes "distinct xs" "parents_first parent_of xs"
  shows "(\<forall>n \<in> set xs. moves n \<longleftrightarrow> (\<exists>!rg. rg \<in> set (split_moving_subtrees xs parent_of moves) \<and> n \<in> set (snd rg)))
     \<and> (\<forall>rg \<in> set (split_moving_subtrees xs parent_of moves).
          hd (snd rg) = fst rg \<and> snd rg = filter (\<lambda>n. n \<in> set (snd rg)) xs
          \<and> (\<forall>p. parent_of (fst rg) = Some p \<longrightarrow> \<not> moves p)
          \<and> (\<forall>n \<in> set (snd rg). n = fst rg \<or> (\<exists>p. parent_of n = Some p \<and> p \<in> set (snd rg))))"
proof -
  obtain sr where gs: "split_moving_subtrees xs parent_of moves = groups_of xs sr"
    and inv: "split_inv parent_of moves xs sr"
    using split_loop_inv [OF assms, of moves] by (auto simp: split_moving_subtrees_def)
  have "hd (snd rg) = fst rg \<and> snd rg = filter (\<lambda>n. n \<in> set (snd rg)) xs
        \<and> (\<forall>p. parent_of (fst rg) = Some p \<longrightarrow> \<not> moves p)
        \<and> (\<forall>n \<in> set (snd rg). n = fst rg \<or> (\<exists>p. parent_of n = Some p \<and> p \<in> set (snd rg)))"
    if mem: "rg \<in> set (groups_of xs sr)" for rg
  proof -
    obtain r where r: "rg = (r, filter (\<lambda>n. sr n = Some r) xs)" "sr r = Some r"
      using mem by (auto simp: groups_of_def)
    show ?thesis
      unfolding r(1) fst_conv snd_conv using split_inv_group [OF inv r(2)] by blast
  qed
  then show ?thesis unfolding gs using split_inv_unique [OF inv] by blast
qed

definition sample_parent :: "string \<Rightarrow> string option" where
  "sample_parent n = (if n = ''base'' then None else if n = ''c'' then Some ''a'' else Some ''base'')"

theorem split_moving_subtrees_partition_witness:
  "split_moving_subtrees [''base'', ''a'', ''b'', ''c''] sample_parent (\<lambda>n. n \<noteq> ''base'')
     = [(''a'', [''a'', ''c'']), (''b'', [''b''])]
   \<and> (\<exists>!rg. rg \<in> set (split_moving_subtrees [''base'', ''a'', ''b'', ''c''] sample_parent (\<lambda>n. n \<noteq> ''base''))
          \<and> ''c'' \<in> set (snd rg))"
proof -
  let ?xs = "[''base'', ''a'', ''b'', ''c'']"
  have d: "distinct ?xs" by simp
  have p: "parents_first sample_parent ?xs"
    by (auto simp: parents_first_def sample_parent_def less_Suc_eq numeral_eq_Suc)
  have v: "split_moving_subtrees ?xs sample_parent (\<lambda>n. n \<noteq> ''base'') = [(''a'', [''a'', ''c'']), (''b'', [''b''])]"
    by code_simp
  show ?thesis using v split_moving_subtrees_partition [OF d p, of "\<lambda>n. n \<noteq> ''base''"] by simp
qed

text \<open>The budget preview. With a positive budget the trees that fit are a prefix of the ordered trees;
  all of them but the last stay strictly below the budget, so only the last may overshoot, and a
  tree is left out only when the trees before it have spent the budget.\<close>

theorem budget_prefix_exact:
  assumes "0 < budget"
  shows "\<exists>rest. ts = budget_prefix ts bytes_of budget @ rest
     \<and> (budget_prefix ts bytes_of budget \<noteq> [] \<longrightarrow>
          sum_list (map bytes_of (butlast (budget_prefix ts bytes_of budget))) < budget)
     \<and> (rest \<noteq> [] \<longrightarrow> budget \<le> sum_list (map bytes_of (budget_prefix ts bytes_of budget)))"
proof -
  have b: "budget_prefix ts bytes_of budget = budget_loop bytes_of budget 0 ts" using assms by (simp add: budget_prefix_def)
  obtain rest where rest: "ts = budget_loop bytes_of budget 0 ts @ rest" using budget_loop_prefix by blast
  have "sum_list (map bytes_of (butlast (budget_loop bytes_of budget 0 ts))) < budget"
    if "budget_loop bytes_of budget 0 ts \<noteq> []"
    using budget_loop_spent [of bytes_of budget 0 ts] that by (metis add_0 append_butlast_last_id)
  then show ?thesis
    unfolding b using rest budget_loop_stops [OF rest] by (metis add_0)
qed

theorem budget_prefix_exact_witness:
  "budget_prefix [1, 2, 3] (\<lambda>n. n * 10) 31 = [1, 2, 3 :: int] \<and> budget_prefix [1, 2, 3] (\<lambda>n. n * 10) 30 = [1, 2 :: int]
   \<and> (\<exists>rest. [1, 2, 3 :: int] = budget_prefix [1, 2, 3] (\<lambda>n. n * 10) 30 @ rest)"
  using budget_prefix_exact [of 30 "[1, 2, 3 :: int]" "\<lambda>n. n * 10"]
  by (auto simp: budget_prefix_def)



end
