(* ===== verification/Migration_Window.thy ===== *)
theory Migration_Window
  imports Migration_Ledger
begin

text \<open>
  When a migration may work: the maintenance window, its weekday schedule and the estimates of
  \<open>lib/storage/migration.py\<close>, with the admission of trees and the job status at the end of a tick.
  Times of day are minutes since midnight, weekdays are 0 (Monday) to 6; a calendar date is its day
  number, which \<open>isoformat\<close> prints one-to-one.
\<close>

section \<open>The daily window\<close>

definition window_hhmm :: "string option \<Rightarrow> int option" where
  "window_hhmm val =
     (if \<not> truthy_str val then None
      else (case split_on (CHR '':'') (the val) of
              [hs, ms] \<Rightarrow>
                (case (py_int_str hs, py_int_str ms) of
                   (Some h, Some m) \<Rightarrow> if 0 \<le> h \<and> h < 24 \<and> 0 \<le> m \<and> m < 60 then Some (h * 60 + m) else None
                 | _ \<Rightarrow> None)
            | _ \<Rightarrow> None))"

definition window_is_open :: "int option \<Rightarrow> int option \<Rightarrow> int \<Rightarrow> bool" where
  "window_is_open start_min end_min now_min =
     (case (start_min, end_min) of
        (Some s, Some e) \<Rightarrow>
          if s = e then True
          else if s < e then s \<le> now_min \<and> now_min < e
          else now_min \<ge> s \<or> now_min < e
      | _ \<Rightarrow> True)"

definition window_remaining_seconds :: "int option \<Rightarrow> int option \<Rightarrow> int \<Rightarrow> pyfloat" where
  "window_remaining_seconds start_min end_min now_min =
     (case (start_min, end_min) of
        (Some s, Some e) \<Rightarrow>
          if s = e then PInf
          else if \<not> window_is_open start_min end_min now_min then Fin 0
          else Fin (of_int ((if e > now_min then e - now_min else (24 * 60 - now_min) + e) * 60))
      | _ \<Rightarrow> PInf)"

section \<open>Weekdays\<close>

definition normalize_days :: "int list \<Rightarrow> int list option" where
  "normalize_days days =
     (let out = filter (\<lambda>d. 0 \<le> d \<and> d \<le> 6) days in if out = [] then None else Some out)"

definition overnight_tail :: "int option \<Rightarrow> int option \<Rightarrow> int \<Rightarrow> bool" where
  "overnight_tail start_min end_min now_min =
     (case (start_min, end_min) of (Some s, Some e) \<Rightarrow> s > e \<and> now_min < e | _ \<Rightarrow> False)"

definition occurrence_weekday :: "int option \<Rightarrow> int option \<Rightarrow> int \<Rightarrow> int \<Rightarrow> int" where
  "occurrence_weekday start_min end_min weekday now_min =
     (if overnight_tail start_min end_min now_min then (weekday - 1) mod 7 else weekday)"

definition window_is_open_days :: "int option \<Rightarrow> int option \<Rightarrow> int list \<Rightarrow> int option \<Rightarrow> int \<Rightarrow> bool" where
  "window_is_open_days start_min end_min days weekday now_min =
     (if \<not> window_is_open start_min end_min now_min then False
      else (case (normalize_days days, weekday) of
              (Some dset, Some wd) \<Rightarrow> occurrence_weekday start_min end_min wd now_min \<in> set dset
            | _ \<Rightarrow> True))"

definition window_remaining_seconds_days ::
  "int option \<Rightarrow> int option \<Rightarrow> int list \<Rightarrow> int option \<Rightarrow> int \<Rightarrow> pyfloat" where
  "window_remaining_seconds_days start_min end_min days weekday now_min =
     (if \<not> window_is_open_days start_min end_min days weekday now_min then Fin 0
      else window_remaining_seconds start_min end_min now_min)"

text \<open>The key of the occurrence in progress: the day it started on.\<close>

definition occurrence_key :: "int \<Rightarrow> int \<Rightarrow> int option \<Rightarrow> int option \<Rightarrow> int" where
  "occurrence_key day now_min start_min end_min =
     (if overnight_tail start_min end_min now_min then day - 1 else day)"

fun scan_days :: "int list option \<Rightarrow> int \<Rightarrow> int \<Rightarrow> int \<Rightarrow> nat list \<Rightarrow> int option" where
  "scan_days dset open_at wd0 now_min [] = None"
| "scan_days dset open_at wd0 now_min (k # ks) =
     (let wd = (wd0 + int k) mod 7; delta = int k * 1440 + open_at - now_min
      in if (case dset of None \<Rightarrow> False | Some ds \<Rightarrow> wd \<notin> set ds) then scan_days dset open_at wd0 now_min ks
         else if delta > 0 then Some (delta * 60)
         else scan_days dset open_at wd0 now_min ks)"

definition next_occurrence_seconds ::
  "int option \<Rightarrow> int option \<Rightarrow> int list \<Rightarrow> int option \<Rightarrow> int \<Rightarrow> int option" where
  "next_occurrence_seconds start_min end_min days weekday now_min =
     (let dset = normalize_days days; no_time = (start_min = None \<or> end_min = None)
      in if no_time \<and> dset = None then None
         else if window_is_open_days start_min end_min days weekday now_min then Some 0
         else scan_days dset (case start_min of None \<Rightarrow> 0 | Some s \<Rightarrow> s)
                (case weekday of None \<Rightarrow> 0 | Some w \<Rightarrow> w) now_min [0..<8])"

record migration_window =
  mw_start :: "string option"
  mw_end :: "string option"
  mw_days :: "int list"

definition next_run_for_window :: "migration_window option \<Rightarrow> int \<Rightarrow> int \<Rightarrow> int option" where
  "next_run_for_window window weekday now_min =
     (case window of
        None \<Rightarrow> None
      | Some w \<Rightarrow> next_occurrence_seconds (window_hhmm (mw_start w)) (window_hhmm (mw_end w)) (mw_days w)
                    (Some weekday) now_min)"

section \<open>Estimates and admission\<close>

definition ewma_update :: "rat option \<Rightarrow> rat option \<Rightarrow> rat \<Rightarrow> rat option" where
  "ewma_update prev sample alpha =
     (case sample of
        None \<Rightarrow> prev
      | Some s \<Rightarrow> if s \<le> 0 then prev
                  else (case prev of
                          None \<Rightarrow> Some s
                        | Some p \<Rightarrow> if p \<le> 0 then Some s else Some (alpha * s + (1 - alpha) * p)))"

definition tree_eta_seconds :: "int \<Rightarrow> rat option \<Rightarrow> rat option" where
  "tree_eta_seconds bytes_remaining mbps =
     (case mbps of
        None \<Rightarrow> None
      | Some v \<Rightarrow> if v \<le> 0 then None
                  else if bytes_remaining \<le> 0 then Some 0
                  else Some (of_int bytes_remaining / (v * 1000000)))"

record job_rate =
  jr_at :: "rat option"
  jr_bytes_done :: int
  jr_active :: bool
  jr_bytes :: int
  jr_seconds :: rat

definition job_rate_update :: "job_rate \<Rightarrow> int \<Rightarrow> bool \<Rightarrow> rat \<Rightarrow> job_rate" where
  "job_rate_update st bytes_done active now =
     (let st' = (case jr_at st of
                   Some t \<Rightarrow> if jr_active st
                              then st\<lparr>jr_seconds := jr_seconds st + max 0 (now - t),
                                      jr_bytes := jr_bytes st + max 0 (bytes_done - jr_bytes_done st)\<rparr>
                              else st
                 | None \<Rightarrow> st)
      in st'\<lparr>jr_at := Some now, jr_bytes_done := bytes_done, jr_active := active\<rparr>)"

fun max_opt :: "rat list \<Rightarrow> rat option" where
  "max_opt [] = None"
| "max_opt (x # xs) = Some (foldl max x xs)"

definition job_eta_seconds :: "job_rate \<Rightarrow> rat list \<Rightarrow> int \<Rightarrow> rat option" where
  "job_eta_seconds st ewma bytes_remaining =
     (if jr_seconds st \<ge> 60 \<and> jr_bytes st > 0
      then Some (if bytes_remaining \<le> 0 then 0 else of_int bytes_remaining * jr_seconds st / of_int (jr_bytes st))
      else tree_eta_seconds bytes_remaining (max_opt ewma))"

definition tree_admitted :: "rat option \<Rightarrow> rat option \<Rightarrow> pyfloat \<Rightarrow> rat \<Rightarrow> bool" where
  "tree_admitted tree_eta_s max_disk_eta_s remaining_window_s task_timeout =
     (if (case max_disk_eta_s of None \<Rightarrow> False | Some m \<Rightarrow> m > task_timeout) then False
      else (case tree_eta_s of None \<Rightarrow> True | Some eta \<Rightarrow> float_ge remaining_window_s (Fin eta)))"

datatype tree_phase_t = Done | Not_started | In_flight

definition TERMINAL_STATES :: "item_state list" where
  "TERMINAL_STATES = [RELEASED, SKIPPED, FAILED, QUARANTINED]"

definition tree_phase :: "item_state list \<Rightarrow> tree_phase_t" where
  "tree_phase states =
     (if list_all (\<lambda>s. s \<in> set TERMINAL_STATES) states then Done
      else if list_all (\<lambda>s. s = PENDING) states then Not_started
      else In_flight)"

definition admission_slots :: "tree_phase_t list \<Rightarrow> int \<Rightarrow> int" where
  "admission_slots tree_phases parallelism =
     (let p = max 1 (if parallelism = 0 then 1 else parallelism);
          in_flight = int (length (filter (\<lambda>ph. ph = In_flight) tree_phases))
      in max 0 (p - in_flight))"

section \<open>Job status\<close>

definition cancel_target :: "migration_status \<Rightarrow> migration_status" where
  "cancel_target status =
     (if status \<in> set [J_RUNNING, J_WINDOW_CLOSED, J_PAUSED, J_FINISHING_TREE, J_SCHEDULED, J_BUDGET_REACHED]
      then J_FINISHING_TREE else J_CANCELED)"

definition TERMINAL_STATUSES :: "migration_status list" where
  "TERMINAL_STATUSES = [J_COMPLETED, J_COMPLETED_WITH_SKIPS, J_FAILED, J_CANCELED]"

definition admin_action_allowed :: "migration_status \<Rightarrow> string \<Rightarrow> string option \<Rightarrow> bool" where
  "admin_action_allowed status action pause_reason =
     (if status \<in> set TERMINAL_STATUSES then False
      else if action = ''start'' then status \<noteq> J_RUNNING \<and> status \<noteq> J_FINISHING_TREE
      else if action = ''pause''
      then (status = J_RUNNING \<or> status = J_WINDOW_CLOSED
            \<or> (status = J_PAUSED \<and> (pause_reason = Some ''load'' \<or> pause_reason = Some ''space'')))
      else action = ''cancel'')"

definition recurring_status_target ::
  "bool \<Rightarrow> bool \<Rightarrow> bool \<Rightarrow> bool \<Rightarrow> bool \<Rightarrow> bool \<Rightarrow> bool \<Rightarrow> migration_status option" where
  "recurring_status_target is_complete any_in_flight win_open finishing any_failed recurring any_skipped =
     (if finishing then (if is_complete then Some J_CANCELED else None)
      else if recurring
      then (if is_complete then Some J_SCHEDULED
            else Some (if win_open \<or> any_in_flight then J_RUNNING else J_SCHEDULED))
      else if is_complete
      then (if any_failed then Some J_FAILED
            else Some (if any_skipped then J_COMPLETED_WITH_SKIPS else J_COMPLETED))
      else None)"

definition budget_allows_new_tree :: "int \<Rightarrow> int \<Rightarrow> bool" where
  "budget_allows_new_tree bytes_moved max_bytes \<longleftrightarrow> max_bytes = 0 \<or> bytes_moved < max_bytes"

definition should_rescan :: "string \<Rightarrow> int option \<Rightarrow> int option \<Rightarrow> bool \<Rightarrow> bool \<Rightarrow> bool" where
  "should_rescan cadence occ last_occurrence is_drained window_open =
     (if \<not> window_open then False
      else (let is_edge = (occ \<noteq> last_occurrence)
            in if cadence = ''edge_on_drain'' \<or> cadence = ''continuous'' then is_edge \<or> is_drained else is_edge))"

section \<open>The window as a set of minutes\<close>

text \<open>
  On a running minute count \<open>t\<close> (day \<open>t div 1440\<close>, minute \<open>t mod 1440\<close>) the window is open exactly during
  the occurrences: the one of day \<open>D\<close> starts at \<open>D * 1440 + s\<close> and lasts \<open>(e - s) mod 1440\<close> minutes.
\<close>

definition in_occurrence :: "int \<Rightarrow> int \<Rightarrow> int \<Rightarrow> int \<Rightarrow> bool" where
  "in_occurrence s e D t \<longleftrightarrow> D * 1440 + s \<le> t \<and> t < D * 1440 + s + (e - s) mod 1440"

definition day_selected :: "int list \<Rightarrow> int \<Rightarrow> bool" where
  "day_selected days D = (case normalize_days days of None \<Rightarrow> True | Some ds \<Rightarrow> D mod 7 \<in> set ds)"

lemma window_length:
  assumes "0 \<le> s" "s < 1440" "0 \<le> e" "e < 1440" "s \<noteq> e"
  shows "(e - s) mod 1440 = (if s < e then e - s else e - s + (1440 :: int))"
proof (cases "s < e")
  case False
  have "(e - s) mod 1440 = (e - s + 1440) mod 1440" by simp
  also have "\<dots> = e - s + 1440" using False assms by (intro mod_pos_pos_trivial) linarith+
  finally show ?thesis using False by simp
qed (use assms in simp)

lemma in_occurrence_iff:
  assumes "0 \<le> s" "s < 1440" "0 \<le> e" "e < 1440" "s \<noteq> e" "0 \<le> m" "m < 1440"
  shows "in_occurrence s e D (d * 1440 + m) \<longleftrightarrow>
     (if s < e then D = d \<and> s \<le> m \<and> m < e else (D = d \<and> s \<le> m) \<or> (D = d - 1 \<and> m < e))"
proof (cases "s < e")
  case True
  have "in_occurrence s e D (d * 1440 + m) \<longleftrightarrow> D * 1440 + s \<le> d * 1440 + m \<and> d * 1440 + m < D * 1440 + e"
    unfolding in_occurrence_def window_length [OF assms(1-5)] using True by simp
  also have "\<dots> \<longleftrightarrow> D = d \<and> s \<le> m \<and> m < e"
  proof
    assume b: "D * 1440 + s \<le> d * 1440 + m \<and> d * 1440 + m < D * 1440 + e"
    then have "D = d" using assms by linarith
    then show "D = d \<and> s \<le> m \<and> m < e" using b by simp
  qed simp
  finally show ?thesis using True by simp
next
  case False
  have "in_occurrence s e D (d * 1440 + m) \<longleftrightarrow> D * 1440 + s \<le> d * 1440 + m \<and> d * 1440 + m < D * 1440 + e + 1440"
    unfolding in_occurrence_def window_length [OF assms(1-5)] using False by (simp add: add.assoc)
  also have "\<dots> \<longleftrightarrow> (D = d \<and> s \<le> m) \<or> (D = d - 1 \<and> m < e)"
  proof
    assume b: "D * 1440 + s \<le> d * 1440 + m \<and> d * 1440 + m < D * 1440 + e + 1440"
    then have "D = d \<or> D = d - 1" using assms by linarith
    then show "(D = d \<and> s \<le> m) \<or> (D = d - 1 \<and> m < e)" using b by auto
  next
    assume "(D = d \<and> s \<le> m) \<or> (D = d - 1 \<and> m < e)"
    then show "D * 1440 + s \<le> d * 1440 + m \<and> d * 1440 + m < D * 1440 + e + 1440" using assms False by auto
  qed
  finally show ?thesis using False by simp
qed

lemma open_iff_occurrence:
  assumes "0 \<le> s" "s < 1440" "0 \<le> e" "e < 1440" "s \<noteq> e" "0 \<le> m" "m < 1440"
  shows "window_is_open_days (Some s) (Some e) days (Some (d mod 7)) m
     \<longleftrightarrow> (\<exists>D. day_selected days D \<and> in_occurrence s e D (d * 1440 + m))"
proof -
  have "window_is_open_days (Some s) (Some e) days (Some (d mod 7)) m \<longleftrightarrow>
      (if s < e then s \<le> m \<and> m < e \<and> day_selected days d
       else (m < e \<and> day_selected days (d - 1)) \<or> (s \<le> m \<and> day_selected days d))"
    using assms(1-5)
    by (auto simp: window_is_open_days_def window_is_open_def occurrence_weekday_def overnight_tail_def
        day_selected_def mod_diff_left_eq split: option.splits)
  also have "\<dots> \<longleftrightarrow> (\<exists>D. day_selected days D \<and> in_occurrence s e D (d * 1440 + m))"
    unfolding in_occurrence_iff [OF assms] by auto
  finally show ?thesis .
qed

definition opens_on :: "int list \<Rightarrow> int \<Rightarrow> int \<Rightarrow> int \<Rightarrow> nat \<Rightarrow> bool" where
  "opens_on days s d m k \<longleftrightarrow> 0 < int k * 1440 + s - m \<and> day_selected days (d + int k)"

lemma scan_days_find:
  "scan_days (normalize_days days) s (d mod 7) m ks =
     map_option (\<lambda>k. (int k * 1440 + s - m) * 60) (List.find (opens_on days s d m) ks)"
  by (induction ks) (auto simp: Let_def opens_on_def day_selected_def mod_add_left_eq split: option.splits)

lemma some_day_selected: "\<exists>k<7. day_selected days (d + int k)"
proof (cases "normalize_days days")
  case (Some ds)
  then obtain x where x: "x \<in> set ds" "0 \<le> x" "x \<le> 6"
    by (auto simp: normalize_days_def Let_def filter_empty_conv split: if_splits)
  let ?k = "nat ((x - d) mod 7)"
  have "int ?k = (x - d) mod 7" "?k < 7" by (simp_all add: nat_less_iff)
  then have "(d + int ?k) mod 7 = x" using x by (simp add: mod_add_right_eq)
  then show ?thesis using Some x \<open>?k < 7\<close> by (auto simp: day_selected_def intro!: exI [of _ ?k])
qed (auto simp: day_selected_def intro: exI [of _ 0])

lemma find_opening:
  assumes "0 \<le> s" "s < 1440" "0 \<le> m" "m < 1440"
  obtains k where "List.find (opens_on days s d m) [0..<8] = Some k" "opens_on days s d m k"
    "\<And>j. j < k \<Longrightarrow> \<not> opens_on days s d m j"
proof -
  obtain j where j: "j < 7" "day_selected days (d + 1 + int j)" using some_day_selected by metis
  then have "opens_on days s d m (Suc j)" using assms by (simp add: opens_on_def add.assoc)
  then have "List.find (opens_on days s d m) [0..<8] \<noteq> None"
    using j(1) by (auto simp: find_None_iff intro!: exI [of _ "Suc j"])
  then obtain k where k: "List.find (opens_on days s d m) [0..<8] = Some k" by blast
  then obtain i where i: "i < length [0..<8]" "opens_on days s d m ([0..<8] ! i)" "k = [0..<8] ! i"
      "\<forall>j<i. \<not> opens_on days s d m ([0..<8] ! j)"
    using find_Some_iff [of "opens_on days s d m" "[0..<8]" k] by metis
  then have "k = i" by simp
  with i have "opens_on days s d m k" by simp
  moreover have "\<not> opens_on days s d m j" if "j < k" for j
  proof -
    have "j < i" "[0..<8] ! j = j" using that i(1) \<open>k = i\<close> by simp_all
    then show ?thesis using i(4) by metis
  qed
  ultimately show thesis using that k by blast
qed

section \<open>Properties\<close>

text \<open>The announced next run is exact. For a window with two different bounds, on any day and minute:
  the answer is 0 exactly when the window is open; otherwise it is a positive number of minutes
  after which the window is open, and at no minute before that is it open.\<close>

theorem next_occurrence_exact:
  assumes "0 \<le> s" "s < 1440" "0 \<le> e" "e < 1440" "s \<noteq> e" "0 \<le> m" "m < 1440"
  shows "\<exists>r \<ge> 0. next_occurrence_seconds (Some s) (Some e) days (Some (d mod 7)) m = Some (r * 60)
     \<and> window_is_open_days (Some s) (Some e) days (Some ((d * 1440 + m + r) div 1440 mod 7)) ((d * 1440 + m + r) mod 1440)
     \<and> (\<forall>j. 0 \<le> j \<and> j < r \<longrightarrow>
          \<not> window_is_open_days (Some s) (Some e) days (Some ((d * 1440 + m + j) div 1440 mod 7)) ((d * 1440 + m + j) mod 1440))"
proof (cases "window_is_open_days (Some s) (Some e) days (Some (d mod 7)) m")
  case True
  have "next_occurrence_seconds (Some s) (Some e) days (Some (d mod 7)) m = Some (0 * 60)"
    using True by (simp add: next_occurrence_seconds_def)
  moreover have "(d * 1440 + m) div 1440 = d" "(d * 1440 + m) mod 1440 = m" using assms by simp_all
  moreover have "\<not> (0 \<le> j \<and> j < (0 :: int))" for j by simp
  ultimately show ?thesis using True by (intro exI [of _ 0]) (simp only: add_0_right order_refl simp_thms)
next
  case False
  have open_at: "window_is_open_days (Some s) (Some e) days (Some (t div 1440 mod 7)) (t mod 1440)
      \<longleftrightarrow> (\<exists>D. day_selected days D \<and> in_occurrence s e D t)" for t
    using open_iff_occurrence [OF assms(1-5), of "t mod 1440" days "t div 1440"] by simp
  obtain k where k: "List.find (opens_on days s d m) [0..<8] = Some k" "opens_on days s d m k"
    "\<And>j. j < k \<Longrightarrow> \<not> opens_on days s d m j" using find_opening [OF assms(1,2,6,7)] by metis
  let ?r = "int k * 1440 + s - m" and ?T = "d * 1440 + m"
  have r: "0 < ?r" "day_selected days (d + int k)" using k(2) by (simp_all add: opens_on_def)
  have closed: "\<not> (\<exists>D. day_selected days D \<and> in_occurrence s e D ?T)"
    using False open_iff_occurrence [OF assms] by simp
  have "next_occurrence_seconds (Some s) (Some e) days (Some (d mod 7)) m = Some (?r * 60)"
    using False k(1) by (simp add: next_occurrence_seconds_def scan_days_find del: upt_rec_numeral)
  moreover have "in_occurrence s e (d + int k) (?T + ?r)"
    unfolding in_occurrence_def window_length [OF assms(1-5)] using assms(1-5) by (simp add: algebra_simps)
  moreover have "\<not> (\<exists>D. day_selected days D \<and> in_occurrence s e D (?T + j))" if "0 \<le> j" "j < ?r" for j
  proof
    assume "\<exists>D. day_selected days D \<and> in_occurrence s e D (?T + j)"
    then obtain D where D: "day_selected days D" "D * 1440 + s \<le> ?T + j" "?T + j < D * 1440 + s + (e - s) mod 1440"
      by (auto simp: in_occurrence_def)
    have "\<not> in_occurrence s e D ?T" using closed D(1) by blast
    then have after: "?T < D * 1440 + s" using D that(1) by (auto simp: in_occurrence_def)
    then have "d \<le> D" using assms by linarith
    moreover have "D < d + int k" using D(2) that(2) by linarith
    ultimately have "opens_on days s d m (nat (D - d))" "nat (D - d) < k"
      using after D(1) by (simp_all add: opens_on_def algebra_simps)
    then show False using k(3) by blast
  qed
  ultimately show ?thesis unfolding open_at using r by (intro exI [of _ ?r]) auto
qed

theorem next_occurrence_exact_witness:
  "next_occurrence_seconds (Some 1320) (Some 360) [4] (Some 0) 600 = Some ((4 * 1440 + 1320 - 600) * 60)
   \<and> (\<exists>r \<ge> 0. next_occurrence_seconds (Some 1320) (Some 360) [4] (Some (0 mod 7)) 600 = Some (r * 60))"
proof -
  have "next_occurrence_seconds (Some 1320) (Some 360) [4] (Some 0) 600 = Some ((4 * 1440 + 1320 - 600) * 60)"
    by code_simp
  then show ?thesis using next_occurrence_exact [of 1320 360 600 "[4]" 0] by auto
qed

end
