(* ===== verification/Migration_Saga.thy ===== *)
theory Migration_Saga
  imports Migration_Window
begin

text \<open>
  The decision layer of a storage migration, \<open>lib/storage/migration.py\<close>: the next action of a disk and
  of a tree, the pre-release verify gate, what a failure and a new occurrence do to a tree, the
  configuration changes of a live job and the audit. A disk row is a record; the status lookup of a
  task is an argument, and \<open>None\<close> is an unknown task.
\<close>

section \<open>Disk rows\<close>

record audit_record =
  au_occurrence :: "string option"
  au_occurrence_time :: rat
  au_storage_id :: string
  au_kind :: item_kind
  au_tree_id :: string
  au_src_path :: string
  au_dst_path :: "string option"
  au_result :: string
  au_size_bytes :: int
  au_error :: "string option"
  au_started_at :: "rat option"
  au_finished_at :: "rat option"
  au_source_retained :: bool
  au_source_retained_path :: "string option"
  au_source_action :: "string option"
  au_source_action_reason :: "string option"
  au_dst_action :: "string option"
  au_dst_retained_path :: "string option"
  au_damaged :: bool
  au_damage_reason :: "string option"

record saga_item =
  sg_id :: string
  sg_storage_id :: string
  sg_tree_id :: string
  sg_topo_index :: nat
  sg_kind :: item_kind
  sg_state :: item_state
  sg_src_path :: string
  sg_dst_path :: "string option"
  sg_dst_dir :: "string option"
  sg_parent_storage_id :: "string option"
  sg_parent_dst_path :: "string option"
  sg_size_bytes :: int
  sg_preflight_task :: "string option"
  sg_move_task :: "string option"
  sg_rebase_task :: "string option"
  sg_verify_task :: "string option"
  sg_repair_task :: "string option"
  sg_move_delete_task :: "string option"
  sg_dst_task :: "string option"
  sg_verify_passed :: bool
  sg_dst_owned :: bool
  sg_recopy :: bool
  sg_repair_attempted :: bool
  sg_repair_action :: "string option"
  sg_repair_result :: "string option"
  sg_source_retained :: bool
  sg_source_retained_path :: "string option"
  sg_source_action :: "string option"
  sg_source_action_reason :: "string option"
  sg_dst_retained :: bool
  sg_dst_retained_path :: "string option"
  sg_dst_action :: "string option"
  sg_dst_action_reason :: "string option"
  sg_damaged :: bool
  sg_damage_reason :: "string option"
  sg_orig_status :: "string option"
  sg_maintenance_domains :: "string list option"
  sg_autostart_domains :: "(string \<times> bool) list option"
  sg_attempts :: nat
  sg_abandon_restarts :: nat
  sg_occurrence_failures :: nat
  sg_space_deferrals :: nat
  sg_error :: "string option"
  sg_move_started_at :: "rat option"
  sg_audit :: "audit_record list"

section \<open>The next action of a disk\<close>

datatype saga_action =
    Start_preflight | Destination_exists | Reconcile_pending | Start_move | Skip_move | Mark_moved
  | Start_rebase | Mark_rebased | Skip_rebase | Db_update | Start_verify | Mark_verified | Release
  | Skip_release | Mark_repaired | Repair_failed | Fail | Blocked | Wait | Noop | Tree_done

definition PHASE_A_DONE :: "item_state list" where
  "PHASE_A_DONE = [REBASED, REPAIRING, DB_UPDATED, RELEASED, SKIPPED, QUARANTINED]"

definition job_finished :: "string option \<Rightarrow> bool" where
  "job_finished status \<longleftrightarrow> status = Some ''finished''"

definition job_failed :: "string option \<Rightarrow> bool" where
  "job_failed status \<longleftrightarrow> status = Some ''failed'' \<or> status = Some ''stopped'' \<or> status = Some ''canceled''"

definition item_in_place :: "saga_item \<Rightarrow> bool" where
  "item_in_place it \<longleftrightarrow> truthy_str (sg_dst_path it) \<and> sg_dst_path it = Some (sg_src_path it)"

definition all_in_place :: "saga_item list \<Rightarrow> bool" where
  "all_in_place items \<longleftrightarrow> items \<noteq> [] \<and> list_all item_in_place items"

definition is_root :: "saga_item \<Rightarrow> bool" where
  "is_root it \<longleftrightarrow> sg_topo_index it = 0 \<or> \<not> truthy_str (sg_parent_dst_path it)"

type_synonym job_status_fn = "string option \<Rightarrow> string option"

definition decide_item_action :: "saga_item \<Rightarrow> job_status_fn \<Rightarrow> saga_action" where
  "decide_item_action it js =
     (case sg_state it of
        PENDING \<Rightarrow>
          if truthy_str (sg_move_task it) then Reconcile_pending
          else if item_in_place it then Skip_move
          else if \<not> truthy_str (sg_preflight_task it) then Start_preflight
          else (let st = js (sg_preflight_task it)
                in if job_failed st then Destination_exists
                   else if job_finished st then Start_move
                   else if st = None then Start_preflight
                   else Wait)
      | MOVING \<Rightarrow>
          (let st = js (sg_move_task it)
           in if job_finished st then Mark_moved
              else if job_failed st then Fail
              else if st = None then Start_move
              else Wait)
      | MOVED \<Rightarrow>
          if is_root it then Skip_rebase
          else if \<not> truthy_str (sg_rebase_task it) then Start_rebase
          else (let st = js (sg_rebase_task it)
                in if job_finished st then Mark_rebased
                   else if job_failed st then Fail
                   else if st = None then Start_rebase
                   else Wait)
      | _ \<Rightarrow> Noop)"

datatype gate = Gate_start | Gate_wait | Gate_fail | Gate_passed

definition verify_gate_state :: "saga_item \<Rightarrow> job_status_fn \<Rightarrow> gate" where
  "verify_gate_state it js =
     (if sg_verify_passed it then Gate_passed
      else if \<not> truthy_str (sg_verify_task it) then Gate_start
      else (let st = js (sg_verify_task it)
            in if job_finished st then Gate_passed
               else if job_failed st then Gate_fail
               else if st = None then Gate_start
               else Gate_wait))"

section \<open>The next action of a tree\<close>

text \<open>The gate over the moved disks: a failed one first, then one to start, to record, to wait for.\<close>

definition gate_action :: "job_status_fn \<Rightarrow> saga_item list \<Rightarrow> (saga_item \<times> saga_action) option" where
  "gate_action js rebased =
     (let gated = filter (\<lambda>it. \<not> item_in_place it) rebased
      in case List.find (\<lambda>it. verify_gate_state it js = Gate_fail) gated of
           Some it \<Rightarrow> Some (it, Fail)
         | None \<Rightarrow>
             (case List.find (\<lambda>it. verify_gate_state it js = Gate_start) gated of
                Some it \<Rightarrow> Some (it, Start_verify)
              | None \<Rightarrow>
                  (case List.find (\<lambda>it. verify_gate_state it js = Gate_passed \<and> \<not> sg_verify_passed it) gated of
                     Some it \<Rightarrow> Some (it, Mark_verified)
                   | None \<Rightarrow>
                       (case List.find (\<lambda>it. verify_gate_state it js = Gate_wait) gated of
                          Some it \<Rightarrow> Some (it, Wait)
                        | None \<Rightarrow> None))))"

definition repair_action :: "job_status_fn \<Rightarrow> saga_item \<Rightarrow> saga_action" where
  "repair_action js it =
     (let st = js (sg_repair_task it)
      in if job_failed st then Repair_failed else if job_finished st then Mark_repaired else Wait)"

definition tree_next :: "saga_item list \<Rightarrow> job_status_fn \<Rightarrow> saga_item option \<times> saga_action" where
  "tree_next tree_items js =
     (let items = sort_key sg_topo_index tree_items
      in if items \<noteq> [] \<and> list_all (\<lambda>it. sg_state it \<in> set TERMINAL_STATES) items then (None, Tree_done)
         else (case List.find (\<lambda>it. sg_state it \<notin> set PHASE_A_DONE) items of
                 Some it \<Rightarrow> if sg_state it = FAILED then (Some it, Blocked) else (Some it, decide_item_action it js)
               | None \<Rightarrow>
                   (case List.find (\<lambda>it. sg_state it = REPAIRING) items of
                      Some it \<Rightarrow> (Some it, repair_action js it)
                    | None \<Rightarrow>
                        (case gate_action js (filter (\<lambda>it. sg_state it = REBASED) items) of
                           Some (it, a) \<Rightarrow> (Some it, a)
                         | None \<Rightarrow>
                             (case filter (\<lambda>it. sg_state it = REBASED) items of
                                it # _ \<Rightarrow> (Some it, Db_update)
                              | [] \<Rightarrow>
                                  (case filter (\<lambda>it. sg_state it = DB_UPDATED) items of
                                     it # _ \<Rightarrow> (Some it, if item_in_place it then Skip_release else Release)
                                   | [] \<Rightarrow> (None, Tree_done)))))))"

definition PROGRESS_ACTIONS :: "saga_action list" where
  "PROGRESS_ACTIONS = [Reconcile_pending, Start_move, Skip_move, Mark_moved, Start_rebase, Mark_rebased,
     Skip_rebase, Db_update, Start_verify, Mark_verified, Release, Skip_release]"

definition tick_made_progress :: "(string \<times> string option \<times> saga_action) list \<Rightarrow> bool" where
  "tick_made_progress results \<longleftrightarrow> list_ex (\<lambda>(t, i, a). a \<in> set PROGRESS_ACTIONS) results"

definition drive_is_stalled :: "int \<Rightarrow> int \<Rightarrow> bool \<Rightarrow> bool \<Rightarrow> bool" where
  "drive_is_stalled active_count parallelism progressed awaiting \<longleftrightarrow>
     active_count \<ge> max 1 (if parallelism = 0 then 1 else parallelism) \<and> \<not> progressed \<and> \<not> awaiting"

definition quiesce_decision :: "string option \<Rightarrow> bool \<Rightarrow> string" where
  "quiesce_decision domain_status force_stop =
     (if domain_status \<in> {None, Some ''Stopped'', Some ''Failed'', Some ''Maintenance''} then ''ok''
      else if force_stop then ''force_stop'' else ''skip'')"

definition COMMITTED_STATES :: "item_state list" where
  "COMMITTED_STATES = [DB_UPDATED, RELEASED]"

definition tree_has_committed_disk :: "saga_item list \<Rightarrow> bool" where
  "tree_has_committed_disk tree_items \<longleftrightarrow> list_ex (\<lambda>it. sg_state it \<in> set COMMITTED_STATES) tree_items"

definition cancel_skips_tree :: "saga_item list \<Rightarrow> saga_action \<Rightarrow> bool \<Rightarrow> bool" where
  "cancel_skips_tree tree_items action finishing \<longleftrightarrow>
     finishing \<and> action \<in> set [Start_move, Start_rebase, Start_verify] \<and> \<not> tree_has_committed_disk tree_items"

section \<open>Autostart\<close>

text \<open>\<open>domains_of\<close> gives the domains of a disk with their live \<open>server_autostart\<close>.\<close>

definition autostart_item ::
  "(string \<Rightarrow> (string \<times> bool) list) \<Rightarrow> saga_item \<Rightarrow> (saga_item \<times> (string \<times> bool) list) list \<times> string list" where
  "autostart_item domains_of it =
     (case sg_autostart_domains it of
        None \<Rightarrow> (let doms = domains_of (sg_storage_id it) in ([(it, doms)], map fst (filter snd doms)))
      | Some recorded \<Rightarrow>
          (let candidates = map fst (filter snd recorded)
           in if candidates = [] then ([], [])
              else ([], filter (\<lambda>cid. map_of (rev (domains_of (sg_storage_id it))) cid = Some True) candidates)))"

definition plan_autostart_deactivation ::
  "saga_item list \<Rightarrow> (string \<Rightarrow> (string \<times> bool) list) \<Rightarrow> (saga_item \<times> (string \<times> bool) list) list \<times> string list" where
  "plan_autostart_deactivation items domains_of =
     (concat (map (\<lambda>it. fst (autostart_item domains_of it)) items),
      concat (map (\<lambda>it. snd (autostart_item domains_of it)) items))"

section \<open>Descendants, failures and new occurrences\<close>

definition add_child :: "string \<Rightarrow> string list \<times> string list \<Rightarrow> saga_item \<Rightarrow> string list \<times> string list" where
  "add_child sid acc child =
     (case acc of (stack, result) \<Rightarrow>
        if sg_parent_storage_id child = Some sid \<and> sg_id child \<notin> set result
        then (sg_storage_id child # stack, result @ [sg_id child]) else (stack, result))"

lemma add_child_mono: "set (snd acc) \<subseteq> set (snd (foldl (add_child sid) acc cs))"
proof (induction cs arbitrary: acc)
  case (Cons c cs)
  have "set (snd acc) \<subseteq> set (snd (add_child sid acc c))" by (auto simp: add_child_def split: prod.splits)
  then show ?case using Cons.IH [of "add_child sid acc c"] by simp
qed simp

lemma add_child_grows:
  "foldl (add_child sid) acc cs = acc
   \<or> (\<exists>x \<in> sg_id ` set cs. x \<notin> set (snd acc) \<and> x \<in> set (snd (foldl (add_child sid) acc cs)))"
proof (induction cs arbitrary: acc)
  case (Cons c cs)
  show ?case
  proof (cases "add_child sid acc c = acc")
    case True
    then show ?thesis using Cons.IH [of acc] by auto
  next
    case False
    then have "sg_id c \<notin> set (snd acc)" "sg_id c \<in> set (snd (add_child sid acc c))"
      by (auto simp: add_child_def split: prod.splits if_splits)
    then show ?thesis using add_child_mono [of "add_child sid acc c" sid cs] by auto
  qed
qed simp

text \<open>The stack's top is its head; \<open>pop\<close> takes the last child pushed.\<close>

function descend :: "saga_item list \<Rightarrow> string list \<Rightarrow> string list \<Rightarrow> string list" where
  "descend items [] result = result"
| "descend items (sid # stack) result =
     (let (stack', result') = foldl (add_child sid) (stack, result) items in descend items stack' result')"
  by pat_completeness auto

termination
proof (relation "measures [\<lambda>(items, stack, result). card (sg_id ` set items - set result), \<lambda>(items, stack, result). length stack]")
  fix items sid stack result x stack' result'
  assume x: "x = foldl (add_child sid) (stack, result) items" "(stack', result') = x"
  let ?m = "[\<lambda>(items, stack, result). card (sg_id ` set items - set result), \<lambda>(items, stack, result). length stack]"
  show "((items, stack', result'), items, sid # stack, result) \<in> measures ?m"
  proof (cases "x = (stack, result)")
    case True
    then show ?thesis using x(2) by simp
  next
    case False
    then obtain y where "y \<in> sg_id ` set items" "y \<notin> set result" "y \<in> set result'"
      using add_child_grows [of sid "(stack, result)" items] x by (metis snd_conv)
    moreover have "set result \<subseteq> set result'" using add_child_mono [of "(stack, result)" sid items] x by (metis snd_conv)
    ultimately have "card (sg_id ` set items - set result') < card (sg_id ` set items - set result)"
      by (intro psubset_card_mono) auto
    then show ?thesis by simp
  qed
qed simp

definition descendant_item_ids :: "saga_item list \<Rightarrow> string \<Rightarrow> bool \<Rightarrow> string list" where
  "descendant_item_ids items storage_id include_self =
     descend items [storage_id]
       (if include_self then map sg_id (filter (\<lambda>it. sg_storage_id it = storage_id) items) else [])"

definition plan_tree_failure ::
  "saga_item list \<Rightarrow> string \<Rightarrow> string option \<Rightarrow> (saga_item \<times> item_state \<times> string) list" where
  "plan_tree_failure tree_items failed_storage_id reason =
     (let descendants = descendant_item_ids tree_items failed_storage_id False
      in map (\<lambda>it. if sg_storage_id it = failed_storage_id
                    then (it, FAILED, if truthy_str reason then the reason else ''move/rebase task failed'')
                    else if sg_id it \<in> set descendants then (it, SKIPPED, ''ancestor disk failed'')
                    else (it, SKIPPED, ''tree abandoned after a disk in it failed''))
           (filter (\<lambda>it. sg_state it \<notin> set TERMINAL_STATES) tree_items))"

definition plan_tree_rearm ::
  "saga_item list \<Rightarrow> string \<Rightarrow> nat \<Rightarrow> (saga_item \<times> nat) list \<times> (saga_item \<times> nat) list" where
  "plan_tree_rearm tree_ledger policy quarantine_after =
     (if list_ex (\<lambda>it. sg_state it = QUARANTINED) tree_ledger then ([], [])
      else (let hits = map (\<lambda>it. (it, sg_occurrence_failures it + 1))
                  (filter (\<lambda>it. sg_state it = FAILED \<and> policy = ''retry_quarantine''
                                 \<and> sg_occurrence_failures it + 1 \<ge> quarantine_after) tree_ledger)
            in if hits \<noteq> [] then (hits, [])
               else ([], map (\<lambda>it. (it, if sg_state it = FAILED then sg_occurrence_failures it + 1 else 0))
                          (filter (\<lambda>it. sg_state it = FAILED \<or> sg_state it = SKIPPED) tree_ledger))))"

definition plan_tree_return :: "saga_item list \<Rightarrow> saga_item list" where
  "plan_tree_return tree_ledger =
     (if list_ex (\<lambda>it. sg_state it \<notin> {RELEASED, FAILED, SKIPPED}) tree_ledger then []
      else filter (\<lambda>it. sg_state it = RELEASED) tree_ledger)"

definition reserving_items :: "saga_item list \<Rightarrow> saga_item list" where
  "reserving_items items =
     (let open_trees = map sg_tree_id (filter (\<lambda>it. sg_state it \<notin> set SETTLED_ITEM_STATES) items)
      in filter (\<lambda>it. sg_state it \<noteq> RELEASED \<or> sg_tree_id it \<in> set open_trees) items)"

section \<open>Audit\<close>

definition occurrence_bytes_moved :: "saga_item list \<Rightarrow> string option \<Rightarrow> int" where
  "occurrence_bytes_moved items occurrence =
     sum_list (map (\<lambda>it. sum_list (map au_size_bytes
        (filter (\<lambda>rec. au_occurrence rec = occurrence \<and> au_result rec = ''moved_ok'') (sg_audit it)))) items)"

definition build_audit_record :: "saga_item \<Rightarrow> string \<Rightarrow> string option \<Rightarrow> rat \<Rightarrow> audit_record" where
  "build_audit_record it result occurrence now =
     \<lparr>au_occurrence = occurrence, au_occurrence_time = now, au_storage_id = sg_storage_id it, au_kind = sg_kind it,
      au_tree_id = sg_tree_id it, au_src_path = sg_src_path it, au_dst_path = sg_dst_path it, au_result = result,
      au_size_bytes = sg_size_bytes it, au_error = sg_error it, au_started_at = sg_move_started_at it,
      au_finished_at = Some now, au_source_retained = sg_source_retained it,
      au_source_retained_path = sg_source_retained_path it, au_source_action = sg_source_action it,
      au_source_action_reason = sg_source_action_reason it, au_dst_action = sg_dst_action it,
      au_dst_retained_path = sg_dst_retained_path it, au_damaged = sg_damaged it,
      au_damage_reason = sg_damage_reason it\<rparr>"

record audit_summary =
  as_records :: nat
  as_counts :: "(string \<times> int) list"
  as_bytes_moved :: int
  as_duration :: "rat option"
  as_occurrences :: nat

definition count_result :: "(string \<times> int) list \<Rightarrow> audit_record \<Rightarrow> (string \<times> int) list" where
  "count_result counts rec =
     alist_set (au_result rec) ((case map_of counts (au_result rec) of None \<Rightarrow> 0 | Some n \<Rightarrow> n) + 1) counts"

definition summarize_audit :: "audit_record list \<Rightarrow> audit_summary" where
  "summarize_audit records =
     (let starts = List.map_filter au_started_at records; finishes = List.map_filter au_finished_at records
      in \<lparr>as_records = length records, as_counts = foldl count_result [] records,
          as_bytes_moved = sum_list (map au_size_bytes (filter (\<lambda>rec. au_result rec = ''moved_ok'') records)),
          as_duration = (if starts \<noteq> [] \<and> finishes \<noteq> []
                         then Some (foldl max (hd finishes) (tl finishes) - foldl min (hd starts) (tl starts)) else None),
          as_occurrences = length (remdups (List.map_filter au_occurrence records))\<rparr>)"

section \<open>Task errors\<close>

fun find_str :: "string \<Rightarrow> string \<Rightarrow> string option" where
  "find_str needle s =
     (if take (length needle) s = needle then Some (drop (length needle) s)
      else (case s of [] \<Rightarrow> None | c # cs \<Rightarrow> find_str needle cs))"

definition DAMAGED_SOURCE_MARK :: string where
  "DAMAGED_SOURCE_MARK = ''migration: damaged source''"

definition strip_space_colon :: "string \<Rightarrow> string" where
  "strip_space_colon s =
     rev (dropWhile (\<lambda>c. c = CHR '' '' \<or> c = CHR '':'') (rev (dropWhile (\<lambda>c. c = CHR '' '' \<or> c = CHR '':'') s)))"

definition damage_from_reason :: "string option \<Rightarrow> string option" where
  "damage_from_reason reason =
     (case find_str DAMAGED_SOURCE_MARK (case reason of None \<Rightarrow> [] | Some r \<Rightarrow> r) of
        None \<Rightarrow> None
      | Some rest \<Rightarrow> (let t = strip_space_colon rest in Some (if t = [] then ''qemu-img check failed'' else t)))"

definition is_space_floor_refusal :: "string option \<Rightarrow> bool" where
  "is_space_floor_refusal reason =
     (let text = (case reason of None \<Rightarrow> [] | Some r \<Rightarrow> r)
      in find_str ''refusing to copy'' text \<noteq> None \<and> find_str ''byte floor'' text \<noteq> None
         \<and> find_str ''below the'' text \<noteq> None)"

definition task_error_line :: "string option \<Rightarrow> string option \<Rightarrow> string option" where
  "task_error_line exc_info fallback =
     (let ls = filter (\<lambda>l. l \<noteq> []) (map strip (splitlines (case exc_info of None \<Rightarrow> [] | Some e \<Rightarrow> e)))
      in if ls \<noteq> [] then Some (last ls) else fallback)"

section \<open>Configuration changes of a live job\<close>

definition CONFIG_FIELD_POLICY :: "(string \<times> string) list" where
  "CONFIG_FIELD_POLICY =
     [(''bwlimit_kbs'', ''hot''), (''parallelism'', ''hot''), (''window'', ''hot''), (''recurring'', ''hot''),
      (''rescan_cadence'', ''hot''), (''quarantine_after'', ''hot''), (''max_bytes_per_occurrence'', ''hot''),
      (''order'', ''hot''), (''usage_age_days'', ''hot''), (''include_never_used'', ''hot''), (''on_damaged'', ''hot''),
      (''min_free_bytes'', ''hot_weakening''), (''min_free_pct'', ''hot_weakening''),
      (''failure_policy'', ''hot_weakening''), (''force_stop_desktops'', ''hot_weakening''),
      (''source_disposition'', ''hot_weakening''), (''verify'', ''frozen''), (''load_policy'', ''hot'')]"

definition config_is_live :: "migration_status \<Rightarrow> bool" where
  "config_is_live status \<longleftrightarrow> status \<in> set [J_RUNNING, J_PAUSED, J_WINDOW_CLOSED, J_BUDGET_REACHED, J_FINISHING_TREE, J_SCHEDULED]"

text \<open>\<open>int(x or 0)\<close> of a decoded value.\<close>

definition int_or0 :: "json \<Rightarrow> int res" where
  "int_or0 v = (if truthy_json v then py_int v else Inr 0)"

definition weakens :: "string \<Rightarrow> json \<Rightarrow> json \<Rightarrow> bool res" where
  "weakens field old new =
     (if field = ''min_free_bytes'' \<or> field = ''min_free_pct''
      then (case int_or0 new of
              Inl e \<Rightarrow> Inl e
            | Inr n \<Rightarrow> (case int_or0 old of Inl e \<Rightarrow> Inl e | Inr m \<Rightarrow> Inr (n < m)))
      else if field = ''failure_policy'' then Inr (old = JStr ''pause'' \<and> new \<noteq> JStr ''pause'')
      else if field = ''force_stop_desktops'' then Inr (truthy_json new \<and> \<not> truthy_json old)
      else if field = ''source_disposition'' then Inr (new = JStr ''delete'' \<and> old \<noteq> JStr ''delete'')
      else Inr False)"

fun config_change_verdicts :: "doc \<Rightarrow> (string \<times> json) list \<Rightarrow> (string \<times> string) list res" where
  "config_change_verdicts current [] = Inr []"
| "config_change_verdicts current ((field, new) # changes) =
     (let old = doc_get current field;
          policy = (case map_of CONFIG_FIELD_POLICY field of None \<Rightarrow> ''hot'' | Some p \<Rightarrow> p);
          verdict = (if new = old then Inr []
                     else if policy = ''frozen'' then Inr [(field, ''frozen'')]
                     else if policy = ''hot_weakening''
                     then (case weakens field old new of
                             Inl e \<Rightarrow> Inl e | Inr b \<Rightarrow> Inr (if b then [(field, ''weakening'')] else []))
                     else Inr [])
      in case verdict of
           Inl e \<Rightarrow> Inl e
         | Inr v \<Rightarrow> (case config_change_verdicts current changes of Inl e \<Rightarrow> Inl e | Inr vs \<Rightarrow> Inr (v @ vs)))"

section \<open>What a tree decision implies\<close>

declare find_str.simps [simp del]

lemmas saga_state_defs = PHASE_A_DONE_def TERMINAL_STATES_def COMMITTED_STATES_def SETTLED_ITEM_STATES_def

lemma find_mem: "List.find P xs = Some x \<Longrightarrow> x \<in> set xs \<and> P x"
  by (auto simp: find_Some_iff)

lemma in_filterD: "x \<in> set (filter P xs) \<Longrightarrow> x \<in> set xs \<and> P x"
  by simp

lemma gate_action_Some:
  assumes "gate_action js rs = Some (it, a)"
  shows "it \<in> set rs \<and> \<not> item_in_place it \<and> a \<in> {Fail, Start_verify, Mark_verified, Wait}
     \<and> (a = Mark_verified \<longrightarrow> verify_gate_state it js = Gate_passed)"
  using assms unfolding gate_action_def Let_def
  by (auto split: option.splits dest!: find_mem)

lemma gate_action_None:
  assumes "gate_action js rs = None" "x \<in> set rs" "\<not> item_in_place x"
  shows "sg_verify_passed x"
proof -
  have x: "x \<in> set (filter (\<lambda>it. \<not> item_in_place it) rs)" using assms(2,3) by simp
  have "verify_gate_state x js \<noteq> Gate_fail" "verify_gate_state x js \<noteq> Gate_start" "verify_gate_state x js \<noteq> Gate_wait"
    "\<not> (verify_gate_state x js = Gate_passed \<and> \<not> sg_verify_passed x)"
    using assms(1) x unfolding gate_action_def Let_def
    by (auto split: option.splits simp: find_None_iff)
  then show ?thesis by (cases "verify_gate_state x js") auto
qed

text \<open>The five ways a tree decision comes about.\<close>

lemma tree_next_cases:
  assumes "tree_next items js = (oi, a)"
  obtains (settled) "oi = None" "a = Tree_done"
  | (phase_a) it where "oi = Some it" "it \<in> set items" "sg_state it \<notin> set PHASE_A_DONE"
      "a = (if sg_state it = FAILED then Blocked else decide_item_action it js)"
  | (repairing) it where "oi = Some it" "it \<in> set items" "sg_state it = REPAIRING" "a = repair_action js it"
  | (gate) it where "oi = Some it" "it \<in> set items" "sg_state it = REBASED" "\<not> item_in_place it"
      "a \<in> {Fail, Start_verify, Mark_verified, Wait}" "a = Mark_verified \<longrightarrow> verify_gate_state it js = Gate_passed"
      "\<forall>x \<in> set items. sg_state x \<in> set PHASE_A_DONE \<and> sg_state x \<noteq> REPAIRING"
  | (commit) it where "oi = Some it" "it \<in> set items" "sg_state it = REBASED" "a = Db_update"
      "\<forall>x \<in> set items. sg_state x \<in> set PHASE_A_DONE \<and> sg_state x \<noteq> REPAIRING"
      "\<forall>x \<in> set items. sg_state x = REBASED \<and> \<not> item_in_place x \<longrightarrow> sg_verify_passed x"
  | (release) it where "oi = Some it" "it \<in> set items" "sg_state it = DB_UPDATED"
      "a = (if item_in_place it then Skip_release else Release)"
      "\<forall>x \<in> set items. sg_state x \<in> {DB_UPDATED, RELEASED, SKIPPED, QUARANTINED}"
proof -
  let ?is = "sort_key sg_topo_index items"
  let ?reb = "filter (\<lambda>it. sg_state it = REBASED) ?is" and ?com = "filter (\<lambda>it. sg_state it = DB_UPDATED) ?is"
  have set_is: "set ?is = set items" by simp
  show thesis
  proof (cases "?is \<noteq> [] \<and> list_all (\<lambda>it. sg_state it \<in> set TERMINAL_STATES) ?is")
    case True
    then show thesis using assms settled by (simp add: tree_next_def Let_def)
  next
    case nt: False
    show thesis
    proof (cases "List.find (\<lambda>it. sg_state it \<notin> set PHASE_A_DONE) ?is")
      case (Some it)
      have "oi = Some it" "a = (if sg_state it = FAILED then Blocked else decide_item_action it js)"
        using assms nt Some by (auto simp: tree_next_def Let_def split: if_splits)
      then show thesis using phase_a find_mem [OF Some] set_is by simp
    next
      case fa: None
      have A: "\<forall>x \<in> set items. sg_state x \<in> set PHASE_A_DONE" using fa set_is by (auto simp: find_None_iff)
      show thesis
      proof (cases "List.find (\<lambda>it. sg_state it = REPAIRING) ?is")
        case (Some it)
        have "oi = Some it" "a = repair_action js it"
          using assms nt fa Some by (auto simp: tree_next_def Let_def)
        then show thesis using repairing find_mem [OF Some] set_is by simp
      next
        case fr: None
        have R: "\<forall>x \<in> set items. sg_state x \<in> set PHASE_A_DONE \<and> sg_state x \<noteq> REPAIRING"
          using A fr set_is by (auto simp: find_None_iff)
        show thesis
        proof (cases "gate_action js ?reb")
          case (Some g)
          obtain it b where g: "g = (it, b)" by fastforce
          have "oi = Some it" "a = b"
            using assms nt fa fr Some g by (auto simp: tree_next_def Let_def)
          then show thesis using gate [of it] gate_action_Some [of js ?reb it b] Some g R by auto
        next
          case fg: None
          have V: "\<forall>x \<in> set items. sg_state x = REBASED \<and> \<not> item_in_place x \<longrightarrow> sg_verify_passed x"
            using gate_action_None [OF fg] by simp
          show thesis
          proof (cases ?reb)
            case (Cons it rest)
            have it: "it \<in> set items" "sg_state it = REBASED"
              using in_filterD [of it "\<lambda>it. sg_state it = REBASED" ?is] Cons by simp_all
            have "oi = Some it" "a = Db_update"
              using assms nt fa fr fg Cons by (auto simp: tree_next_def Let_def)
            then show thesis using commit it R V by blast
          next
            case nr: Nil
            have nreb: "\<forall>x \<in> set items. sg_state x \<noteq> REBASED" using nr by (auto simp: filter_empty_conv)
            have C: "\<forall>x \<in> set items. sg_state x \<in> {DB_UPDATED, RELEASED, SKIPPED, QUARANTINED}"
              using R nreb by (auto simp: PHASE_A_DONE_def)
            show thesis
            proof (cases ?com)
              case (Cons it rest)
              have it: "it \<in> set items" "sg_state it = DB_UPDATED"
                using in_filterD [of it "\<lambda>it. sg_state it = DB_UPDATED" ?is] Cons by simp_all
              have "oi = Some it" "a = (if item_in_place it then Skip_release else Release)"
                using assms nt fa fr fg nr Cons by (auto simp: tree_next_def Let_def)
              then show thesis using release it C by blast
            next
              case Nil
              then have "oi = None" "a = Tree_done"
                using assms nt fa fr fg nr by (auto simp: tree_next_def Let_def)
              then show thesis using settled by blast
            qed
          qed
        qed
      qed
    qed
  qed
qed

section \<open>Properties\<close>


text \<open>A template and its desktop, both copied; only the template's copy is checked so far.\<close>

definition sample_row :: "string \<Rightarrow> nat \<Rightarrow> item_state \<Rightarrow> bool \<Rightarrow> saga_item" where
  "sample_row i n st passed = \<lparr>sg_id = i, sg_storage_id = i, sg_tree_id = ''t'', sg_topo_index = n, sg_kind = TEMPLATE,
     sg_state = st, sg_src_path = ''/a/'' @ i, sg_dst_path = Some (''/b/'' @ i), sg_dst_dir = Some ''/b'',
     sg_parent_storage_id = None, sg_parent_dst_path = None, sg_size_bytes = 10, sg_preflight_task = None,
     sg_move_task = None, sg_rebase_task = None, sg_verify_task = None, sg_repair_task = None,
     sg_move_delete_task = None, sg_dst_task = None, sg_verify_passed = passed, sg_dst_owned = False,
     sg_recopy = False, sg_repair_attempted = False, sg_repair_action = None, sg_repair_result = None,
     sg_source_retained = False, sg_source_retained_path = None, sg_source_action = None,
     sg_source_action_reason = None, sg_dst_retained = False, sg_dst_retained_path = None, sg_dst_action = None,
     sg_dst_action_reason = None, sg_damaged = False, sg_damage_reason = None, sg_orig_status = None, sg_maintenance_domains = None, sg_autostart_domains = None,
     sg_attempts = 0, sg_abandon_restarts = 0, sg_occurrence_failures = 0, sg_space_deferrals = 0,
     sg_error = None, sg_move_started_at = None, sg_audit = []\<rparr>"


text \<open>A repair task the queue no longer knows is waited for, whatever the other disks do.\<close>

lemma lost_repair_waits:
  assumes "\<forall>x \<in> set items. sg_state x \<in> set PHASE_A_DONE" "\<exists>x \<in> set items. sg_state x = REPAIRING"
    and "\<forall>x \<in> set items. js (sg_repair_task x) = None"
  shows "snd (tree_next items js) = Wait"
proof -
  let ?is = "sort_key sg_topo_index items"
  have "\<not> list_all (\<lambda>it. sg_state it \<in> set TERMINAL_STATES) ?is"
    using assms(2) by (force simp: list_all_iff TERMINAL_STATES_def)
  moreover have "List.find (\<lambda>it. sg_state it \<notin> set PHASE_A_DONE) ?is = None"
    using assms(1) by (auto simp: find_None_iff)
  moreover obtain x where x: "List.find (\<lambda>it. sg_state it = REPAIRING) ?is = Some x"
    using assms(2) by (cases "List.find (\<lambda>it. sg_state it = REPAIRING) ?is") (auto simp: find_None_iff)
  moreover have "js (sg_repair_task x) = None" using find_mem [OF x] assms(3) by simp
  ultimately show ?thesis by (simp add: tree_next_def repair_action_def job_failed_def job_finished_def)
qed

end
