(* ===== verification/Migration_Runner.thy ===== *)
theory Migration_Runner
  imports Migration_Saga Queue_Tiers
begin

text \<open>
  The executor of a storage migration, \<open>lib/storage/migration_run.py\<close>: one definition per action
  handler and the step of a tree. The world is the ledger's disk rows, the storage and media rows,
  the domains and the log of tasks placed on the storage workers. What the runner reads from outside
  during a step (task states and results, pools, worker lanes, children, holders, the clock, whether
  its conditional ledger update was the one applied) is the environment of that step. A handler that
  raises is the flag \<open>en_raises\<close>: it raised before any effect, and the disk is marked failed. A write the
  source wraps in \<open>try\<close> succeeds. The job totals a state write keeps are those of \<open>Migration_Ledger\<close>.
\<close>

section \<open>World and environment\<close>

text \<open>The tasks the runner places, with the arguments that name files.\<close>

datatype mig_task =
    T_verify_absent string
  | T_move string string int bool int
  | T_rebase string "string option" bool
  | T_verify string "string option" "int option" string
  | T_repair string string
  | T_delete string
  | T_move_delete string

record world =
  wd_items :: "saga_item list"
  wd_dir :: "string \<Rightarrow> string option"
  wd_filename :: "string \<Rightarrow> string option"
  wd_backing :: "string \<Rightarrow> string option"
  wd_status :: "string \<Rightarrow> string option"
  wd_damage_reason :: "string \<Rightarrow> string option"
  wd_flags :: "string \<Rightarrow> string \<Rightarrow> (string \<times> string) list option"
  wd_media_path :: "string \<Rightarrow> string option"
  wd_media_downloaded :: "string \<Rightarrow> string option"
  wd_domain :: "string \<Rightarrow> string option"
  wd_current_action :: "string \<Rightarrow> string option"
  wd_tasks :: "(string \<times> mig_task) list"
  wd_index :: "(string \<times> string) list"
  wd_ewma :: "string \<Rightarrow> rat option"
  wd_budget :: "(string option \<times> int) option"
  wd_space_deferred :: bool

record step_env =
  en_js :: job_status_fn
  en_won :: bool
  en_task :: "string \<Rightarrow> string"
  en_uuid :: string
  en_pools :: "string \<Rightarrow> string list"
  en_dst_pool :: string
  en_drainable :: "string \<Rightarrow> bool"
  en_exc_info :: "string \<Rightarrow> string option"
  en_leaks :: "string option \<Rightarrow> int"
  en_repair_result :: "string option \<Rightarrow> string option"
  en_children :: "string \<Rightarrow> bool"
  en_domains :: "string \<Rightarrow> string list"
  en_holders :: "string \<Rightarrow> string list option"
  en_system_delete_action :: "string option"
  en_now :: rat
  en_occurrence :: "string option"
  en_incremental :: bool
  en_raises :: bool

record mig_config =
  cf_force_stop_desktops :: bool
  cf_verify :: bool
  cf_source_disposition :: "string option"
  cf_on_damaged :: "string option"
  cf_bwlimit_kbs :: int
  cf_min_free_bytes :: int
  cf_max_bytes_per_occurrence :: int

definition QUIESCE_MAX_ATTEMPTS :: nat where "QUIESCE_MAX_ATTEMPTS = 60"

definition MAX_ABANDON_RESTARTS :: nat where "MAX_ABANDON_RESTARTS = 10"

definition DEFAULT_PRIORITY :: string where "DEFAULT_PRIORITY = ''default''"

definition RECYCLE_BIN_DIR :: string where "RECYCLE_BIN_DIR = ''deleted''"

definition is_media :: "saga_item \<Rightarrow> bool" where
  "is_media it \<longleftrightarrow> sg_kind it = MEDIA"

definition dst_of :: "saga_item \<Rightarrow> string" where
  "dst_of it = (case sg_dst_path it of None \<Rightarrow> [] | Some p \<Rightarrow> p)"

text \<open>Paths: \<open>basename\<close>, \<open>dirname\<close> and \<open>join\<close> of \<open>os.path\<close>.\<close>

definition basename :: "string \<Rightarrow> string" where
  "basename p = last (split_on (CHR ''/'') p)"

definition dirname :: "string \<Rightarrow> string" where
  "dirname p =
     (let h = take (length p - length (basename p)) p
      in if list_all (\<lambda>c. c = CHR ''/'') h then h else rev (dropWhile (\<lambda>c. c = CHR ''/'') (rev h)))"

definition path_join :: "string \<Rightarrow> string \<Rightarrow> string" where
  "path_join a b =
     (if startswith b ''/'' then b else if a = [] \<or> last a = CHR ''/'' then a @ b else a @ ''/'' @ b)"

text \<open>A ledger write on the row with the given id, and the row currently under an id.\<close>

definition set_item :: "string \<Rightarrow> (saga_item \<Rightarrow> saga_item) \<Rightarrow> world \<Rightarrow> world" where
  "set_item i f w = w\<lparr>wd_items := map (\<lambda>x. if sg_id x = i then f x else x) (wd_items w)\<rparr>"

definition with_item :: "string \<Rightarrow> (saga_item \<Rightarrow> world \<Rightarrow> world) \<Rightarrow> world \<Rightarrow> world" where
  "with_item i g w = (case List.find (\<lambda>x. sg_id x = i) (wd_items w) of None \<Rightarrow> w | Some x \<Rightarrow> g x w)"

text \<open>Lanes: the pool of a path, the tiered lane of a pool, the tiered lane of a cross-pool move.\<close>

definition pool_of :: "step_env \<Rightarrow> string \<Rightarrow> string" where
  "pool_of env path = (case en_pools env (dirname path) of [] \<Rightarrow> en_dst_pool env | p # _ \<Rightarrow> p)"

definition get_queue_from_storage_pools :: "string \<Rightarrow> string \<Rightarrow> string" where
  "get_queue_from_storage_pools a b = (if a = b then a else if a < b then a @ '':'' @ b else b @ '':'' @ a)"

definition tiered_lane :: "string \<Rightarrow> string \<Rightarrow> string" where
  "tiered_lane key action =
     (case retier_queue (Some (''storage.'' @ key @ ''.'' @ DEFAULT_PRIORITY)) (Some action) None of
        None \<Rightarrow> [] | Some q \<Rightarrow> q)"

definition pool_queue :: "step_env \<Rightarrow> string \<Rightarrow> string \<Rightarrow> string" where
  "pool_queue env path action = tiered_lane (pool_of env path) action"

definition move_queue :: "step_env \<Rightarrow> string \<Rightarrow> string" where
  "move_queue env src_path = tiered_lane (get_queue_from_storage_pools (pool_of env src_path) (en_dst_pool env)) ''move''"

definition enqueue :: "string \<Rightarrow> mig_task \<Rightarrow> world \<Rightarrow> world" where
  "enqueue lane task w = w\<lparr>wd_tasks := wd_tasks w @ [(lane, task)]\<rparr>"

definition claim_storage_task :: "saga_item \<Rightarrow> string \<Rightarrow> world \<Rightarrow> world" where
  "claim_storage_task it task_id w =
     (if task_id = [] \<or> sg_storage_id it = [] then w else w\<lparr>wd_index := wd_index w @ [(sg_storage_id it, task_id)]\<rparr>)"

definition audit_occurrence :: "step_env \<Rightarrow> string option" where
  "audit_occurrence env = (if truthy_str (en_occurrence env) then en_occurrence env else Some ''initial'')"

definition spend_budget :: "step_env \<Rightarrow> mig_config \<Rightarrow> string \<Rightarrow> int \<Rightarrow> world \<Rightarrow> world" where
  "spend_budget env cfg result nbytes w =
     (if en_incremental env \<and> result = ''moved_ok'' \<and> cf_max_bytes_per_occurrence cfg \<noteq> 0
      then (case add_budget_spent (audit_occurrence env) nbytes (wd_budget w) of
              Inl _ \<Rightarrow> w | Inr b \<Rightarrow> w\<lparr>wd_budget := Some b\<rparr>)
      else w)"

definition audit :: "step_env \<Rightarrow> mig_config \<Rightarrow> saga_item \<Rightarrow> string \<Rightarrow> world \<Rightarrow> world" where
  "audit env cfg it result w =
     spend_budget env cfg result (sg_size_bytes it)
       (set_item (sg_id it)
          (\<lambda>x. x\<lparr>sg_audit := sg_audit x @ [build_audit_record x result (audit_occurrence env) (en_now env)]\<rparr>) w)"

text \<open>A pending-action mark on the storage row, if there is such a row; a later mark replaces the detail.\<close>

definition flag :: "saga_item \<Rightarrow> string \<Rightarrow> (string \<times> string) list \<Rightarrow> world \<Rightarrow> world" where
  "flag it action detail w =
     (if wd_status w (sg_storage_id it) = None then w
      else w\<lparr>wd_flags := (wd_flags w)(sg_storage_id it := (wd_flags w (sg_storage_id it))(action \<mapsto> detail))\<rparr>)"

definition observed_real :: "string option \<Rightarrow> bool" where
  "observed_real observed \<longleftrightarrow> truthy_str observed \<and> \<not> startswith (the observed) ''claim:''"

definition fence :: "step_env \<Rightarrow> string" where
  "fence env = ''claim:'' @ en_uuid env"

text \<open>The error line of the newest task of the disk that has one.\<close>

definition slot_reason :: "step_env \<Rightarrow> string option \<Rightarrow> string option" where
  "slot_reason env slot = (if truthy_str slot then en_exc_info env (the slot) else None)"

definition failure_reason :: "step_env \<Rightarrow> saga_item \<Rightarrow> string option" where
  "failure_reason env it =
     (case List.find (\<lambda>slot. truthy_str (slot_reason env slot)) [sg_verify_task it, sg_rebase_task it, sg_move_task it] of
        None \<Rightarrow> None
      | Some slot \<Rightarrow> task_error_line (slot_reason env slot) None)"

definition record_throughput :: "step_env \<Rightarrow> saga_item \<Rightarrow> world \<Rightarrow> world" where
  "record_throughput env it w =
     (case sg_move_started_at it of
        None \<Rightarrow> w
      | Some started \<Rightarrow>
          if started = 0 \<or> sg_size_bytes it \<le> 0 then w
          else (let elapsed = max (en_now env - started) (1 / 1000);
                    mbps = of_int (sg_size_bytes it) / elapsed / 1000000;
                    key = pool_of env (sg_src_path it) @ '':'' @ en_dst_pool env
                in w\<lparr>wd_ewma := (wd_ewma w)(key := ewma_update (wd_ewma w key) (Some mbps) (3 / 10))\<rparr>))"

section \<open>Storage rows and domains\<close>

definition restore_domain :: "string \<Rightarrow> world \<Rightarrow> world" where
  "restore_domain d w =
     (if wd_domain w d = Some ''Maintenance''
      then w\<lparr>wd_domain := (wd_domain w)(d := Some ''Stopped''), wd_current_action := (wd_current_action w)(d := None)\<rparr>
      else w)"

definition restore_domains :: "saga_item \<Rightarrow> world \<Rightarrow> world" where
  "restore_domains it w = fold restore_domain (case sg_maintenance_domains it of None \<Rightarrow> [] | Some ds \<Rightarrow> ds) w"

definition restore_storage_status :: "saga_item \<Rightarrow> world \<Rightarrow> world" where
  "restore_storage_status it w =
     (let w1 = restore_domains it w
      in if sg_orig_status it = None \<or> is_media it then w1
         else w1\<lparr>wd_status := (wd_status w1)(sg_storage_id it := sg_orig_status it)\<rparr>)"

definition park_domains :: "step_env \<Rightarrow> saga_item \<Rightarrow> world \<Rightarrow> world" where
  "park_domains env it w =
     (if sg_maintenance_domains it \<noteq> None \<or> is_media it then w
      else (let parked = filter (\<lambda>d. wd_domain w d = Some ''Stopped'') (en_domains env (sg_storage_id it));
                w1 = set_item (sg_id it) (\<lambda>x. x\<lparr>sg_maintenance_domains := Some parked\<rparr>) w
            in w1\<lparr>wd_current_action := (\<lambda>d. if d \<in> set parked then Some ''move'' else wd_current_action w1 d),
                  wd_domain := (\<lambda>d. if d \<in> set parked then Some ''Maintenance'' else wd_domain w1 d)\<rparr>))"

text \<open>The task placed for a source or an abandoned copy, and why it is not the one asked for.\<close>

definition source_action :: "step_env \<Rightarrow> mig_config \<Rightarrow> string \<times> string option" where
  "source_action env cfg =
     (let disposition = (if truthy_str (cf_source_disposition cfg) then the (cf_source_disposition cfg) else ''recycle_bin'')
      in if disposition = ''recycle_bin'' then (''move_delete'', None)
         else if disposition = ''system'' \<and> en_system_delete_action env = None
         then (''move_delete'', Some ''system_action_unreadable'')
         else if disposition = ''system'' \<and> en_system_delete_action env \<noteq> Some ''delete''
         then (''move_delete'', None)
         else if \<not> cf_verify cfg then (''move_delete'', Some ''verify_off'')
         else (''delete'', None))"

definition disposal_task :: "string \<Rightarrow> string \<Rightarrow> mig_task" where
  "disposal_task action path = (if action = ''delete'' then T_delete path else T_move_delete path)"

definition COPIED_UNCOMMITTED :: "item_state list" where
  "COPIED_UNCOMMITTED = [MOVING, MOVED, REBASED]"

text \<open>For a media the runner compares the destination with the row's \<open>path\<close>, the label of the media.\<close>

definition row_at_destination :: "saga_item \<Rightarrow> world \<Rightarrow> bool" where
  "row_at_destination it w =
     (if is_media it then wd_media_path w (sg_storage_id it) \<noteq> None \<and> wd_media_path w (sg_storage_id it) = sg_dst_path it
      else wd_dir w (sg_storage_id it) \<noteq> None \<and> wd_dir w (sg_storage_id it) = sg_dst_dir it)"

definition retain_destination :: "saga_item \<Rightarrow> world \<Rightarrow> world" where
  "retain_destination it =
     set_item (sg_id it) (\<lambda>x. x\<lparr>sg_dst_retained := True, sg_dst_retained_path := sg_dst_path it\<rparr>)"

definition discard_destination :: "step_env \<Rightarrow> mig_config \<Rightarrow> saga_item \<Rightarrow> world \<Rightarrow> world" where
  "discard_destination env cfg it w =
     (if sg_state it \<notin> set COPIED_UNCOMMITTED then w
      else if \<not> truthy_str (sg_dst_path it) then w
      else if \<not> sg_dst_owned it then retain_destination it w
      else if row_at_destination it w then w
      else (let (action, reason) = source_action env cfg; lane = pool_queue env (dst_of it) action
            in if \<not> en_drainable env lane then retain_destination it w
               else set_item (sg_id it)
                      (\<lambda>x. x\<lparr>sg_dst_action := Some action, sg_dst_action_reason := reason,
                             sg_dst_task := Some (en_task env (sg_id it))\<rparr>)
                      (enqueue lane (disposal_task action (dst_of it)) w)))"

section \<open>Skipping and failing a tree\<close>

definition tree_items :: "string \<Rightarrow> world \<Rightarrow> saga_item list" where
  "tree_items t w = filter (\<lambda>x. sg_tree_id x = t) (wd_items w)"

definition skip_tree :: "step_env \<Rightarrow> mig_config \<Rightarrow> saga_item list \<Rightarrow> item_state \<Rightarrow> string \<Rightarrow> world \<Rightarrow> world" where
  "skip_tree env cfg its st reason w =
     fold (\<lambda>it w. audit env cfg it (if st = SKIPPED then ''skipped'' else ''failed'')
             (set_item (sg_id it) (\<lambda>x. x\<lparr>sg_state := st, sg_error := Some reason\<rparr>) w)) its w"

definition mark_damaged :: "saga_item \<Rightarrow> string \<Rightarrow> world \<Rightarrow> world" where
  "mark_damaged it reason w =
     (let w1 = set_item (sg_id it) (\<lambda>x. x\<lparr>sg_damaged := True, sg_damage_reason := Some reason\<rparr>) w
      in if is_media it then w1
         else flag it ''review_damage'' [(''reason'', reason)]
                (w1\<lparr>wd_status := (wd_status w1)(sg_storage_id it := Some ''damaged''),
                   wd_damage_reason := (wd_damage_reason w1)(sg_storage_id it := Some reason)\<rparr>))"

text \<open>Abandoning one disk: out of maintenance, its copy discarded, its damage noted, then its new state.\<close>

definition abandon_item ::
  "step_env \<Rightarrow> mig_config \<Rightarrow> string \<Rightarrow> item_state \<Rightarrow> string \<Rightarrow> string \<Rightarrow> string option \<Rightarrow> world \<Rightarrow> world" where
  "abandon_item env cfg i st why result damage w =
     with_item i (\<lambda>it w.
        (let w1 = discard_destination env cfg it (restore_storage_status it w);
             w2 = (case damage of None \<Rightarrow> w1 | Some d \<Rightarrow> mark_damaged it d w1)
         in audit env cfg it result (set_item i (\<lambda>x. x\<lparr>sg_state := st, sg_error := Some why\<rparr>) w2))) w"

definition cancel_skip_tree :: "step_env \<Rightarrow> mig_config \<Rightarrow> saga_item list \<Rightarrow> string \<Rightarrow> world \<Rightarrow> world" where
  "cancel_skip_tree env cfg its reason w =
     fold (\<lambda>it. abandon_item env cfg (sg_id it) SKIPPED reason ''skipped'' None) its w"

definition abandon_change ::
  "step_env \<Rightarrow> mig_config \<Rightarrow> saga_item \<Rightarrow> string option \<Rightarrow> saga_item \<times> item_state \<times> string \<Rightarrow> world \<Rightarrow> world" where
  "abandon_change env cfg trigger damage c =
     (case c of (it, st, why) \<Rightarrow>
        abandon_item env cfg (sg_id it) st why (if st = FAILED then ''failed'' else ''skipped'')
          (if sg_id it = sg_id trigger then damage else None))"

definition terminalize_tree_failure :: "step_env \<Rightarrow> mig_config \<Rightarrow> saga_item \<Rightarrow> string option \<Rightarrow> world \<Rightarrow> world" where
  "terminalize_tree_failure env cfg it reason0 w =
     (let its = tree_items (sg_tree_id it) w
      in if list_all (\<lambda>x. sg_state x \<in> set TERMINAL_STATES) its then w
         else (let w1 = restore_storage_status it w;
                   reason = (if reason0 \<noteq> None then reason0 else failure_reason env it);
                   damage = damage_from_reason reason;
                   changes = plan_tree_failure its (sg_storage_id it) reason;
                   w2 = (if sg_id it \<notin> set (map (\<lambda>(x, s, r). sg_id x) changes) \<and> sg_state it = FAILED
                         then audit env cfg it ''failed'' (case damage of None \<Rightarrow> w1 | Some d \<Rightarrow> mark_damaged it d w1)
                         else w1)
               in fold (abandon_change env cfg it damage) changes w2))"

definition unmovable_disk :: "saga_item list \<Rightarrow> world \<Rightarrow> string option" where
  "unmovable_disk its w =
     map_option (\<lambda>it. let status = wd_status w (sg_storage_id it)
                       in if status = Some ''recycled'' then ''disk '' @ sg_storage_id it @ '' is in the recycle bin''
                          else ''disk '' @ sg_storage_id it @ '' is ''
                               @ (if truthy_str status then the status else ''gone'') @ '', not ready'')
       (List.find (\<lambda>it. \<not> is_media it \<and> wd_status w (sg_storage_id it) \<noteq> Some ''ready'') its)"

definition running_domains :: "step_env \<Rightarrow> mig_config \<Rightarrow> saga_item list \<Rightarrow> world \<Rightarrow> string list" where
  "running_domains env cfg its w =
     filter (\<lambda>d. quiesce_decision (wd_domain w d) (cf_force_stop_desktops cfg) \<noteq> ''ok'')
       (concat (map (\<lambda>it. en_domains env (sg_storage_id it)) its))"

definition gate_tree :: "step_env \<Rightarrow> mig_config \<Rightarrow> saga_item list \<Rightarrow> world \<Rightarrow> bool \<times> world" where
  "gate_tree env cfg its w =
     (if list_ex (\<lambda>it. sg_state it \<noteq> PENDING) its then (True, w)
      else (case unmovable_disk its w of
              Some why \<Rightarrow> (False, skip_tree env cfg its SKIPPED why w)
            | None \<Rightarrow>
                (let running = running_domains env cfg its w
                 in if running = [] then (True, w)
                    else if \<not> cf_force_stop_desktops cfg
                    then (False, skip_tree env cfg its SKIPPED
                                   ''tree has a running desktop and force-stop was not requested'' w)
                    else (let w1 = w\<lparr>wd_domain := (\<lambda>d. if d \<in> set running \<and> wd_domain w d = Some ''Started''
                                                      then Some ''Stopping'' else wd_domain w d)\<rparr>;
                              attempts = foldl max 0 (map sg_attempts its) + 1
                          in if attempts > QUIESCE_MAX_ATTEMPTS
                             then (False, skip_tree env cfg its FAILED
                                            ''force-stop did not stop the tree's desktops in time'' w1)
                             else (False, fold (\<lambda>it. set_item (sg_id it) (\<lambda>x. x\<lparr>sg_attempts := attempts\<rparr>)) its w1)))))"

section \<open>Action handlers\<close>

text \<open>Counts one more abandoned task of the disk; past the bound the tree is given up.\<close>

definition abandon_resume_blocked :: "step_env \<Rightarrow> mig_config \<Rightarrow> saga_item \<Rightarrow> world \<Rightarrow> bool \<times> world" where
  "abandon_resume_blocked env cfg it w =
     (case List.find (\<lambda>x. sg_id x = sg_id it) (wd_items w) of
        None \<Rightarrow> (True, w)
      | Some row \<Rightarrow>
          (let n = sg_abandon_restarts row + 1; w1 = set_item (sg_id it) (\<lambda>x. x\<lparr>sg_abandon_restarts := n\<rparr>) w
           in if n > MAX_ABANDON_RESTARTS then (True, terminalize_tree_failure env cfg it None w1) else (False, w1)))"

definition start_preflight :: "step_env \<Rightarrow> mig_config \<Rightarrow> saga_item \<Rightarrow> world \<Rightarrow> world" where
  "start_preflight env cfg it w =
     (let i = sg_id it; lane = pool_queue env (dst_of it) ''migration_verify_destination_absent''; task_id = en_task env i
      in if \<not> en_drainable env lane then w
         else if \<not> (en_won env \<and> sg_state it = PENDING) then w
         else (let w1 = set_item i (\<lambda>x. x\<lparr>sg_preflight_task := Some (fence env)\<rparr>) w;
                   it1 = it\<lparr>sg_preflight_task := Some (fence env)\<rparr>;
                   (blocked, w2) = (if observed_real (sg_preflight_task it) then abandon_resume_blocked env cfg it1 w1 else (False, w1))
               in if blocked then w2
                  else set_item i (\<lambda>x. x\<lparr>sg_preflight_task := Some task_id\<rparr>)
                         (claim_storage_task it task_id (enqueue lane (T_verify_absent (dst_of it)) w2))))"

definition destination_exists :: "step_env \<Rightarrow> mig_config \<Rightarrow> saga_item \<Rightarrow> world \<Rightarrow> world" where
  "destination_exists env cfg it w =
     terminalize_tree_failure env cfg (it\<lparr>sg_dst_retained_path := sg_dst_path it\<rparr>)
       (Some (''destination_exists: '' @ dst_of it))
       (set_item (sg_id it) (\<lambda>x. x\<lparr>sg_dst_retained_path := sg_dst_path it\<rparr>) w)"

definition defer_for_space :: "step_env \<Rightarrow> mig_config \<Rightarrow> saga_item \<Rightarrow> string option \<Rightarrow> world \<Rightarrow> world" where
  "defer_for_space env cfg it reason w =
     (audit env cfg it ''deferred_space''
        (set_item (sg_id it)
           (\<lambda>x. x\<lparr>sg_state := PENDING, sg_move_task := None, sg_dst_owned := False, sg_maintenance_domains := None,
                   sg_orig_status := None, sg_error := reason, sg_space_deferrals := sg_space_deferrals it + 1\<rparr>)
           (restore_storage_status it w)))\<lparr>wd_space_deferred := True\<rparr>"

definition try_repair :: "step_env \<Rightarrow> mig_config \<Rightarrow> saga_item \<Rightarrow> string \<Rightarrow> world \<Rightarrow> bool \<times> world" where
  "try_repair env cfg it what w =
     (let i = sg_id it; lane = pool_queue env (dst_of it) ''qemu_img_check_repair''
      in if \<not> en_drainable env lane then (False, w)
         else (True, audit env cfg it ''repair_started''
                 (set_item i (\<lambda>x. x\<lparr>sg_state := REPAIRING, sg_repair_task := Some (en_task env i),
                                    sg_repair_action := Some what, sg_repair_attempted := True\<rparr>)
                    (enqueue lane (T_repair (dst_of it) what) w))))"

definition skip_repair_has_descendants :: "step_env \<Rightarrow> mig_config \<Rightarrow> saga_item \<Rightarrow> world \<Rightarrow> world" where
  "skip_repair_has_descendants env cfg it w =
     flag it ''review_damage''
       [(''reason'', case failure_reason env it of None \<Rightarrow> [] | Some r \<Rightarrow> r),
        (''note'', ''template with descendants: manual repair procedure'')]
       (terminalize_tree_failure env cfg it None
          (audit env cfg it ''repair_skipped_has_descendants''
             (set_item (sg_id it)
                (\<lambda>x. x\<lparr>sg_repair_action := Some ''skipped_has_descendants'', sg_repair_attempted := True\<rparr>) w)))"

definition fail_item :: "step_env \<Rightarrow> mig_config \<Rightarrow> saga_item \<Rightarrow> world \<Rightarrow> world" where
  "fail_item env cfg it w =
     (let reason = (if sg_state it = MOVING then failure_reason env it else None)
      in if sg_state it = MOVING \<and> is_space_floor_refusal reason then defer_for_space env cfg it reason w
         else if (cf_on_damaged cfg = Some ''repair_leaks'' \<or> cf_on_damaged cfg = Some ''repair_all'')
                 \<and> \<not> sg_repair_attempted it \<and> \<not> is_media it \<and> damage_from_reason (failure_reason env it) \<noteq> None
         then (if en_children env (sg_storage_id it) then skip_repair_has_descendants env cfg it w
               else (case try_repair env cfg it (if cf_on_damaged cfg = Some ''repair_leaks'' then ''leaks'' else ''all'') w of
                       (True, w') \<Rightarrow> w'
                     | (False, w') \<Rightarrow> terminalize_tree_failure env cfg it reason w'))
         else terminalize_tree_failure env cfg it reason w)"

text \<open>Records the disk's status and sets it and its stopped desktops to maintenance; with no status to come
  back to, the disk is failed instead and the answer is \<open>False\<close>.\<close>

definition prepare_disk_for_move :: "step_env \<Rightarrow> mig_config \<Rightarrow> saga_item \<Rightarrow> world \<Rightarrow> bool \<times> world" where
  "prepare_disk_for_move env cfg it w =
     (let sid = sg_storage_id it; i = sg_id it; cur = wd_status w sid;
          why = ''cannot record the disk's pre-migration status; refusing to move it rather than risk restoring the wrong one''
      in if sg_orig_status it = None \<and> \<not> (truthy_str cur \<and> cur \<noteq> Some ''maintenance'')
         then (False, fail_item env cfg (it\<lparr>sg_error := Some why\<rparr>) (set_item i (\<lambda>x. x\<lparr>sg_error := Some why\<rparr>) w))
         else (let w1 = (if sg_orig_status it = None then set_item i (\<lambda>x. x\<lparr>sg_orig_status := cur\<rparr>) w else w);
                   w2 = (if wd_status w1 sid = None then w1 else w1\<lparr>wd_status := (wd_status w1)(sid := Some ''maintenance'')\<rparr>)
               in (True, park_domains env it w2)))"

definition start_move :: "step_env \<Rightarrow> mig_config \<Rightarrow> saga_item \<Rightarrow> world \<Rightarrow> world" where
  "start_move env cfg it w =
     (let i = sg_id it; observed = sg_move_task it; lane = move_queue env (sg_src_path it); task_id = en_task env i;
          won = (en_won env \<and> (if observed = None then sg_state it = PENDING else sg_state it = MOVING));
          it1 = it\<lparr>sg_state := MOVING, sg_move_task := Some (fence env),
                   sg_dst_owned := (if observed = None then True else sg_dst_owned it)\<rparr>;
          w1 = set_item i (\<lambda>x. x\<lparr>sg_state := MOVING, sg_move_task := Some (fence env),
                   sg_dst_owned := (if observed = None then True else sg_dst_owned x)\<rparr>) w
      in if \<not> won then w
         else (let (blocked, w2) = (if observed_real observed then abandon_resume_blocked env cfg it1 w1 else (False, w1))
               in if blocked then w2
                  else (let (ready, w3) = (if is_media it then (True, w2) else prepare_disk_for_move env cfg it1 w2)
                        in if \<not> ready then w3
                           else if \<not> en_drainable env lane then w3
                           else set_item i (\<lambda>x. x\<lparr>sg_state := MOVING, sg_move_task := Some task_id,
                                                  sg_move_started_at := Some (en_now env)\<rparr>)
                                  (claim_storage_task it task_id
                                     (enqueue lane (T_move (sg_src_path it) (dst_of it) (cf_bwlimit_kbs cfg)
                                                      (\<not> sg_recopy it) (cf_min_free_bytes cfg)) w3)))))"

definition source_step_done :: "step_env \<Rightarrow> saga_item \<Rightarrow> bool" where
  "source_step_done env it \<longleftrightarrow>
     sg_source_retained it \<or> (truthy_str (sg_move_delete_task it) \<and> job_finished (en_js env (sg_move_delete_task it)))"

definition reconcile_regressed_pending :: "step_env \<Rightarrow> saga_item \<Rightarrow> world \<Rightarrow> world" where
  "reconcile_regressed_pending env it w =
     (let i = sg_id it; move_status = (if truthy_str (sg_move_task it) then en_js env (sg_move_task it) else None)
      in if sg_verify_passed it \<and> row_at_destination it w
         then set_item i (\<lambda>x. x\<lparr>sg_state := (if source_step_done env it then RELEASED else DB_UPDATED), sg_move_task := None\<rparr>) w
         else if job_finished move_status then set_item i (\<lambda>x. x\<lparr>sg_state := MOVED\<rparr>) w
         else if move_status \<noteq> None \<and> \<not> job_failed move_status then set_item i (\<lambda>x. x\<lparr>sg_state := MOVING\<rparr>) w
         else set_item i (\<lambda>x. x\<lparr>sg_preflight_task := None, sg_move_task := None, sg_move_started_at := None,
                               sg_move_delete_task := None, sg_verify_task := None, sg_verify_passed := False,
                               sg_dst_owned := False, sg_orig_status := None, sg_maintenance_domains := None\<rparr>)
                (restore_storage_status it w))"

definition mark_moved :: "step_env \<Rightarrow> saga_item \<Rightarrow> world \<Rightarrow> world" where
  "mark_moved env it w =
     set_item (sg_id it) (\<lambda>x. x\<lparr>sg_state := MOVED, sg_abandon_restarts := 0, sg_recopy := False\<rparr>)
       (record_throughput env it w)"

definition skip_move :: "saga_item \<Rightarrow> world \<Rightarrow> world" where
  "skip_move it w = set_item (sg_id it) (\<lambda>x. x\<lparr>sg_state := MOVED\<rparr>) w"

definition start_rebase :: "step_env \<Rightarrow> mig_config \<Rightarrow> saga_item \<Rightarrow> world \<Rightarrow> world" where
  "start_rebase env cfg it w =
     (let i = sg_id it; lane = pool_queue env (dst_of it) ''rebase''; task_id = en_task env i
      in if \<not> en_drainable env lane then w
         else if \<not> (en_won env \<and> sg_state it = MOVED) then w
         else (let w1 = set_item i (\<lambda>x. x\<lparr>sg_rebase_task := Some (fence env)\<rparr>) w;
                   it1 = it\<lparr>sg_rebase_task := Some (fence env)\<rparr>;
                   (blocked, w2) = (if observed_real (sg_rebase_task it) then abandon_resume_blocked env cfg it1 w1 else (False, w1))
               in if blocked then w2
                  else set_item i (\<lambda>x. x\<lparr>sg_rebase_task := Some task_id\<rparr>)
                         (claim_storage_task it task_id
                            (enqueue lane (T_rebase (dst_of it) (sg_parent_dst_path it) (cf_verify cfg)) w2))))"

definition mark_rebased :: "saga_item \<Rightarrow> world \<Rightarrow> world" where
  "mark_rebased it w = set_item (sg_id it) (\<lambda>x. x\<lparr>sg_state := REBASED, sg_abandon_restarts := 0\<rparr>) w"

definition skip_rebase :: "saga_item \<Rightarrow> world \<Rightarrow> world" where
  "skip_rebase it w = set_item (sg_id it) (\<lambda>x. x\<lparr>sg_state := REBASED, sg_abandon_restarts := 0\<rparr>) w"

definition db_update :: "saga_item \<Rightarrow> world \<Rightarrow> world" where
  "db_update it w =
     set_item (sg_id it) (\<lambda>x. x\<lparr>sg_state := DB_UPDATED, sg_abandon_restarts := 0\<rparr>)
       (if is_media it
        then w\<lparr>wd_media_downloaded := (wd_media_downloaded w)(sg_storage_id it := sg_dst_path it)\<rparr>
        else w\<lparr>wd_dir := (wd_dir w)(sg_storage_id it := sg_dst_dir it),
               wd_filename := (wd_filename w)(sg_storage_id it := sg_dst_path it),
               wd_backing := (if truthy_str (sg_parent_dst_path it)
                              then (wd_backing w)(sg_storage_id it := sg_parent_dst_path it) else wd_backing w)\<rparr>)"

definition start_verify :: "step_env \<Rightarrow> mig_config \<Rightarrow> saga_item \<Rightarrow> world \<Rightarrow> world" where
  "start_verify env cfg it w =
     (let i = sg_id it; lane = pool_queue env (dst_of it) ''migration_verify_destination''; task_id = en_task env i
      in if \<not> en_drainable env lane then w
         else if \<not> (en_won env \<and> sg_state it = REBASED) then w
         else (let w1 = set_item i (\<lambda>x. x\<lparr>sg_verify_task := Some (fence env)\<rparr>) w;
                   it1 = it\<lparr>sg_verify_task := Some (fence env)\<rparr>;
                   (blocked, w2) = (if observed_real (sg_verify_task it) then abandon_resume_blocked env cfg it1 w1 else (False, w1))
               in if blocked then w2
                  else set_item i (\<lambda>x. x\<lparr>sg_verify_task := Some task_id\<rparr>)
                         (claim_storage_task it task_id
                            (enqueue lane (T_verify (dst_of it) (sg_parent_dst_path it)
                                             (if is_media it then Some (sg_size_bytes it) else None) (sg_src_path it)) w2))))"

definition flag_leaks :: "step_env \<Rightarrow> saga_item \<Rightarrow> world \<Rightarrow> world" where
  "flag_leaks env it w =
     (if is_media it then w
      else (let leaks = en_leaks env (sg_verify_task it)
            in if leaks = 0 then w else flag it ''repair_leaks'' [(''leaks'', str_int leaks)] w))"

definition mark_verified :: "step_env \<Rightarrow> saga_item \<Rightarrow> world \<Rightarrow> world" where
  "mark_verified env it w = flag_leaks env it (set_item (sg_id it) (\<lambda>x. x\<lparr>sg_verify_passed := True\<rparr>) w)"

text \<open>The backup mark is written whichever of the two tasks was placed.\<close>

definition release_disk :: "step_env \<Rightarrow> mig_config \<Rightarrow> saga_item \<Rightarrow> world \<Rightarrow> world" where
  "release_disk env cfg it w =
     (let i = sg_id it; w1 = restore_storage_status it w;
          retain = audit env cfg it ''moved_ok''
             (set_item i (\<lambda>x. x\<lparr>sg_state := RELEASED, sg_move_delete_task := None, sg_source_retained := True,
                                sg_source_retained_path := Some (sg_src_path it)\<rparr>) w1)
      in if is_media it \<and> en_holders env (sg_storage_id it) \<noteq> Some [] then retain
         else (let (action, reason) = source_action env cfg; lane = pool_queue env (sg_src_path it) action;
                   src_dir = dirname (sg_src_path it)
               in if \<not> en_drainable env lane then retain
                  else audit env cfg it ''moved_ok''
                         (flag it ''delete_backup''
                            [(''path'', path_join (path_join src_dir RECYCLE_BIN_DIR) (basename (sg_src_path it))),
                             (''src_dir'', src_dir)]
                            (set_item i (\<lambda>x. x\<lparr>sg_state := RELEASED, sg_move_delete_task := Some (en_task env i),
                                               sg_source_action := Some action, sg_source_action_reason := reason\<rparr>)
                               (enqueue lane (disposal_task action (sg_src_path it)) w1)))))"

definition skip_release :: "step_env \<Rightarrow> mig_config \<Rightarrow> saga_item \<Rightarrow> world \<Rightarrow> world" where
  "skip_release env cfg it w =
     audit env cfg it ''in_place''
       (restore_storage_status it (set_item (sg_id it) (\<lambda>x. x\<lparr>sg_state := RELEASED\<rparr>) w))"

definition mark_repaired :: "step_env \<Rightarrow> mig_config \<Rightarrow> saga_item \<Rightarrow> world \<Rightarrow> world" where
  "mark_repaired env cfg it w =
     audit env cfg it ''repaired''
       (set_item (sg_id it) (\<lambda>x. x\<lparr>sg_state := REBASED, sg_repair_result := en_repair_result env (sg_repair_task it),
                                   sg_verify_passed := False, sg_verify_task := None\<rparr>) w)"

definition run_action :: "step_env \<Rightarrow> mig_config \<Rightarrow> saga_action \<Rightarrow> saga_item \<Rightarrow> world \<Rightarrow> world" where
  "run_action env cfg action it w =
     (case action of
        Start_preflight \<Rightarrow> start_preflight env cfg it w
      | Destination_exists \<Rightarrow> destination_exists env cfg it w
      | Reconcile_pending \<Rightarrow> reconcile_regressed_pending env it w
      | Start_move \<Rightarrow> start_move env cfg it w
      | Skip_move \<Rightarrow> skip_move it w
      | Mark_moved \<Rightarrow> mark_moved env it w
      | Start_rebase \<Rightarrow> start_rebase env cfg it w
      | Mark_rebased \<Rightarrow> mark_rebased it w
      | Skip_rebase \<Rightarrow> skip_rebase it w
      | Db_update \<Rightarrow> db_update it w
      | Start_verify \<Rightarrow> start_verify env cfg it w
      | Mark_verified \<Rightarrow> mark_verified env it w
      | Release \<Rightarrow> release_disk env cfg it w
      | Skip_release \<Rightarrow> skip_release env cfg it w
      | Mark_repaired \<Rightarrow> mark_repaired env cfg it w
      | Repair_failed \<Rightarrow> terminalize_tree_failure env cfg it None w
      | Fail \<Rightarrow> fail_item env cfg it w
      | Blocked \<Rightarrow> terminalize_tree_failure env cfg it None w
      | _ \<Rightarrow> w)"

definition action_name :: "saga_action \<Rightarrow> string" where
  "action_name action =
     (case action of
        Start_preflight \<Rightarrow> ''start_preflight'' | Destination_exists \<Rightarrow> ''destination_exists''
      | Reconcile_pending \<Rightarrow> ''reconcile_pending'' | Start_move \<Rightarrow> ''start_move'' | Skip_move \<Rightarrow> ''skip_move''
      | Mark_moved \<Rightarrow> ''mark_moved'' | Start_rebase \<Rightarrow> ''start_rebase'' | Mark_rebased \<Rightarrow> ''mark_rebased''
      | Skip_rebase \<Rightarrow> ''skip_rebase'' | Db_update \<Rightarrow> ''db_update'' | Start_verify \<Rightarrow> ''start_verify''
      | Mark_verified \<Rightarrow> ''mark_verified'' | Release \<Rightarrow> ''release'' | Skip_release \<Rightarrow> ''skip_release''
      | Mark_repaired \<Rightarrow> ''mark_repaired'' | Repair_failed \<Rightarrow> ''repair_failed'' | Fail \<Rightarrow> ''fail''
      | Blocked \<Rightarrow> ''blocked'' | Wait \<Rightarrow> ''wait'' | Noop \<Rightarrow> ''noop'' | Tree_done \<Rightarrow> ''tree_done'')"

definition HANDLED :: "saga_action \<Rightarrow> bool" where
  "HANDLED a \<longleftrightarrow> a \<notin> {Wait, Noop, Tree_done}"

text \<open>One step of a tree: the quiesce gate, the decision, the cancel rule, the handler.\<close>

definition step_tree :: "step_env \<Rightarrow> mig_config \<Rightarrow> string \<Rightarrow> bool \<Rightarrow> world \<Rightarrow> world" where
  "step_tree env cfg t finishing w =
     (let its = tree_items t w; (open_gate, w1) = gate_tree env cfg its w
      in if \<not> open_gate then w1
         else (let (oi, action) = tree_next its (en_js env)
               in if cancel_skips_tree its action finishing
                  then cancel_skip_tree env cfg its ''canceled before tree committed'' w1
                  else (case oi of
                          None \<Rightarrow> w1
                        | Some it \<Rightarrow>
                            if \<not> HANDLED action then w1
                            else if en_raises env
                            then set_item (sg_id it) (\<lambda>x. x\<lparr>sg_state := FAILED, sg_error := Some (''action '' @ action_name action @ '' raised'')\<rparr>) w1
                            else run_action env cfg action it w1)))"

end
