(* ===== verification/Migration_Safety.thy ===== *)
theory Migration_Safety
  imports Migration_Runner
begin

text \<open>
  Safety and progress of the migration runner: the invariant of the ledger, the disk rows and the placed
  deletions, its preservation by every handler and hence by every step, and the properties of the
  reachable worlds.
\<close>

section \<open>The safety invariant\<close>

text \<open>The file a task removes, or parks in the recycle bin.\<close>

fun removed_path :: "mig_task \<Rightarrow> string option" where
  "removed_path (T_delete p) = Some p"
| "removed_path (T_move_delete p) = Some p"
| "removed_path _ = None"

lemma removed_disposal [simp]: "removed_path (disposal_task a p) = Some p"
  by (simp add: disposal_task_def)

text \<open>
  A committed disk has passed the verify gate (unless it never moved) and its row points at the
  destination; a copy is owned only when there was something to copy.
\<close>

definition item_ok :: "(string \<Rightarrow> string option) \<Rightarrow> saga_item \<Rightarrow> bool" where
  "item_ok row x \<longleftrightarrow>
     (sg_state x \<in> {DB_UPDATED, RELEASED} \<longrightarrow>
        (item_in_place x \<or> sg_verify_passed x) \<and> (is_media x \<or> row (sg_storage_id x) = sg_dst_dir x))
     \<and> (sg_dst_owned x \<longrightarrow> \<not> item_in_place x) \<and> sg_dst_dir x \<noteq> None"

text \<open>A deletion placed on a path is the source of a released, verified disk, or the copy of an abandoned
  disk whose row does not point there.\<close>

definition delete_ok :: "(string \<Rightarrow> string option) \<Rightarrow> string \<Rightarrow> saga_item \<Rightarrow> bool" where
  "delete_ok row p x \<longleftrightarrow> \<not> item_in_place x \<and>
     ((p = sg_src_path x \<and> sg_state x = RELEASED \<and> sg_verify_passed x)
      \<or> (sg_dst_path x = Some p \<and> sg_state x \<in> {FAILED, SKIPPED} \<and> (is_media x \<or> row (sg_storage_id x) \<noteq> sg_dst_dir x)))"

definition world_ok :: "world \<Rightarrow> bool" where
  "world_ok w \<longleftrightarrow> distinct (map sg_id (wd_items w)) \<and> distinct (map sg_storage_id (wd_items w))
     \<and> (\<forall>x \<in> set (wd_items w). item_ok (wd_dir w) x)
     \<and> (\<forall>l t p. (l, t) \<in> set (wd_tasks w) \<longrightarrow> removed_path t = Some p \<longrightarrow> (\<exists>x \<in> set (wd_items w). delete_ok (wd_dir w) p x))"

definition same_static :: "saga_item \<Rightarrow> saga_item \<Rightarrow> bool" where
  "same_static y x \<longleftrightarrow> sg_id y = sg_id x \<and> sg_storage_id y = sg_storage_id x \<and> sg_tree_id y = sg_tree_id x
     \<and> sg_kind y = sg_kind x \<and> sg_src_path y = sg_src_path x \<and> sg_dst_path y = sg_dst_path x \<and> sg_dst_dir y = sg_dst_dir x"

lemma same_static_simps:
  assumes "same_static y x"
  shows "sg_id y = sg_id x" "sg_storage_id y = sg_storage_id x" "sg_src_path y = sg_src_path x"
    "sg_dst_path y = sg_dst_path x" "sg_dst_dir y = sg_dst_dir x" "is_media y = is_media x" "item_in_place y = item_in_place x"
  using assms by (simp_all add: same_static_def is_media_def item_in_place_def)

lemma set_item_simps [simp]:
  "wd_dir (set_item i f w) = wd_dir w" "wd_tasks (set_item i f w) = wd_tasks w"
  "wd_status (set_item i f w) = wd_status w" "wd_domain (set_item i f w) = wd_domain w"
  "wd_items (set_item i f w) = map (\<lambda>x. if sg_id x = i then f x else x) (wd_items w)"
  by (simp_all add: set_item_def)

text \<open>The frame rule of a ledger write.\<close>

lemma world_ok_set:
  assumes ok: "world_ok w"
    and st: "\<And>x. x \<in> set (wd_items w) \<Longrightarrow> sg_id x = i \<Longrightarrow> same_static (f x) x"
    and it: "\<And>x. x \<in> set (wd_items w) \<Longrightarrow> sg_id x = i \<Longrightarrow> item_ok (wd_dir w) (f x)"
    and de: "\<And>x p. x \<in> set (wd_items w) \<Longrightarrow> sg_id x = i \<Longrightarrow> delete_ok (wd_dir w) p x \<Longrightarrow> delete_ok (wd_dir w) p (f x)"
  shows "world_ok (set_item i f w)"
proof -
  let ?g = "\<lambda>x. if sg_id x = i then f x else x"
  have ids: "map sg_id (map ?g (wd_items w)) = map sg_id (wd_items w)"
    "map sg_storage_id (map ?g (wd_items w)) = map sg_storage_id (wd_items w)"
    using st by (auto simp: same_static_simps)
  have "\<exists>x \<in> set (map ?g (wd_items w)). delete_ok (wd_dir w) p x"
    if task: "(l, t) \<in> set (wd_tasks w)" "removed_path t = Some p" for l t p
  proof -
    obtain x where x: "x \<in> set (wd_items w)" "delete_ok (wd_dir w) p x"
      using ok task unfolding world_ok_def by blast
    then have "delete_ok (wd_dir w) p (?g x)" using de by auto
    moreover have "?g x \<in> set (map ?g (wd_items w))" using imageI [OF x(1), of ?g] unfolding set_map .
    ultimately show ?thesis by (rule bexI)
  qed
  moreover have "item_ok (wd_dir w) y" if "y \<in> set (map ?g (wd_items w))" for y
    using that it ok unfolding world_ok_def by auto
  ultimately show ?thesis
    using ok unfolding world_ok_def set_item_simps ids by blast
qed

definition harmless :: "(saga_item \<Rightarrow> saga_item) \<Rightarrow> bool" where
  "harmless f \<longleftrightarrow> (\<forall>x. same_static (f x) x \<and> sg_state (f x) = sg_state x
     \<and> sg_verify_passed (f x) = sg_verify_passed x \<and> sg_dst_owned (f x) = sg_dst_owned x)"

lemma world_ok_harmless [saga_inv]: "world_ok w \<Longrightarrow> harmless f \<Longrightarrow> world_ok (set_item i f w)"
proof (rule world_ok_set)
  assume ok: "world_ok w" and h: "harmless f"
  fix x p assume x: "x \<in> set (wd_items w)"
  have f: "same_static (f x) x" "sg_state (f x) = sg_state x" "sg_verify_passed (f x) = sg_verify_passed x"
    "sg_dst_owned (f x) = sg_dst_owned x" using h by (simp_all add: harmless_def)
  note s = same_static_simps [OF f(1)]
  show "same_static (f x) x" by (rule f(1))
  have "item_ok (wd_dir w) x" using ok x by (simp add: world_ok_def)
  then show "item_ok (wd_dir w) (f x)" unfolding item_ok_def f s .
  show "delete_ok (wd_dir w) p x \<Longrightarrow> delete_ok (wd_dir w) p (f x)" unfolding delete_ok_def f s .
qed

definition live_id :: "string \<Rightarrow> world \<Rightarrow> bool" where
  "live_id i w \<longleftrightarrow> (\<forall>x \<in> set (wd_items w). sg_id x = i \<longrightarrow> sg_state x \<notin> {RELEASED, FAILED, SKIPPED})"

lemma world_ok_advance:
  assumes "world_ok w" "live_id i w"
    and "\<And>x. x \<in> set (wd_items w) \<Longrightarrow> sg_id x = i \<Longrightarrow> same_static (f x) x \<and> item_ok (wd_dir w) (f x)"
  shows "world_ok (set_item i f w)"
proof (rule world_ok_set [OF assms(1)])
  fix x p assume x: "x \<in> set (wd_items w)" "sg_id x = i"
  show "same_static (f x) x" "item_ok (wd_dir w) (f x)" using assms(3) [OF x] by auto
  show "delete_ok (wd_dir w) p (f x)" if "delete_ok (wd_dir w) p x"
    using that assms(2) x by (auto simp: live_id_def delete_ok_def)
qed

text \<open>Changes outside the ledger, the disk rows and the task log do not matter.\<close>

lemma world_ok_core:
  "wd_items w' = wd_items w \<Longrightarrow> wd_dir w' = wd_dir w \<Longrightarrow> wd_tasks w' = wd_tasks w \<Longrightarrow> world_ok w' = world_ok w"
  by (simp only: world_ok_def)

lemma restore_domain_core [simp]:
  "wd_items (restore_domain d w) = wd_items w" "wd_dir (restore_domain d w) = wd_dir w"
  "wd_tasks (restore_domain d w) = wd_tasks w"
  by (simp_all add: restore_domain_def)

lemma restore_domains_core [simp]:
  "wd_items (restore_domains it w) = wd_items w" "wd_dir (restore_domains it w) = wd_dir w"
  "wd_tasks (restore_domains it w) = wd_tasks w"
proof -
  have "wd_items (fold restore_domain ds w) = wd_items w \<and> wd_dir (fold restore_domain ds w) = wd_dir w
      \<and> wd_tasks (fold restore_domain ds w) = wd_tasks w" for ds
    by (induction ds arbitrary: w) auto
  then show "wd_items (restore_domains it w) = wd_items w" "wd_dir (restore_domains it w) = wd_dir w"
    "wd_tasks (restore_domains it w) = wd_tasks w" by (simp_all add: restore_domains_def)
qed

lemma restore_core [simp]:
  "wd_items (restore_storage_status it w) = wd_items w" "wd_dir (restore_storage_status it w) = wd_dir w"
  "wd_tasks (restore_storage_status it w) = wd_tasks w"
  by (simp_all add: restore_storage_status_def Let_def)

lemma world_ok_restore [simp]: "world_ok (restore_storage_status it w) = world_ok w"
  by (rule world_ok_core) simp_all

lemma world_ok_enqueue [saga_inv]: "world_ok w \<Longrightarrow> removed_path t = None \<Longrightarrow> world_ok (enqueue l t w)"
  by (auto simp: world_ok_def enqueue_def)

lemma world_ok_enqueue_delete:
  "world_ok w \<Longrightarrow> x \<in> set (wd_items w) \<Longrightarrow> removed_path t = Some p \<Longrightarrow> delete_ok (wd_dir w) p x \<Longrightarrow> world_ok (enqueue l t w)"
  by (auto simp: world_ok_def enqueue_def)

lemma set_item_enqueue: "set_item i f (enqueue a p w) = enqueue a p (set_item i f w)"
  by (simp add: set_item_def enqueue_def)

lemma spend_core [simp]:
  "wd_items (spend_budget env cfg r n w) = wd_items w" "wd_dir (spend_budget env cfg r n w) = wd_dir w"
  "wd_tasks (spend_budget env cfg r n w) = wd_tasks w"
  by (simp_all add: spend_budget_def split: sum.split)

lemma flag_core [simp]:
  "wd_items (flag it a d w) = wd_items w" "wd_dir (flag it a d w) = wd_dir w" "wd_tasks (flag it a d w) = wd_tasks w"
  by (simp_all add: flag_def)

lemma claim_task_core [simp]:
  "wd_items (claim_storage_task it i w) = wd_items w" "wd_dir (claim_storage_task it i w) = wd_dir w"
  "wd_tasks (claim_storage_task it i w) = wd_tasks w"
  by (simp_all add: claim_storage_task_def)

lemma throughput_core [simp]:
  "wd_items (record_throughput env it w) = wd_items w" "wd_dir (record_throughput env it w) = wd_dir w"
  "wd_tasks (record_throughput env it w) = wd_tasks w"
  by (simp_all add: record_throughput_def Let_def split: option.split)

lemma world_ok_frames [simp]:
  "world_ok (spend_budget env cfg r n w) = world_ok w" "world_ok (flag it a d w) = world_ok w"
  "world_ok (claim_storage_task it i w) = world_ok w" "world_ok (record_throughput env it w) = world_ok w"
  by (rule world_ok_core; simp)+

lemma enqueue_frames:
  "spend_budget env cfg r n (enqueue l t w) = enqueue l t (spend_budget env cfg r n w)"
  "flag it a d (enqueue l t w) = enqueue l t (flag it a d w)"
  by (cases "add_budget_spent (audit_occurrence env) n (wd_budget w)") (simp_all add: spend_budget_def flag_def enqueue_def)

lemma audit_enqueue: "audit env cfg it r (enqueue l t w) = enqueue l t (audit env cfg it r w)"
  by (simp add: audit_def set_item_enqueue enqueue_frames)

lemma harmless_audit: "harmless (\<lambda>x. x\<lparr>sg_audit := g x\<rparr>)"
  by (simp add: harmless_def same_static_def)

lemma world_ok_audit [saga_inv]: "world_ok w \<Longrightarrow> world_ok (audit env cfg it r w)"
  unfolding audit_def world_ok_frames by (erule world_ok_harmless) (rule harmless_audit)

lemma audit_core [simp]:
  "wd_dir (audit env cfg it r w) = wd_dir w" "wd_tasks (audit env cfg it r w) = wd_tasks w"
  by (simp_all add: audit_def)

lemma row_set: "x \<in> set (wd_items w) \<Longrightarrow> sg_id x = i \<Longrightarrow> f x \<in> set (wd_items (set_item i f w))"
  by auto

section \<open>Handlers keep the invariant\<close>

text \<open>No released disk under an id: such a disk may be retired.\<close>

definition unreleased :: "string \<Rightarrow> world \<Rightarrow> bool" where
  "unreleased i w \<longleftrightarrow> (\<forall>x \<in> set (wd_items w). sg_id x = i \<longrightarrow> sg_state x \<noteq> RELEASED)"

lemma world_ok_retire:
  assumes "world_ok w" "unreleased i w" "st \<in> {FAILED, SKIPPED}"
  shows "world_ok (set_item i (\<lambda>x. x\<lparr>sg_state := st, sg_error := e\<rparr>) w)"
proof (rule world_ok_set [OF assms(1)])
  fix x p assume x: "x \<in> set (wd_items w)" "sg_id x = i"
  have s: "same_static (x\<lparr>sg_state := st, sg_error := e\<rparr>) x" by (simp add: same_static_def)
  then show "same_static (x\<lparr>sg_state := st, sg_error := e\<rparr>) x" .
  have "item_ok (wd_dir w) x" using assms(1) x by (simp add: world_ok_def)
  then show "item_ok (wd_dir w) (x\<lparr>sg_state := st, sg_error := e\<rparr>)"
    using assms(3) by (auto simp: item_ok_def item_in_place_def is_media_def)
  show "delete_ok (wd_dir w) p (x\<lparr>sg_state := st, sg_error := e\<rparr>)" if "delete_ok (wd_dir w) p x"
    using that assms(2,3) x by (auto simp: delete_ok_def unreleased_def item_in_place_def is_media_def)
qed

lemma unreleased_set:
  assumes "unreleased j w" "\<And>x. sg_id (f x) = sg_id x" "\<And>x. sg_state (f x) = sg_state x \<or> sg_state (f x) \<noteq> RELEASED"
  shows "unreleased j (set_item i f w)"
  using assms unfolding unreleased_def by (auto; metis)

lemma unreleased_core: "wd_items w' = wd_items w \<Longrightarrow> unreleased j w' = unreleased j w"
  by (simp add: unreleased_def)

lemma unreleased_frames [simp]:
  "unreleased j (spend_budget env cfg r n w) = unreleased j w" "unreleased j (flag it a d w) = unreleased j w"
  by (rule unreleased_core; simp)+

lemma unreleased_audit: "unreleased j w \<Longrightarrow> unreleased j (audit env cfg it r w)"
  unfolding audit_def unreleased_frames by (erule unreleased_set) simp_all

lemma unreleased_enqueue [simp]: "unreleased j (enqueue a p w) = unreleased j w"
  by (simp add: unreleased_def enqueue_def)

lemma unreleased_restore [simp]: "unreleased j (restore_storage_status it w) = unreleased j w"
  by (rule unreleased_core) simp

text \<open>What discarding an abandoned copy does: a note on the row, and at most one deletion of a copy the
  row does not point at.\<close>

lemma harmless_fields [simp]:
  "harmless (\<lambda>x. x\<lparr>sg_preflight_task := t\<rparr>)" "harmless (\<lambda>x. x\<lparr>sg_rebase_task := t\<rparr>)"
  "harmless (\<lambda>x. x\<lparr>sg_verify_task := t\<rparr>)" "harmless (\<lambda>x. x\<lparr>sg_abandon_restarts := n\<rparr>)"
  "harmless (\<lambda>x. x\<lparr>sg_error := e\<rparr>)" "harmless (\<lambda>x. x\<lparr>sg_orig_status := t\<rparr>)"
  "harmless (\<lambda>x. x\<lparr>sg_maintenance_domains := ds\<rparr>)" "harmless (\<lambda>x. x\<lparr>sg_attempts := n\<rparr>)"
  "harmless (\<lambda>x. x\<lparr>sg_repair_action := t, sg_repair_attempted := True\<rparr>)"
  "harmless (\<lambda>x. x\<lparr>sg_dst_retained_path := t\<rparr>)"
  "harmless (\<lambda>x. x\<lparr>sg_dst_retained := True, sg_dst_retained_path := t\<rparr>)"
  "harmless (\<lambda>x. x\<lparr>sg_dst_action := t, sg_dst_action_reason := r, sg_dst_task := u\<rparr>)"
  "harmless (\<lambda>x. x\<lparr>sg_damaged := True, sg_damage_reason := t\<rparr>)"
  by (simp_all add: harmless_def same_static_def)

lemma discard_cases:
  obtains (none) "discard_destination env cfg it w = w"
  | (noted) f where "harmless f" "discard_destination env cfg it w = set_item (sg_id it) f w"
  | (placed) f l t p where "harmless f" "discard_destination env cfg it w = enqueue l t (set_item (sg_id it) f w)"
      "removed_path t = Some p" "sg_dst_path it = Some p" "sg_dst_owned it" "\<not> row_at_destination it w"
proof -
  let ?f = "\<lambda>x. x\<lparr>sg_dst_retained := True, sg_dst_retained_path := sg_dst_path it\<rparr>"
  have r: "retain_destination it w = set_item (sg_id it) ?f w" by (simp only: retain_destination_def)
  note keep = noted [OF harmless_fields(11), of "sg_dst_path it", folded r]
  obtain a rs where act: "source_action env cfg = (a, rs)" by fastforce
  consider "sg_state it \<notin> set COPIED_UNCOMMITTED \<or> \<not> truthy_str (sg_dst_path it)"
    | "sg_state it \<in> set COPIED_UNCOMMITTED" "truthy_str (sg_dst_path it)" "\<not> sg_dst_owned it"
    | "sg_state it \<in> set COPIED_UNCOMMITTED" "truthy_str (sg_dst_path it)" "sg_dst_owned it" "row_at_destination it w"
    | "sg_state it \<in> set COPIED_UNCOMMITTED" "truthy_str (sg_dst_path it)" "sg_dst_owned it" "\<not> row_at_destination it w"
    by blast
  then show thesis
  proof cases
    case 1
    then show thesis using none by (auto simp: discard_destination_def)
  next
    case 2
    then show thesis using keep by (simp add: discard_destination_def)
  next
    case 3
    then show thesis using none by (simp add: discard_destination_def)
  next
    case 4
    then obtain p where p: "sg_dst_path it = Some p" by (auto elim: truthy_strE)
    let ?l = "pool_queue env (dst_of it) a"
    show thesis
    proof (cases "en_drainable env ?l")
      case True
      then have "discard_destination env cfg it w = enqueue ?l (disposal_task a (dst_of it)) (set_item (sg_id it)
          (\<lambda>x. x\<lparr>sg_dst_action := Some a, sg_dst_action_reason := rs, sg_dst_task := Some (en_task env (sg_id it))\<rparr>) w)"
        using 4 act by (simp add: discard_destination_def set_item_enqueue)
      then show thesis using placed [OF harmless_fields(12)] 4 p by (simp add: dst_of_def)
    next
      case False
      then show thesis using keep 4 act by (simp add: discard_destination_def)
    qed
  qed
qed

lemma mark_damaged_core:
  "wd_items (mark_damaged it d w) = wd_items (set_item (sg_id it) (\<lambda>x. x\<lparr>sg_damaged := True, sg_damage_reason := Some d\<rparr>) w)"
  "wd_dir (mark_damaged it d w) = wd_dir w" "wd_tasks (mark_damaged it d w) = wd_tasks w"
  by (simp_all add: mark_damaged_def Let_def)

lemma mark_damaged_ok:
  "world_ok w \<Longrightarrow> world_ok (mark_damaged it d w)" "unreleased j w \<Longrightarrow> unreleased j (mark_damaged it d w)"
proof -
  let ?w = "set_item (sg_id it) (\<lambda>x. x\<lparr>sg_damaged := True, sg_damage_reason := Some d\<rparr>) w"
  have core: "wd_items (mark_damaged it d w) = wd_items ?w" "wd_dir (mark_damaged it d w) = wd_dir ?w"
    "wd_tasks (mark_damaged it d w) = wd_tasks ?w"
    by (simp_all add: mark_damaged_def Let_def)
  show "world_ok w \<Longrightarrow> world_ok (mark_damaged it d w)"
    unfolding world_ok_core [OF core] by (erule world_ok_harmless) simp
  show "unreleased j w \<Longrightarrow> unreleased j (mark_damaged it d w)"
    unfolding unreleased_core [OF core(1)] by (erule unreleased_set) simp_all
qed

lemma mark_damaged_enqueue: "mark_damaged it d (enqueue l t w) = enqueue l t (mark_damaged it d w)"
  by (simp add: mark_damaged_def Let_def set_item_enqueue) (simp add: enqueue_def flag_def)

text \<open>Retiring a disk: its damage noted, its final state, its audit record.\<close>

definition retire_item ::
  "step_env \<Rightarrow> mig_config \<Rightarrow> saga_item \<Rightarrow> item_state \<Rightarrow> string \<Rightarrow> string \<Rightarrow> string option \<Rightarrow> world \<Rightarrow> world" where
  "retire_item env cfg it st why result damage w =
     audit env cfg it result (set_item (sg_id it) (\<lambda>x. x\<lparr>sg_state := st, sg_error := Some why\<rparr>)
       (case damage of None \<Rightarrow> w | Some d \<Rightarrow> mark_damaged it d w))"

lemma retire_enqueue: "retire_item env cfg it st why r d (enqueue l t w) = enqueue l t (retire_item env cfg it st why r d w)"
  by (cases d) (simp_all add: retire_item_def set_item_enqueue audit_enqueue mark_damaged_enqueue)

lemma retire_dir [simp]: "wd_dir (retire_item env cfg it st why r d w) = wd_dir w"
  by (cases d) (simp_all add: retire_item_def mark_damaged_core)

lemma retire_ok:
  assumes "world_ok w" "unreleased (sg_id it) w" "st \<in> {FAILED, SKIPPED}"
  shows "world_ok (retire_item env cfg it st why r d w)"
    "unreleased j w \<Longrightarrow> unreleased j (retire_item env cfg it st why r d w)"
proof -
  let ?w = "case d of None \<Rightarrow> w | Some d \<Rightarrow> mark_damaged it d w"
  have w: "world_ok ?w" "\<And>j. unreleased j w \<Longrightarrow> unreleased j ?w"
    using assms(1) by (cases d; simp add: mark_damaged_ok)+
  show "world_ok (retire_item env cfg it st why r d w)"
    unfolding retire_item_def by (rule world_ok_audit, rule world_ok_retire [OF w assms(3)], rule assms(2))
  show "unreleased j w \<Longrightarrow> unreleased j (retire_item env cfg it st why r d w)"
    unfolding retire_item_def using w(2) assms(3) by (auto intro!: unreleased_audit unreleased_set)
qed

lemma retire_row:
  assumes "x \<in> set (wd_items w)" "sg_id x = sg_id it"
  obtains y where "y \<in> set (wd_items (retire_item env cfg it st why r d w))" "same_static y x" "sg_state y = st"
proof -
  obtain z where z: "z \<in> set (wd_items (case d of None \<Rightarrow> w | Some d \<Rightarrow> mark_damaged it d w))" "same_static z x"
  proof (cases d)
    case None
    then show thesis using that [of x] assms by (simp add: same_static_def)
  next
    case (Some e)
    have "x\<lparr>sg_damaged := True, sg_damage_reason := Some e\<rparr> \<in> set (wd_items (mark_damaged it e w))"
      unfolding mark_damaged_core by (rule row_set [OF assms])
    then show thesis using that Some by (simp add: same_static_def)
  qed
  have "sg_id z = sg_id it" using same_static_simps(1) [OF z(2)] assms(2) by simp
  note r1 = row_set [OF z(1) this, of "\<lambda>x. x\<lparr>sg_state := st, sg_error := Some why\<rparr>"]
  let ?z = "z\<lparr>sg_state := st, sg_error := Some why\<rparr>"
  have zi: "sg_id ?z = sg_id it" using \<open>sg_id z = sg_id it\<close> by simp
  note r2 = row_set [OF r1 zi, of "\<lambda>x. x\<lparr>sg_audit := sg_audit x @ [build_audit_record x r (audit_occurrence env) (en_now env)]\<rparr>"]
  show thesis
    by (rule that [of "?z\<lparr>sg_audit := sg_audit ?z @ [build_audit_record ?z r (audit_occurrence env) (en_now env)]\<rparr>"])
       (use r2 z(2) in \<open>simp_all add: retire_item_def audit_def same_static_def\<close>)
qed

lemma abandon_item_ok:
  assumes ok: "world_ok w" and un: "unreleased i w" and st: "st \<in> {FAILED, SKIPPED}"
  shows "world_ok (abandon_item env cfg i st why result damage w)
     \<and> (\<forall>j. unreleased j w \<longrightarrow> unreleased j (abandon_item env cfg i st why result damage w))"
proof (cases "List.find (\<lambda>x. sg_id x = i) (wd_items w)")
  case None
  then show ?thesis using ok by (simp add: abandon_item_def with_item_def)
next
  case (Some it)
  have it: "it \<in> set (wd_items w)" "sg_id it = i" using find_mem [OF Some] by auto
  let ?w1 = "restore_storage_status it w" and ?r = "retire_item env cfg it st why result damage"
  have ab: "abandon_item env cfg i st why result damage w = ?r (discard_destination env cfg it ?w1)"
    using Some it(2) by (simp add: abandon_item_def with_item_def Let_def retire_item_def)
  have un_h: "unreleased j v \<Longrightarrow> harmless f \<Longrightarrow> unreleased j (set_item k f v)" for j v f k
    by (erule unreleased_set) (auto simp: harmless_def same_static_def)
  have w1: "world_ok ?w1" "unreleased (sg_id it) ?w1" using ok un it(2) by simp_all
  show ?thesis
  proof (cases rule: discard_cases [of env cfg it ?w1])
    case none
    then show ?thesis using retire_ok [OF w1 st] by (simp add: ab)
  next
    case (noted f)
    have "world_ok (set_item (sg_id it) f ?w1)" "unreleased (sg_id it) (set_item (sg_id it) f ?w1)"
      using world_ok_harmless [OF w1(1) noted(1)] un_h [OF w1(2) noted(1)] by simp_all
    from retire_ok [OF this st] show ?thesis using un_h [OF _ noted(1)] by (simp add: ab noted(2))
  next
    case (placed f l t p)
    let ?v = "set_item (sg_id it) f ?w1"
    have v: "world_ok ?v" "unreleased (sg_id it) ?v"
      using world_ok_harmless [OF w1(1) placed(1)] un_h [OF w1(2) placed(1)] by simp_all
    have f: "same_static (f it) it" using placed(1) by (simp add: harmless_def)
    have fi: "f it \<in> set (wd_items ?v)" "sg_id (f it) = sg_id it"
      using row_set [of it ?w1 "sg_id it" f] it(1) same_static_simps(1) [OF f] by simp_all
    obtain y where y: "y \<in> set (wd_items (?r ?v))" "same_static y (f it)" "sg_state y = st"
      using retire_row [OF fi] by blast
    note ys = same_static_simps [OF y(2), unfolded same_static_simps [OF f]]
    have iok: "item_ok (wd_dir w) it" using ok it by (simp add: world_ok_def)
    have "\<not> item_in_place it" using iok placed(5) by (simp add: item_ok_def)
    moreover have "is_media it \<or> wd_dir w (sg_storage_id it) \<noteq> sg_dst_dir it"
      using placed(6) iok by (auto simp: row_at_destination_def item_ok_def)
    ultimately have "delete_ok (wd_dir (?r ?v)) p y"
      using placed(4) ys y(3) st by (auto simp: delete_ok_def)
    then have "world_ok (enqueue l t (?r ?v))"
      by (rule world_ok_enqueue_delete [OF retire_ok(1) [OF v st] y(1) placed(3)])
    moreover have "abandon_item env cfg i st why result damage w = enqueue l t (?r ?v)"
      using placed(2) by (simp add: ab retire_enqueue)
    ultimately show ?thesis using retire_ok(2) [OF v st] un_h [OF _ placed(1)] by simp
  qed
qed

lemma abandon_change_ok:
  assumes "world_ok w" "unreleased (sg_id it) w" "st \<in> {FAILED, SKIPPED}"
  shows "world_ok (abandon_change env cfg trigger damage (it, st, why) w)
     \<and> (\<forall>j. unreleased j w \<longrightarrow> unreleased j (abandon_change env cfg trigger damage (it, st, why) w))"
  unfolding abandon_change_def prod.case by (rule abandon_item_ok [OF assms])

lemma fold_abandon_ok:
  assumes "world_ok w" "\<And>it st why. (it, st, why) \<in> set cs \<Longrightarrow> unreleased (sg_id it) w \<and> st \<in> {FAILED, SKIPPED}"
  shows "world_ok (fold (abandon_change env cfg trigger damage) cs w)"
  using assms
proof (induction cs arbitrary: w)
  case (Cons c cs)
  obtain it st why where c: "c = (it, st, why)" by (cases c)
  let ?w = "abandon_change env cfg trigger damage c w"
  have h: "unreleased (sg_id it) w" "st \<in> {FAILED, SKIPPED}" using Cons.prems(2) [of it st why] c by auto
  note step = abandon_change_ok [OF Cons.prems(1) h]
  have "unreleased (sg_id it') ?w \<and> st' \<in> {FAILED, SKIPPED}" if "(it', st', why') \<in> set cs" for it' st' why'
    using Cons.prems(2) [of it' st' why'] that step c by simp
  then have "world_ok (fold (abandon_change env cfg trigger damage) cs ?w)"
    using Cons.IH [of ?w] step c by simp
  then show ?case by simp
qed simp

lemma id_unique:
  assumes "world_ok w" "x \<in> set (wd_items w)" "y \<in> set (wd_items w)" "sg_id x = sg_id y"
  shows "x = y"
  using assms unfolding world_ok_def by (meson distinct_map inj_onD)

lemma sid_unique:
  assumes "world_ok w" "x \<in> set (wd_items w)" "y \<in> set (wd_items w)" "sg_storage_id x = sg_storage_id y"
  shows "x = y"
  using assms unfolding world_ok_def by (meson distinct_map inj_onD)

lemma plan_tree_failure_states:
  "(x, st, why) \<in> set (plan_tree_failure its sid reason) \<Longrightarrow>
     x \<in> set its \<and> sg_state x \<notin> set TERMINAL_STATES \<and> st \<in> {FAILED, SKIPPED}"
  by (auto simp: plan_tree_failure_def Let_def split: if_splits)

lemma plan_tree_failure_covers:
  assumes "x \<in> set its" "sg_state x \<notin> set TERMINAL_STATES"
  shows "\<exists>st why. (x, st, why) \<in> set (plan_tree_failure its sid reason)"
proof -
  let ?h = "\<lambda>it. if sg_storage_id it = sid
     then (it, FAILED, if truthy_str reason then the reason else ''move/rebase task failed'')
     else if sg_id it \<in> set (descendant_item_ids its sid False) then (it, SKIPPED, ''ancestor disk failed'')
     else (it, SKIPPED, ''tree abandoned after a disk in it failed'')"
  have "?h x \<in> set (plan_tree_failure its sid reason)"
    unfolding plan_tree_failure_def Let_def set_map by (rule imageI) (use assms in simp)
  moreover obtain st why where "?h x = (x, st, why)" by (cases "?h x") (simp split: if_splits)
  ultimately show ?thesis by auto
qed

lemma terminalize_ok [saga_inv]:
  assumes ok: "world_ok w"
  shows "world_ok (terminalize_tree_failure env cfg it reason w)"
proof -
  let ?its = "tree_items (sg_tree_id it) w"
  let ?r = "if reason \<noteq> None then reason else failure_reason env it"
  let ?cs = "plan_tree_failure ?its (sg_storage_id it) ?r"
  let ?w1 = "restore_storage_status it w"
  define w2 where "w2 = (if sg_id it \<notin> set (map (\<lambda>(x, s, r). sg_id x) ?cs) \<and> sg_state it = FAILED
     then audit env cfg it ''failed'' (case damage_from_reason ?r of None \<Rightarrow> ?w1 | Some d \<Rightarrow> mark_damaged it d ?w1) else ?w1)"
  have w2: "world_ok w2" "\<And>j. unreleased j w \<Longrightarrow> unreleased j w2"
    using ok by (simp_all add: w2_def world_ok_audit mark_damaged_ok unreleased_audit split: option.split)
  have "unreleased (sg_id x) w2 \<and> st \<in> {FAILED, SKIPPED}" if "(x, st, why) \<in> set ?cs" for x st why
  proof -
    have x: "x \<in> set ?its" "sg_state x \<notin> set TERMINAL_STATES" "st \<in> {FAILED, SKIPPED}"
      using plan_tree_failure_states [OF that] by auto
    have "unreleased (sg_id x) w"
      unfolding unreleased_def
    proof (intro ballI impI)
      fix y assume y: "y \<in> set (wd_items w)" "sg_id y = sg_id x"
      have "x \<in> set (wd_items w)" using x(1) by (simp add: tree_items_def)
      then have "y = x" using id_unique [OF ok] y by blast
      then show "sg_state y \<noteq> RELEASED" using x(2) by (auto simp: TERMINAL_STATES_def)
    qed
    then show ?thesis using w2(2) x(3) by blast
  qed
  then have "world_ok (fold (abandon_change env cfg it (damage_from_reason ?r)) ?cs w2)"
    using fold_abandon_ok [OF w2(1)] by blast
  then show ?thesis
    using ok unfolding terminalize_tree_failure_def Let_def w2_def by (simp split: if_split)
qed

lemma blocked_ok: "world_ok w \<Longrightarrow> world_ok (snd (abandon_resume_blocked env cfg it w))"
  by (cases "List.find (\<lambda>x. sg_id x = sg_id it) (wd_items w)")
     (simp_all add: abandon_resume_blocked_def Let_def terminalize_ok world_ok_harmless)

lemma resume_ok:
  assumes "world_ok w" "harmless f" "harmless g" "removed_path t = None"
  shows "world_ok (case (if c then abandon_resume_blocked env cfg it (set_item i f w) else (False, set_item i f w)) of
           (blocked, w2) \<Rightarrow> if blocked then w2 else set_item i g (claim_storage_task it' n (enqueue l t w2)))"
proof -
  have "world_ok (set_item i f w)" using assms by (simp add: world_ok_harmless)
  moreover from blocked_ok [OF this, of env cfg it]
  have "world_ok w2" if "abandon_resume_blocked env cfg it (set_item i f w) = (b, w2)" for b w2
    using that by simp
  ultimately show ?thesis
    using assms by (auto split: prod.split intro!: world_ok_harmless simp: world_ok_enqueue)
qed

lemma if_ok [saga_inv]: "world_ok a \<Longrightarrow> world_ok b \<Longrightarrow> world_ok (if c then a else b)"
  by simp

lemma start_preflight_ok: "world_ok w \<Longrightarrow> world_ok (start_preflight env cfg it w)"
  unfolding start_preflight_def Let_def by (intro saga_inv resume_ok) simp_all

lemma start_rebase_ok: "world_ok w \<Longrightarrow> world_ok (start_rebase env cfg it w)"
  unfolding start_rebase_def Let_def by (intro saga_inv resume_ok) simp_all

lemma start_verify_ok: "world_ok w \<Longrightarrow> world_ok (start_verify env cfg it w)"
  unfolding start_verify_def Let_def by (intro saga_inv resume_ok) simp_all

text \<open>Moving a disk along the saga short of the commit.\<close>

definition advances :: "(saga_item \<Rightarrow> saga_item) \<Rightarrow> bool" where
  "advances f \<longleftrightarrow> (\<forall>x. same_static (f x) x \<and> sg_state (f x) \<notin> {DB_UPDATED, RELEASED}
     \<and> (sg_dst_owned (f x) \<longrightarrow> sg_dst_owned x))"

lemma advance_ok:
  assumes "world_ok w" "live_id i w" "advances f"
  shows "world_ok (set_item i f w)"
proof (rule world_ok_advance [OF assms(1,2)])
  fix x assume x: "x \<in> set (wd_items w)" "sg_id x = i"
  have f: "same_static (f x) x" "sg_state (f x) \<notin> {DB_UPDATED, RELEASED}" "sg_dst_owned (f x) \<longrightarrow> sg_dst_owned x"
    using assms(3) by (simp_all add: advances_def)
  have "item_ok (wd_dir w) x" using assms(1) x by (simp add: world_ok_def)
  then show "same_static (f x) x \<and> item_ok (wd_dir w) (f x)"
    using f same_static_simps [OF f(1)] by (auto simp: item_ok_def)
qed

lemma live_set:
  assumes "live_id j w" "\<And>x. sg_id (f x) = sg_id x"
    and "\<And>x. sg_state (f x) = sg_state x \<or> sg_state (f x) \<notin> {RELEASED, FAILED, SKIPPED}"
  shows "live_id j (set_item i f w)"
  unfolding live_id_def
proof (intro ballI impI)
  fix y assume "y \<in> set (wd_items (set_item i f w))" "sg_id y = j"
  then obtain x where x: "x \<in> set (wd_items w)" "y = (if sg_id x = i then f x else x)" by (auto split: if_splits)
  then have "sg_id x = j" using assms(2) \<open>sg_id y = j\<close> by (auto split: if_splits)
  then have "sg_state x \<notin> {RELEASED, FAILED, SKIPPED}" using assms(1) x by (auto simp: live_id_def)
  then show "sg_state y \<notin> {RELEASED, FAILED, SKIPPED}" using assms(3) [of x] x(2) by auto
qed

lemma live_of:
  assumes "world_ok w" "it \<in> set (wd_items w)" "sg_state it \<notin> {RELEASED, FAILED, SKIPPED}"
  shows "live_id (sg_id it) w"
  unfolding live_id_def
proof (intro ballI impI)
  fix x assume "x \<in> set (wd_items w)" "sg_id x = sg_id it"
  from id_unique [OF assms(1) this(1) assms(2) this(2)] show "sg_state x \<notin> {RELEASED, FAILED, SKIPPED}"
    using assms(3) by simp
qed

lemma live_core: "wd_items w' = wd_items w \<Longrightarrow> live_id j w' = live_id j w"
  by (simp add: live_id_def)

lemma live_harmless: "live_id j w \<Longrightarrow> harmless f \<Longrightarrow> live_id j (set_item i f w)"
  by (erule live_set) (auto simp: harmless_def same_static_def)

lemma live_restore [simp]: "live_id j (restore_storage_status it w) = live_id j w"
  by (rule live_core) simp

lemma defer_for_space_ok:
  assumes "world_ok w" "live_id (sg_id it) w"
  shows "world_ok (defer_for_space env cfg it reason w)"
proof -
  let ?f = "\<lambda>x. x\<lparr>sg_state := PENDING, sg_move_task := None, sg_dst_owned := False, sg_maintenance_domains := None,
     sg_orig_status := None, sg_error := reason, sg_space_deferrals := sg_space_deferrals it + 1\<rparr>"
  have "world_ok (set_item (sg_id it) ?f (restore_storage_status it w))"
    by (rule advance_ok) (use assms in \<open>simp_all add: advances_def same_static_def\<close>)
  then have "world_ok (audit env cfg it ''deferred_space'' (set_item (sg_id it) ?f (restore_storage_status it w)))"
    by (rule world_ok_audit)
  moreover have "world_ok (v\<lparr>wd_space_deferred := True\<rparr>) = world_ok v" for v by (rule world_ok_core) simp_all
  ultimately show ?thesis by (simp add: defer_for_space_def)
qed

lemma try_repair_ok:
  assumes "world_ok w" "live_id (sg_id it) w"
  shows "world_ok (snd (try_repair env cfg it what w))"
proof -
  let ?f = "\<lambda>x. x\<lparr>sg_state := REPAIRING, sg_repair_task := Some (en_task env (sg_id it)),
     sg_repair_action := Some what, sg_repair_attempted := True\<rparr>"
  have "world_ok (set_item (sg_id it) ?f w)"
    by (rule advance_ok [OF assms]) (simp add: advances_def same_static_def)
  then have "world_ok (enqueue l (T_repair p what) (audit env cfg it r (set_item (sg_id it) ?f w)))" for l p r
    by (intro world_ok_enqueue world_ok_audit) simp_all
  then show ?thesis using assms(1) by (simp add: try_repair_def Let_def set_item_enqueue audit_enqueue)
qed

lemma fail_item_ok:
  assumes "world_ok w" "live_id (sg_id it) w"
  shows "world_ok (fail_item env cfg it w)"
proof -
  have "world_ok (skip_repair_has_descendants env cfg it w)"
    unfolding skip_repair_has_descendants_def world_ok_frames
    by (intro saga_inv) (use assms in simp_all)
  moreover have "world_ok (case try_repair env cfg it what w of (True, w') \<Rightarrow> w' | (False, w') \<Rightarrow> terminalize_tree_failure env cfg it r w')" for r what
    using try_repair_ok [OF assms, of env cfg what] by (cases "try_repair env cfg it what w") (auto simp: terminalize_ok split: bool.split)
  ultimately show ?thesis
    unfolding fail_item_def Let_def using defer_for_space_ok [OF assms] terminalize_ok [OF assms(1)]
    by (intro if_ok)
qed

lemma park_ok:
  assumes "world_ok w" "live_id j w"
  shows "world_ok (park_domains env it w)" "live_id j (park_domains env it w)"
proof -
  let ?v = "set_item (sg_id it) (\<lambda>x. x\<lparr>sg_maintenance_domains :=
      Some (filter (\<lambda>d. wd_domain w d = Some ''Stopped'') (en_domains env (sg_storage_id it)))\<rparr>) w"
  have "world_ok ?v" "live_id j ?v" using assms by (simp_all add: world_ok_harmless live_harmless)
  moreover have "world_ok (v\<lparr>wd_current_action := n, wd_domain := m\<rparr>) = world_ok v"
    "live_id j (v\<lparr>wd_current_action := n, wd_domain := m\<rparr>) = live_id j v" for v m n
    by (rule world_ok_core live_core; simp)+
  ultimately show "world_ok (park_domains env it w)" "live_id j (park_domains env it w)"
    using assms unfolding park_domains_def Let_def by simp_all
qed

lemma prepare_ok:
  assumes "world_ok w" "live_id (sg_id it) w"
  shows "world_ok (snd (prepare_disk_for_move env cfg it w))
     \<and> (fst (prepare_disk_for_move env cfg it w) \<longrightarrow> live_id (sg_id it) (snd (prepare_disk_for_move env cfg it w)))"
proof -
  let ?why = "''cannot record the disk's pre-migration status; refusing to move it rather than risk restoring the wrong one''"
  define w1 where "w1 = (if sg_orig_status it = None
     then set_item (sg_id it) (\<lambda>x. x\<lparr>sg_orig_status := wd_status w (sg_storage_id it)\<rparr>) w else w)"
  have w1: "world_ok w1" "live_id (sg_id it) w1" using assms by (simp_all add: w1_def world_ok_harmless live_harmless)
  define w2 where "w2 = (if wd_status w1 (sg_storage_id it) = None then w1
     else w1\<lparr>wd_status := (wd_status w1)(sg_storage_id it := Some ''maintenance'')\<rparr>)"
  have w2: "world_ok w2" "live_id (sg_id it) w2"
    using w1 world_ok_core [of w2 w1] live_core [of w2 w1 "sg_id it"] by (simp_all add: w2_def)
  have "world_ok (fail_item env cfg (it\<lparr>sg_error := Some ?why\<rparr>) (set_item (sg_id it) (\<lambda>x. x\<lparr>sg_error := Some ?why\<rparr>) w))"
    by (rule fail_item_ok) (use assms in \<open>simp_all add: world_ok_harmless live_harmless\<close>)
  then show ?thesis
    using park_ok [OF w2] unfolding prepare_disk_for_move_def Let_def w1_def [symmetric] w2_def [symmetric]
    by (simp only: if_distrib [of snd] if_distrib [of fst] fst_conv snd_conv split: if_split) simp
qed

lemma resume_not_blocked:
  "abandon_resume_blocked env cfg it w = (False, w2) \<Longrightarrow> live_id j w \<Longrightarrow> live_id j w2"
  by (auto simp: abandon_resume_blocked_def Let_def live_harmless split: if_splits option.splits)

lemma start_move_ok:
  assumes ok: "world_ok w" and it: "it \<in> set (wd_items w)"
    and fresh: "sg_state it = PENDING \<Longrightarrow> \<not> item_in_place it"
  shows "world_ok (start_move env cfg it w)"
proof -
  let ?i = "sg_id it" and ?o = "sg_move_task it"
  let ?f = "\<lambda>x. x\<lparr>sg_state := MOVING, sg_move_task := Some (fence env),
     sg_dst_owned := (if ?o = None then True else sg_dst_owned x)\<rparr>"
  let ?it1 = "it\<lparr>sg_state := MOVING, sg_move_task := Some (fence env),
     sg_dst_owned := (if ?o = None then True else sg_dst_owned it)\<rparr>"
  show ?thesis
  proof (cases "en_won env \<and> (if ?o = None then sg_state it = PENDING else sg_state it = MOVING)")
    case False
    then show ?thesis using ok unfolding start_move_def Let_def by simp
  next
    case won: True
    have uniq: "x = it" if "x \<in> set (wd_items w)" "sg_id x = ?i" for x using id_unique [OF ok that(1) it that(2)] .
    have live: "live_id ?i w" using won by (intro live_of [OF ok it]) (auto split: if_splits)
    define w1 where "w1 = set_item ?i ?f w"
    have "world_ok w1"
      unfolding w1_def
    proof (rule world_ok_advance [OF ok live])
      fix x assume x: "x \<in> set (wd_items w)" "sg_id x = ?i"
      have "item_ok (wd_dir w) it" using ok it by (simp add: world_ok_def)
      then show "same_static (?f x) x \<and> item_ok (wd_dir w) (?f x)"
        using uniq [OF x] won fresh by (auto simp: same_static_def item_ok_def item_in_place_def)
    qed
    moreover have "live_id ?i w1" unfolding w1_def by (rule live_set [OF live]) simp_all
    ultimately have w1: "world_ok w1" "live_id ?i w1" .
    obtain b w2 where b: "(if observed_real ?o then abandon_resume_blocked env cfg ?it1 w1 else (False, w1)) = (b, w2)" by fastforce
    have w2: "world_ok w2" "\<not> b \<Longrightarrow> live_id ?i w2"
      using b w1 blocked_ok [OF w1(1), of env cfg ?it1] resume_not_blocked [of env cfg ?it1 w1 w2 ?i]
      by (auto split: if_splits)
    obtain r w3 where r: "(if is_media it then (True, w2) else prepare_disk_for_move env cfg ?it1 w2) = (r, w3)" by fastforce
    have w3: "world_ok w3 \<and> (r \<longrightarrow> live_id ?i w3)" if "\<not> b"
      using r w2 that prepare_ok [of w2 ?it1 env cfg] by (auto split: if_splits)
    let ?l = "move_queue env (sg_src_path it)"
    let ?t = "T_move (sg_src_path it) (dst_of it) (cf_bwlimit_kbs cfg) (\<not> sg_recopy it) (cf_min_free_bytes cfg)"
    let ?g = "\<lambda>x. x\<lparr>sg_state := MOVING, sg_move_task := Some (en_task env ?i), sg_move_started_at := Some (en_now env)\<rparr>"
    let ?w4 = "claim_storage_task it (en_task env ?i) (enqueue ?l ?t w3)"
    have moved: "world_ok (set_item ?i ?g ?w4)" if "\<not> b" "r"
    proof (rule advance_ok)
      show "world_ok ?w4" using w3 [OF that(1)] by (simp add: world_ok_enqueue)
      show "live_id ?i ?w4" using w3 [OF that(1)] that(2) live_core [of ?w4 w3 ?i] by (simp add: enqueue_def)
    qed (simp add: advances_def same_static_def)
    have "start_move env cfg it w = (if b then w2 else if \<not> r then w3
        else if \<not> en_drainable env ?l then w3 else set_item ?i ?g ?w4)"
      unfolding start_move_def Let_def w1_def [symmetric] b prod.case r by (subst if_not_P, use won in blast, rule refl)
    then show ?thesis using w2(1) w3 moved by simp
  qed
qed

lemma reconcile_ok:
  assumes ok: "world_ok w" and it: "it \<in> set (wd_items w)" "sg_state it = PENDING"
  shows "world_ok (reconcile_regressed_pending env it w)"
proof -
  let ?i = "sg_id it"
  have live: "live_id ?i w" using live_of [OF ok it(1)] it(2) by simp
  have adv: "world_ok (set_item ?i f w)" if "advances f" for f using advance_ok [OF ok live that] .
  have iok: "item_ok (wd_dir w) it" using ok it by (simp add: world_ok_def)
  have settled: "world_ok (set_item ?i (\<lambda>x. x\<lparr>sg_state := st, sg_move_task := None\<rparr>) w)"
    if s: "sg_verify_passed it" "row_at_destination it w" "st \<in> {RELEASED, DB_UPDATED}" for st
  proof (rule world_ok_advance [OF ok live])
    fix x assume x: "x \<in> set (wd_items w)" "sg_id x = ?i"
    have "x = it" using id_unique [OF ok x(1) it(1) x(2)] .
    then show "same_static (x\<lparr>sg_state := st, sg_move_task := None\<rparr>) x
        \<and> item_ok (wd_dir w) (x\<lparr>sg_state := st, sg_move_task := None\<rparr>)"
      using iok s by (auto simp: same_static_def item_ok_def item_in_place_def is_media_def row_at_destination_def split: if_splits)
  qed
  let ?g = "\<lambda>x. x\<lparr>sg_preflight_task := None, sg_move_task := None, sg_move_started_at := None,
     sg_move_delete_task := None, sg_verify_task := None, sg_verify_passed := False,
     sg_dst_owned := False, sg_orig_status := None, sg_maintenance_domains := None\<rparr>"
  have last: "world_ok (set_item ?i ?g (restore_storage_status it w))"
  proof (rule world_ok_advance)
    fix x assume x: "x \<in> set (wd_items (restore_storage_status it w))" "sg_id x = ?i"
    have "x = it" using id_unique [OF ok _ it(1) x(2)] x(1) by simp
    then show "same_static (?g x) x \<and> item_ok (wd_dir (restore_storage_status it w)) (?g x)"
      using iok it(2) by (simp add: same_static_def item_ok_def)
  qed (use ok live in simp_all)
  show ?thesis
    unfolding reconcile_regressed_pending_def Let_def
    using settled adv [of "\<lambda>x. x\<lparr>sg_state := MOVED\<rparr>"] adv [of "\<lambda>x. x\<lparr>sg_state := MOVING\<rparr>"] last
    by (simp add: advances_def same_static_def)
qed

lemma db_update_ok:
  assumes ok: "world_ok w" and it: "it \<in> set (wd_items w)" "sg_state it = REBASED"
    and passed: "item_in_place it \<or> sg_verify_passed it"
  shows "world_ok (db_update it w)"
proof -
  let ?i = "sg_id it" and ?sid = "sg_storage_id it"
  let ?f = "\<lambda>x. x\<lparr>sg_state := DB_UPDATED, sg_abandon_restarts := 0\<rparr>"
  define w1 where "w1 = (if is_media it
        then w\<lparr>wd_media_downloaded := (wd_media_downloaded w)(?sid := sg_dst_path it)\<rparr>
        else w\<lparr>wd_dir := (wd_dir w)(?sid := sg_dst_dir it), wd_filename := (wd_filename w)(?sid := sg_dst_path it),
               wd_backing := (if truthy_str (sg_parent_dst_path it)
                              then (wd_backing w)(?sid := sg_parent_dst_path it) else wd_backing w)\<rparr>)"
  have items: "wd_items w1 = wd_items w" "wd_tasks w1 = wd_tasks w" by (simp_all add: w1_def)
  have dir: "wd_dir w1 (sg_storage_id x) = wd_dir w (sg_storage_id x)" if "x \<in> set (wd_items w)" "x \<noteq> it" for x
    using sid_unique [OF ok that(1) it(1)] that(2) by (auto simp: w1_def)
  have dir_it: "is_media it \<or> wd_dir w1 ?sid = sg_dst_dir it" by (simp add: w1_def)
  have "item_ok (wd_dir w1) x" if "x \<in> set (wd_items w)" for x
  proof (cases "x = it")
    case True
    have "item_ok (wd_dir w) it" using ok it by (simp add: world_ok_def)
    then show ?thesis using True it(2) by (simp add: item_ok_def)
  next
    case False
    have "item_ok (wd_dir w) x" using ok that by (simp add: world_ok_def)
    then show ?thesis using dir [OF that False] by (simp add: item_ok_def)
  qed
  moreover have "\<exists>x \<in> set (wd_items w). delete_ok (wd_dir w1) p x"
    if task: "(l, t) \<in> set (wd_tasks w)" "removed_path t = Some p" for l t p
  proof -
    obtain x where x: "x \<in> set (wd_items w)" "delete_ok (wd_dir w) p x"
      using ok task unfolding world_ok_def by blast
    then have "x \<noteq> it" using it(2) by (auto simp: delete_ok_def)
    then have "delete_ok (wd_dir w1) p x" using x dir [OF x(1)] by (simp add: delete_ok_def)
    then show ?thesis using x(1) by blast
  qed
  ultimately have w1: "world_ok w1" using ok unfolding world_ok_def items by blast
  have live: "live_id ?i w1" using live_of [OF ok it(1)] it(2) live_core [OF items(1)] by simp
  have "world_ok (set_item ?i ?f w1)"
  proof (rule world_ok_advance [OF w1 live])
    fix x assume x: "x \<in> set (wd_items w1)" "sg_id x = ?i"
    have "x = it" using id_unique [OF ok _ it(1) x(2)] x(1) items by simp
    moreover have "item_ok (wd_dir w1) it" using w1 it items by (simp add: world_ok_def)
    ultimately show "same_static (?f x) x \<and> item_ok (wd_dir w1) (?f x)"
      using passed dir_it by (auto simp: same_static_def item_ok_def item_in_place_def is_media_def)
  qed
  then show ?thesis by (simp only: db_update_def w1_def)
qed

text \<open>Marking a committed disk released, and the deletion of its source.\<close>

lemma released_ok:
  assumes ok: "world_ok w" and it: "it \<in> set (wd_items w)" "sg_state it = DB_UPDATED"
    and f: "\<And>x. same_static (f x) x" "\<And>x. sg_state (f x) = RELEASED" "\<And>x. sg_verify_passed (f x) = sg_verify_passed x"
      "\<And>x. sg_dst_owned (f x) = sg_dst_owned x"
  shows "world_ok (set_item (sg_id it) f w)"
proof (rule world_ok_advance [OF ok])
  show "live_id (sg_id it) w" using live_of [OF ok it(1)] it(2) by simp
  fix x assume x: "x \<in> set (wd_items w)" "sg_id x = sg_id it"
  have "x = it" using id_unique [OF ok x(1) it(1) x(2)] .
  moreover have "item_ok (wd_dir w) it" using ok it by (simp add: world_ok_def)
  ultimately show "same_static (f x) x \<and> item_ok (wd_dir w) (f x)"
    using it(2) f same_static_simps [OF f(1) [of it]] by (auto simp: item_ok_def)
qed

lemma release_disk_ok:
  assumes ok: "world_ok w" and it: "it \<in> set (wd_items w)" "sg_state it = DB_UPDATED" and out: "\<not> item_in_place it"
  shows "world_ok (release_disk env cfg it w)"
proof -
  let ?i = "sg_id it" and ?w1 = "restore_storage_status it w"
  let ?f = "\<lambda>x. x\<lparr>sg_state := RELEASED, sg_move_delete_task := None, sg_source_retained := True,
     sg_source_retained_path := Some (sg_src_path it)\<rparr>"
  let ?g = "\<lambda>a r x. x\<lparr>sg_state := RELEASED, sg_move_delete_task := Some (en_task env ?i),
     sg_source_action := Some a, sg_source_action_reason := r\<rparr>"
  have w1: "world_ok ?w1" "it \<in> set (wd_items ?w1)" using ok it by simp_all
  have retain: "world_ok (audit env cfg it ''moved_ok'' (set_item ?i ?f ?w1))"
    by (rule world_ok_audit, rule released_ok [OF w1 it(2)]) (simp_all add: same_static_def)
  have gw: "world_ok (set_item ?i (?g a r) ?w1)" for a r
    by (rule released_ok [OF w1 it(2)]) (simp_all add: same_static_def)
  have "sg_verify_passed it" using ok it out by (auto simp: world_ok_def item_ok_def)
  then have del: "delete_ok (wd_dir v) (sg_src_path it) (?g a r it)" for v :: world and a r
    using out by (simp add: delete_ok_def item_in_place_def)
  have gi: "?g a r it \<in> set (wd_items (set_item ?i (?g a r) ?w1))" for a r
    using row_set [OF w1(2) refl, of "?g a r"] .
  have "world_ok (enqueue l (disposal_task a (sg_src_path it)) (set_item ?i (?g a r) ?w1))" for a r l
    by (rule world_ok_enqueue_delete [OF gw gi _ del]) simp
  then have "world_ok (audit env cfg it ''moved_ok'' (flag it fa fd (set_item ?i (?g a r) (enqueue l (disposal_task a (sg_src_path it)) ?w1))))"
    for a r l fa fd
    unfolding set_item_enqueue by (intro world_ok_audit) simp
  then show ?thesis
    unfolding release_disk_def Let_def case_prod_unfold using retain by (intro if_ok)
qed

lemma skip_release_ok:
  assumes ok: "world_ok w" and it: "it \<in> set (wd_items w)" "sg_state it = DB_UPDATED"
  shows "world_ok (skip_release env cfg it w)"
proof -
  have "world_ok (set_item (sg_id it) (\<lambda>x. x\<lparr>sg_state := RELEASED\<rparr>) w)"
    by (rule released_ok [OF assms]) (simp_all add: same_static_def)
  then show ?thesis by (simp add: skip_release_def world_ok_audit)
qed

text \<open>A whole tree given up: every disk of it retired in turn.\<close>

lemma fold_retire_ok:
  assumes "world_ok w" "\<forall>it \<in> set its. unreleased (sg_id it) w"
    and "\<And>it w. world_ok w \<Longrightarrow> unreleased (sg_id it) w \<Longrightarrow> world_ok (h it w) \<and> (\<forall>j. unreleased j w \<longrightarrow> unreleased j (h it w))"
  shows "world_ok (fold h its w)"
  using assms(1,2)
proof (induction its arbitrary: w)
  case (Cons it its)
  have "world_ok (h it w) \<and> (\<forall>j. unreleased j w \<longrightarrow> unreleased j (h it w))"
    using assms(3) Cons.prems by simp
  then show ?case using Cons.IH [of "h it w"] Cons.prems by simp
qed simp

lemma skip_tree_ok:
  assumes "world_ok w" "\<forall>it \<in> set its. unreleased (sg_id it) w" "st \<in> {FAILED, SKIPPED}"
  shows "world_ok (skip_tree env cfg its st reason w)"
  unfolding skip_tree_def
proof (rule fold_retire_ok [OF assms(1,2)], intro conjI allI impI)
  fix it :: saga_item and w j let ?w = "set_item (sg_id it) (\<lambda>x. x\<lparr>sg_state := st, sg_error := Some reason\<rparr>) w"
  assume w: "world_ok w" "unreleased (sg_id it) w"
  show "world_ok (audit env cfg it (if st = SKIPPED then ''skipped'' else ''failed'') ?w)"
    by (rule world_ok_audit, rule world_ok_retire [OF w assms(3)])
  assume "unreleased j w"
  then show "unreleased j (audit env cfg it (if st = SKIPPED then ''skipped'' else ''failed'') ?w)"
    using assms(3) by (intro unreleased_audit unreleased_set) auto
qed

lemma cancel_skip_tree_ok:
  assumes "world_ok w" "\<forall>it \<in> set its. unreleased (sg_id it) w"
  shows "world_ok (cancel_skip_tree env cfg its reason w)"
  unfolding cancel_skip_tree_def by (rule fold_retire_ok [OF assms], rule abandon_item_ok) simp_all

lemma unreleased_of:
  assumes "world_ok w" "it \<in> set (wd_items w)" "sg_state it \<noteq> RELEASED"
  shows "unreleased (sg_id it) w"
  unfolding unreleased_def using id_unique [OF assms(1) _ assms(2)] assms(3) by auto

lemma tree_items_mem: "it \<in> set (tree_items t w) \<Longrightarrow> it \<in> set (wd_items w)"
  by (simp add: tree_items_def)

lemma fold_attempts_ok:
  "world_ok w \<Longrightarrow> world_ok (fold (\<lambda>it. set_item (sg_id it) (\<lambda>x. x\<lparr>sg_attempts := n\<rparr>)) its w)"
  by (induction its arbitrary: w) (simp_all add: world_ok_harmless)

lemma gate_tree_ok:
  assumes ok: "world_ok w"
  shows "world_ok (snd (gate_tree env cfg (tree_items t w) w))"
proof (cases "list_ex (\<lambda>it. sg_state it \<noteq> PENDING) (tree_items t w)")
  case True
  then show ?thesis using ok by (simp add: gate_tree_def)
next
  case False
  let ?its = "tree_items t w"
  let ?w1 = "w\<lparr>wd_domain := (\<lambda>d. if d \<in> set (running_domains env cfg ?its w) \<and> wd_domain w d = Some ''Started''
       then Some ''Stopping'' else wd_domain w d)\<rparr>"
  have un: "\<forall>it \<in> set ?its. unreleased (sg_id it) w"
  proof
    fix it assume it: "it \<in> set ?its"
    then have "sg_state it = PENDING" using False by (auto simp: list_ex_iff)
    then show "unreleased (sg_id it) w" using unreleased_of [OF ok tree_items_mem [OF it]] by simp
  qed
  have w1: "world_ok ?w1" using ok by (simp add: world_ok_core [of ?w1 w])
  have un1: "\<forall>it \<in> set ?its. unreleased (sg_id it) ?w1" using un unreleased_core [of ?w1 w] by simp
  have pair: "world_ok (snd (if c then p else q)) = (if c then world_ok (snd p) else world_ok (snd q))" for c and p q :: "bool \<times> world"
    by simp
  show ?thesis
  proof (cases "unmovable_disk ?its w")
    case None
    then show ?thesis
      unfolding gate_tree_def Let_def option.case pair snd_conv
      using False ok skip_tree_ok [OF ok un] skip_tree_ok [OF w1 un1]
      by (auto intro!: fold_attempts_ok [OF w1])
  next
    case (Some why)
    then show ?thesis using False skip_tree_ok [OF ok un] by (simp add: gate_tree_def)
  qed
qed

text \<open>What the decision of a tree guarantees of the disk it hands to a handler.\<close>

lemma gate_open_same: "gate_tree env cfg its w = (True, w1) \<Longrightarrow> w1 = w"
  by (auto simp: gate_tree_def Let_def split: if_splits option.splits)

lemma simple_marks_ok:
  assumes "world_ok w" "live_id (sg_id it) w"
  shows "world_ok (mark_moved env it w)" "world_ok (skip_move it w)" "world_ok (mark_rebased it w)"
    "world_ok (skip_rebase it w)" "world_ok (mark_repaired env cfg it w)"
  unfolding mark_moved_def skip_move_def mark_rebased_def skip_rebase_def mark_repaired_def
  using assms(2) live_core [of "record_throughput env it w" w]
  by (auto intro!: advance_ok world_ok_audit simp: advances_def same_static_def assms(1))

lemma mark_verified_ok:
  assumes "world_ok w" shows "world_ok (mark_verified env it w)"
proof -
  have "world_ok (set_item (sg_id it) (\<lambda>x. x\<lparr>sg_verify_passed := True\<rparr>) w)"
    by (rule world_ok_set [OF assms])
       (use assms in \<open>auto simp: world_ok_def item_ok_def delete_ok_def same_static_def item_in_place_def is_media_def\<close>)
  then show ?thesis by (simp add: mark_verified_def flag_leaks_def Let_def)
qed

lemma destination_exists_ok: "world_ok w \<Longrightarrow> world_ok (destination_exists env cfg it w)"
  unfolding destination_exists_def by (intro saga_inv) simp_all

lemma decided_ok:
  assumes ok: "world_ok w" and it: "it \<in> set (wd_items w)" and st: "sg_state it \<in> {PENDING, MOVING, MOVED}"
    and a: "a = decide_item_action it js"
  shows "world_ok (run_action env cfg a it w)"
proof -
  have live: "live_id (sg_id it) w" using live_of [OF ok it] st by auto
  note rules = start_preflight_ok [OF ok] start_rebase_ok [OF ok] simple_marks_ok [OF ok live]
    fail_item_ok [OF ok live] terminalize_ok [OF ok] ok
  consider "sg_state it = PENDING" | "sg_state it = MOVING" | "sg_state it = MOVED" using st by auto
  then show ?thesis
  proof cases
    case 1
    have "world_ok (reconcile_regressed_pending env it w)" by (rule reconcile_ok [OF ok it 1])
    moreover have "world_ok (start_move env cfg it w)" if "\<not> item_in_place it"
      by (rule start_move_ok [OF ok it that])
    ultimately show ?thesis using 1 rules unfolding a
      by (simp add: decide_item_action_def Let_def run_action_def destination_exists_ok [OF ok])
  next
    case 2
    have "world_ok (start_move env cfg it w)" using start_move_ok [OF ok it] 2 by simp
    then show ?thesis using 2 rules unfolding a by (simp add: decide_item_action_def Let_def run_action_def)
  next
    case 3
    then show ?thesis using rules unfolding a by (simp add: decide_item_action_def Let_def run_action_def)
  qed
qed

lemma run_action_ok:
  assumes ok: "world_ok w" and nxt: "tree_next (tree_items t w) js = (Some it, a)"
  shows "world_ok (run_action env cfg a it w) \<and> it \<in> set (wd_items w)
     \<and> (HANDLED a \<longrightarrow> sg_state it \<noteq> RELEASED)"
  using nxt
proof (cases rule: tree_next_cases)
  case (phase_a x)
  have x: "x = it" "it \<in> set (wd_items w)" using phase_a tree_items_mem by auto
  consider "sg_state it \<in> {PENDING, MOVING, MOVED}" | "sg_state it = FAILED" | "sg_state it = PREFLIGHT_OK"
    using phase_a(3) x by (cases "sg_state it") (simp_all add: PHASE_A_DONE_def)
  then show ?thesis
  proof cases
    case 1
    then show ?thesis using phase_a(4) x decided_ok [OF ok x(2) 1] by auto
  next
    case 2
    then show ?thesis using phase_a(4) x terminalize_ok [OF ok] by (simp add: run_action_def)
  next
    case 3
    then show ?thesis using phase_a(4) x ok by (simp add: decide_item_action_def run_action_def HANDLED_def)
  qed
next
  case (repairing x)
  have x: "x = it" "it \<in> set (wd_items w)" "sg_state it = REPAIRING" using repairing tree_items_mem by auto
  have "live_id (sg_id it) w" using live_of [OF ok x(2)] x(3) by simp
  then show ?thesis
    using repairing(4) x simple_marks_ok(5) [OF ok] terminalize_ok [OF ok] ok
    by (simp add: run_action_def repair_action_def Let_def)
next
  case (gate x)
  have x: "x = it" "it \<in> set (wd_items w)" "sg_state it = REBASED" using gate tree_items_mem by auto
  have "live_id (sg_id it) w" using live_of [OF ok x(2)] x(3) by simp
  then show ?thesis
    using gate(5) x fail_item_ok [OF ok] start_verify_ok [OF ok] mark_verified_ok [OF ok] ok
    by (auto simp: run_action_def)
next
  case (commit x)
  have x: "x = it" "it \<in> set (wd_items w)" "sg_state it = REBASED" using commit tree_items_mem by auto
  have "item_in_place it \<or> sg_verify_passed it" using commit(2,6) x by auto
  then show ?thesis using commit(4) x db_update_ok [OF ok x(2,3)] by (simp add: run_action_def)
next
  case (release x)
  have x: "x = it" "it \<in> set (wd_items w)" "sg_state it = DB_UPDATED" using release tree_items_mem by auto
  then show ?thesis
    using release(4) release_disk_ok [OF ok x(2,3)] skip_release_ok [OF ok x(2,3)] by (simp add: run_action_def)
qed simp

lemma step_tree_ok:
  assumes ok: "world_ok w"
  shows "world_ok (step_tree env cfg t finishing w)"
proof -
  let ?its = "tree_items t w"
  obtain b w1 where g: "gate_tree env cfg ?its w = (b, w1)" by fastforce
  obtain oi a where n: "tree_next ?its (en_js env) = (oi, a)" by fastforce
  have w1: "world_ok w1" using gate_tree_ok [OF ok, of env cfg t] g by simp
  show ?thesis
  proof (cases b)
    case False
    then show ?thesis using w1 by (simp add: step_tree_def g)
  next
    case True
    then have same: "w1 = w" using gate_open_same g by simp
    have cancel: "world_ok (cancel_skip_tree env cfg ?its r w)" if "cancel_skips_tree ?its a finishing" for r
    proof (rule cancel_skip_tree_ok [OF ok], rule ballI)
      fix it assume it: "it \<in> set ?its"
      then have "sg_state it \<noteq> RELEASED"
        using that by (auto simp: cancel_skips_tree_def tree_has_committed_disk_def COMMITTED_STATES_def list_ex_iff)
      then show "unreleased (sg_id it) w" using unreleased_of [OF ok tree_items_mem [OF it]] by simp
    qed
    show ?thesis
    proof (cases oi)
      case None
      then show ?thesis using True same ok cancel by (simp add: step_tree_def Let_def g n)
    next
      case (Some it)
      note r = run_action_ok [OF ok n [unfolded Some], of env cfg]
      have "world_ok (set_item (sg_id it) (\<lambda>x. x\<lparr>sg_state := FAILED, sg_error := e\<rparr>) w)" if "HANDLED a" for e
        by (rule world_ok_retire [OF ok unreleased_of [OF ok]]) (use r that in simp_all)
      then show ?thesis using True same ok cancel r Some by (simp add: step_tree_def Let_def g n)
    qed
  qed
qed

section \<open>Reachable worlds\<close>

text \<open>
  The steps of one occurrence: the runner steps any tree in any environment, and other services
  change whatever is not the ledger, the task log or the directory of a disk under migration (those
  disks are in maintenance).
\<close>

inductive mig_step :: "world \<Rightarrow> world \<Rightarrow> bool" where
  tree: "mig_step w (step_tree env cfg t finishing w)"
| elsewhere: "wd_items w' = wd_items w \<Longrightarrow> wd_tasks w' = wd_tasks w \<Longrightarrow>
     (\<forall>x \<in> set (wd_items w). wd_dir w' (sg_storage_id x) = wd_dir w (sg_storage_id x)) \<Longrightarrow> mig_step w w'"

inductive_cases mig_stepE: "mig_step w w'"

definition fresh_item :: "saga_item \<Rightarrow> bool" where
  "fresh_item x \<longleftrightarrow> sg_state x = PENDING \<and> \<not> sg_dst_owned x \<and> sg_dst_dir x \<noteq> None"

definition fresh_ledger :: "world \<Rightarrow> bool" where
  "fresh_ledger w \<longleftrightarrow> distinct (map sg_id (wd_items w)) \<and> distinct (map sg_storage_id (wd_items w))
     \<and> list_all fresh_item (wd_items w) \<and> wd_tasks w = []"

lemma fresh_ok: "fresh_ledger w \<Longrightarrow> world_ok w"
  by (auto simp: fresh_ledger_def world_ok_def list_all_iff fresh_item_def item_ok_def)

lemma world_ok_elsewhere:
  assumes "world_ok w" "wd_items w' = wd_items w" "wd_tasks w' = wd_tasks w"
    and "\<forall>x \<in> set (wd_items w). wd_dir w' (sg_storage_id x) = wd_dir w (sg_storage_id x)"
  shows "world_ok w'"
proof -
  have "item_ok (wd_dir w') x = item_ok (wd_dir w) x" "delete_ok (wd_dir w') p x = delete_ok (wd_dir w) p x"
    if "x \<in> set (wd_items w)" for x p
    using assms(4) that by (simp_all add: item_ok_def delete_ok_def)
  then show ?thesis using assms(1) unfolding world_ok_def assms(2,3) by blast
qed

interpretation runner: invariant_system mig_step world_ok
proof unfold_locales
  fix w w' assume "mig_step w w'" "world_ok w"
  then show "world_ok w'" by (elim mig_stepE) (simp_all add: step_tree_ok world_ok_elsewhere)
qed

lemma reach_ok: "mig_step\<^sup>*\<^sup>* w0 w \<Longrightarrow> fresh_ledger w0 \<Longrightarrow> world_ok w"
  by (rule runner.reach_inv [OF _ fresh_ok])

section \<open>A failed tree settles\<close>

definition states :: "world \<Rightarrow> (string \<times> string \<times> item_state) list" where
  "states w = map (\<lambda>x. (sg_id x, sg_tree_id x, sg_state x)) (wd_items w)"

definition put_state :: "string \<Rightarrow> item_state \<Rightarrow> string \<times> string \<times> item_state \<Rightarrow> string \<times> string \<times> item_state" where
  "put_state i st = (\<lambda>(j, t, s). (j, t, if j = i then st else s))"

lemma states_core: "wd_items w' = wd_items w \<Longrightarrow> states w' = states w"
  by (simp add: states_def)

lemma states_harmless: "harmless f \<Longrightarrow> states (set_item i f w) = states w"
  by (simp add: states_def harmless_def same_static_def)

lemma states_retire: "states (set_item i (\<lambda>x. x\<lparr>sg_state := st, sg_error := e\<rparr>) w) = map (put_state i st) (states w)"
  by (simp add: states_def put_state_def)

lemma states_audit [simp]: "states (audit env cfg it r w) = states w"
proof -
  have "states (audit env cfg it r w) = states (set_item (sg_id it)
      (\<lambda>x. x\<lparr>sg_audit := sg_audit x @ [build_audit_record x r (audit_occurrence env) (en_now env)]\<rparr>) w)"
    by (rule states_core) (simp add: audit_def)
  also have "\<dots> = states w" by (rule states_harmless) (rule harmless_audit)
  finally show ?thesis .
qed

lemma states_restore [simp]: "states (restore_storage_status it w) = states w"
  by (rule states_core) simp

lemma states_enqueue [simp]: "states (enqueue a p w) = states w"
  by (simp add: states_def enqueue_def)

lemma states_discard [simp]: "states (discard_destination env cfg it w) = states w"
  by (cases rule: discard_cases [of env cfg it w]) (simp_all add: states_harmless)

lemma states_mark_damaged [simp]: "states (mark_damaged it d w) = states w"
  by (simp add: states_def mark_damaged_core)

lemma states_abandon:
  assumes "i \<in> fst ` set (states w)"
  shows "states (abandon_item env cfg i st why r d w) = map (put_state i st) (states w)"
proof -
  obtain x where "List.find (\<lambda>x. sg_id x = i) (wd_items w) = Some x"
    using assms by (cases "List.find (\<lambda>x. sg_id x = i) (wd_items w)") (auto simp: states_def find_None_iff)
  then show ?thesis by (cases d) (simp_all add: abandon_item_def with_item_def Let_def states_retire)
qed

lemma put_state_fst [simp]: "fst (put_state i st e) = fst e"
  by (simp add: put_state_def case_prod_unfold)

lemma states_abandon_fold:
  assumes "\<forall>c \<in> set cs. sg_id (fst c) \<in> fst ` set (states w)"
  shows "states (fold (abandon_change env cfg trigger damage) cs w)
     = map (fold (\<lambda>(x, st, why). put_state (sg_id x) st) cs) (states w)"
  using assms
proof (induction cs arbitrary: w)
  case (Cons c cs)
  obtain x st why where c: "c = (x, st, why)" by (cases c)
  let ?w = "abandon_change env cfg trigger damage c w"
  have "sg_id x \<in> fst ` set (states w)" using Cons.prems c by simp
  note ab = states_abandon [OF this]
  have st: "states ?w = map (put_state (sg_id x) st) (states w)"
    unfolding c by (simp only: abandon_change_def prod.case ab)
  then have "fst ` set (states ?w) = fst ` set (states w)" by (simp add: image_image)
  then show ?case using Cons.IH [of ?w] Cons.prems st c by (simp add: case_prod_unfold)
qed (simp add: map_idI)

lemma fold_put_state:
  assumes "\<forall>(x, st, why) \<in> set cs. st \<in> S"
  shows "snd (snd (fold (\<lambda>(x, st, why). put_state (sg_id x) st) cs e)) \<in> S
     \<or> (snd (snd (fold (\<lambda>(x, st, why). put_state (sg_id x) st) cs e)) = snd (snd e) \<and> fst e \<notin> (\<lambda>c. sg_id (fst c)) ` set cs)"
  using assms
proof (induction cs arbitrary: e)
  case (Cons c cs)
  obtain x st why where c: "c = (x, st, why)" by (cases c)
  show ?case
    using Cons.IH [of "put_state (sg_id x) st e"] Cons.prems c
    by (auto simp: put_state_def case_prod_unfold split: if_splits)
qed simp

lemma fold_put_state_ids:
  "fst (fold (\<lambda>(x, st, why). put_state (sg_id x) st) cs e) = fst e
   \<and> fst (snd (fold (\<lambda>(x, st, why). put_state (sg_id x) st) cs e)) = fst (snd e)"
  by (induction cs arbitrary: e) (auto simp: put_state_def case_prod_unfold)

definition tree_states :: "string \<Rightarrow> world \<Rightarrow> item_state list" where
  "tree_states t w = map sg_state (tree_items t w)"

lemma tree_states_iff: "s \<in> set (tree_states t w) \<longleftrightarrow> (\<exists>i. (i, t, s) \<in> set (states w))"
  by (auto simp: tree_states_def tree_items_def states_def)

lemma terminalize_settles:
  "\<forall>s \<in> set (tree_states (sg_tree_id it) (terminalize_tree_failure env cfg it reason w)). s \<in> set TERMINAL_STATES"
proof (cases "list_all (\<lambda>x. sg_state x \<in> set TERMINAL_STATES) (tree_items (sg_tree_id it) w)")
  case True
  then show ?thesis by (simp add: terminalize_tree_failure_def Let_def tree_states_def list_all_iff)
next
  case False
  let ?t = "sg_tree_id it" and ?its = "tree_items (sg_tree_id it) w"
  let ?r = "if reason \<noteq> None then reason else failure_reason env it"
  let ?cs = "plan_tree_failure ?its (sg_storage_id it) ?r"
  let ?w1 = "restore_storage_status it w"
  define w2 where "w2 = (if sg_id it \<notin> set (map (\<lambda>(x, s, r). sg_id x) ?cs) \<and> sg_state it = FAILED
     then audit env cfg it ''failed'' (case damage_from_reason ?r of None \<Rightarrow> ?w1 | Some d \<Rightarrow> mark_damaged it d ?w1) else ?w1)"
  let ?go = "fold (\<lambda>(x, st, why). put_state (sg_id x) st) ?cs"
  have w2: "states w2 = states w" by (simp add: w2_def split: option.split)
  have cs: "x \<in> set ?its \<and> st \<in> {FAILED, SKIPPED}" if "(x, st, why) \<in> set ?cs" for x st why
    using plan_tree_failure_states [OF that] by simp
  have "\<forall>c \<in> set ?cs. sg_id (fst c) \<in> fst ` set (states w2)"
  proof
    fix c assume "c \<in> set ?cs"
    moreover obtain x st why where c: "c = (x, st, why)" by (cases c)
    ultimately have "x \<in> set (wd_items w)" using cs tree_items_mem by blast
    then show "sg_id (fst c) \<in> fst ` set (states w2)" unfolding w2 c unfolding states_def by (simp add: image_image)
  qed
  from states_abandon_fold [OF this]
  have st: "states (terminalize_tree_failure env cfg it reason w) = map ?go (states w)"
    using False unfolding w2 terminalize_tree_failure_def Let_def w2_def [symmetric] by (simp only: if_False)
  show ?thesis
  proof
    fix s assume "s \<in> set (tree_states ?t (terminalize_tree_failure env cfg it reason w))"
    then obtain i where "(i, ?t, s) \<in> ?go ` set (states w)" unfolding tree_states_iff st set_map by blast
    then obtain e where ie: "e \<in> set (states w)" "(i, ?t, s) = ?go e" by blast
    have e: "e \<in> set (states w)" "snd (snd (?go e)) = s" "fst (snd (?go e)) = ?t"
      unfolding ie(2) [symmetric] using ie(1) by simp_all
    obtain x where x: "x \<in> set (wd_items w)" "e = (sg_id x, sg_tree_id x, sg_state x)"
      using e(1) by (auto simp: states_def)
    have "sg_tree_id x = ?t" 
      using trans [OF conjunct2 [OF fold_put_state_ids [of ?cs e], symmetric] e(3)] unfolding x(2) fst_conv snd_conv .
    then have xt: "x \<in> set ?its" using x(1) by (simp add: tree_items_def)
    have "s \<in> {FAILED, SKIPPED} \<or> (s = sg_state x \<and> sg_id x \<notin> (\<lambda>c. sg_id (fst c)) ` set ?cs)"
    proof -
      have "\<forall>(x, st, why) \<in> set ?cs. st \<in> {FAILED, SKIPPED}" using cs by blast
      from fold_put_state [OF this, of e] show ?thesis unfolding e(2) unfolding x(2) fst_conv snd_conv .
    qed
    moreover have "sg_state x \<in> set TERMINAL_STATES" if out: "sg_id x \<notin> (\<lambda>c. sg_id (fst c)) ` set ?cs"
    proof (rule ccontr)
      assume "sg_state x \<notin> set TERMINAL_STATES"
      then obtain st why where "(x, st, why) \<in> set ?cs"
        using plan_tree_failure_covers [OF xt] by blast
      from imageI [OF this, of "\<lambda>c. sg_id (fst c)"] show False using out unfolding fst_conv by blast
    qed
    ultimately show "s \<in> set TERMINAL_STATES" by (auto simp: TERMINAL_STATES_def)
  qed
qed

section \<open>Properties\<close>


definition sample_disk :: saga_item where
  "sample_disk = (sample_row ''d'' 0 PENDING False)\<lparr>sg_tree_id := ''d'', sg_src_path := ''/a/d.qcow2'',
     sg_dst_path := Some ''/b/d.qcow2''\<rparr>"

definition sample_world :: world where
  "sample_world = \<lparr>wd_items = [sample_disk], wd_dir = (\<lambda>_. Some ''/a''), wd_filename = (\<lambda>_. None), wd_backing = (\<lambda>_. None),
     wd_status = (\<lambda>_. Some ''ready''), wd_damage_reason = (\<lambda>_. None), wd_flags = (\<lambda>_ _. None),
     wd_media_path = (\<lambda>_. None), wd_media_downloaded = (\<lambda>_. None), wd_domain = (\<lambda>_. None),
     wd_current_action = (\<lambda>_. None), wd_tasks = [], wd_index = [], wd_ewma = (\<lambda>_. None), wd_budget = None,
     wd_space_deferred = False\<rparr>"

text \<open>Every task that was placed has finished, and every lane is served.\<close>

definition sample_env :: step_env where
  "sample_env = \<lparr>en_js = (\<lambda>t. if truthy_str t then Some ''finished'' else None), en_won = True,
     en_task = (\<lambda>i. ''task''), en_uuid = ''u'', en_pools = (\<lambda>_. []), en_dst_pool = ''p'', en_drainable = (\<lambda>_. True),
     en_exc_info = (\<lambda>_. None), en_leaks = (\<lambda>_. 0), en_repair_result = (\<lambda>_. None), en_children = (\<lambda>_. False),
     en_domains = (\<lambda>_. []), en_holders = (\<lambda>_. Some []), en_system_delete_action = None, en_now = 1,
     en_occurrence = None, en_incremental = False, en_raises = False\<rparr>"

definition sample_config :: mig_config where
  "sample_config = \<lparr>cf_force_stop_desktops = False, cf_verify = True, cf_source_disposition = Some ''delete'',
     cf_on_damaged = None, cf_bwlimit_kbs = 0, cf_min_free_bytes = 0, cf_max_bytes_per_occurrence = 0\<rparr>"

definition sample_run :: "step_env list \<Rightarrow> world \<Rightarrow> world" where
  "sample_run envs = fold (\<lambda>env. step_tree env sample_config ''d'' False) envs"

lemma sample_reach: "mig_step\<^sup>*\<^sup>* w (sample_run envs w)"
proof (induction envs arbitrary: w)
  case (Cons env envs)
  have "sample_run (env # envs) w = sample_run envs (step_tree env sample_config ''d'' False w)"
    by (simp add: sample_run_def)
  then show ?case using converse_rtranclp_into_rtranclp [OF mig_step.tree Cons.IH] by metis
qed (simp add: sample_run_def)

lemma sample_fresh: "fresh_ledger sample_world"
  by (simp add: fresh_ledger_def sample_world_def sample_disk_def sample_row_def fresh_item_def)

text \<open>The copy starts, then its task fails.\<close>

definition failing_run :: world where
  "failing_run = sample_run [sample_env, sample_env, sample_env\<lparr>en_js := (\<lambda>_. Some ''failed'')\<rparr>] sample_world"



text \<open>A disk already on its destination is committed without a copy.\<close>

definition in_place_world :: world where
  "in_place_world = sample_world\<lparr>wd_items := [sample_disk\<lparr>sg_src_path := ''/b/d.qcow2''\<rparr>]\<rparr>"

definition in_place_run :: world where
  "in_place_run = sample_run [sample_env, sample_env, sample_env] in_place_world"


text \<open>C34: A failed tree always settles. When the runner gives a tree up, whichever disk failed and
  whatever its siblings were doing, no disk of the tree is left in a state the runner would come back
  to: the tree is done, so its job can finish.\<close>

theorem failed_tree_settles:
  "tree_phase (tree_states (sg_tree_id it) (terminalize_tree_failure env cfg it reason w)) = Done"
  using terminalize_settles [of it env cfg reason w] by (simp add: tree_phase_def list_all_iff)

text \<open>A media whose row was already rewritten to the copy: the guard looks at the label of the media, so
  discarding still places the deletion of the file the row points at.\<close>

lemma media_discard_ignores_row:
  assumes "is_media it" "sg_state it = REBASED" "sg_dst_path it = Some p" "p \<noteq> ''''" "sg_dst_owned it"
    and "wd_media_downloaded w (sg_storage_id it) = Some p" "wd_media_path w (sg_storage_id it) \<noteq> Some p"
    and "en_drainable env (pool_queue env p (fst (source_action env cfg)))"
  shows "disposal_task (fst (source_action env cfg)) p \<in> snd ` set (wd_tasks (discard_destination env cfg it w))"
  using assms
  by (simp add: discard_destination_def COPIED_UNCOMMITTED_def truthy_str_def row_at_destination_def Let_def
      case_prod_unfold enqueue_def dst_of_def)

text \<open>A source that is deleted for good is still marked as a backup in the recycle bin.\<close>

lemma deleted_source_marked_as_backup:
  assumes "source_action env cfg = (''delete'', r)" "\<not> is_media it" "sg_orig_status it = Some s"
    and "en_drainable env (pool_queue env (sg_src_path it) ''delete'')"
  shows "wd_flags (release_disk env cfg it w) (sg_storage_id it) ''delete_backup'' \<noteq> None
     \<and> T_delete (sg_src_path it) \<in> snd ` set (wd_tasks (release_disk env cfg it w))"
  using assms
  by (simp add: release_disk_def Let_def audit_def spend_budget_def set_item_def flag_def enqueue_def disposal_task_def
      restore_storage_status_def split: sum.split)

end
