(* ===== verification/Migration_Load.thy ===== *)
theory Migration_Load
  imports Migration_Ledger
begin

text \<open>
  The adaptive load policy of a storage migration: the votes, the classification and the decision of
  \<open>lib/storage/migration.py\<close>, and \<open>_apply_load_policy\<close> of \<open>lib/storage/migration_run.py\<close>, which applies
  a decision to the job. What the conditional status write of the job answers, and the status it
  reads back when it lost, are arguments. The margins are exact rationals.
\<close>

section \<open>Policy and sample\<close>

record load_policy_raw =
  lr_mode :: "string option"
  lr_parallelism_min :: "int option"
  lr_parallelism_max :: "int option"
  lr_pause_above :: "int option"
  lr_baseline_window :: "int option"

record load_policy =
  lp_mode :: string
  lp_parallelism_min :: int
  lp_parallelism_max :: int
  lp_pause_above :: int
  lp_baseline_window :: int

record load_sample =
  sm_governor_busy :: "bool option"
  sm_nfs_rpc_s :: "rat option"
  sm_nfs_baseline :: "rat option"
  sm_desktops_started :: "int option"

definition LOAD_POLICY_DEFAULTS :: load_policy where
  "LOAD_POLICY_DEFAULTS = \<lparr>lp_mode = ''static'', lp_parallelism_min = 1, lp_parallelism_max = 4,
     lp_pause_above = 0, lp_baseline_window = 5\<rparr>"

definition LOAD_RAISE_AFTER_CLEAN_TICKS :: int where "LOAD_RAISE_AFTER_CLEAN_TICKS = 3"

definition LOAD_NFS_HIGH_MARGIN :: rat where "LOAD_NFS_HIGH_MARGIN = 1 / 2"

definition LOAD_NFS_LOW_MARGIN :: rat where "LOAD_NFS_LOW_MARGIN = 1 / 5"

definition LOAD_DESKTOP_SOFT_HIGH :: rat where "LOAD_DESKTOP_SOFT_HIGH = 3 / 4"

definition LOAD_DESKTOP_SOFT_LOW :: rat where "LOAD_DESKTOP_SOFT_LOW = 1 / 2"

definition or_else :: "'a option \<Rightarrow> 'a \<Rightarrow> 'a" where
  "or_else v d = (case v of None \<Rightarrow> d | Some x \<Rightarrow> x)"

definition normalize_load_policy :: "load_policy_raw option \<Rightarrow> load_policy" where
  "normalize_load_policy raw =
     (case raw of
        None \<Rightarrow> LOAD_POLICY_DEFAULTS
      | Some r \<Rightarrow>
          \<lparr>lp_mode = or_else (lr_mode r) (lp_mode LOAD_POLICY_DEFAULTS),
           lp_parallelism_min = or_else (lr_parallelism_min r) (lp_parallelism_min LOAD_POLICY_DEFAULTS),
           lp_parallelism_max = or_else (lr_parallelism_max r) (lp_parallelism_max LOAD_POLICY_DEFAULTS),
           lp_pause_above = or_else (lr_pause_above r) (lp_pause_above LOAD_POLICY_DEFAULTS),
           lp_baseline_window = or_else (lr_baseline_window r) (lp_baseline_window LOAD_POLICY_DEFAULTS)\<rparr>)"

definition int_or :: "int option \<Rightarrow> int \<Rightarrow> int" where
  "int_or v d = (case v of None \<Rightarrow> d | Some x \<Rightarrow> if x = 0 then d else x)"

definition load_policy_is_adaptive :: "load_policy_raw option \<Rightarrow> bool" where
  "load_policy_is_adaptive raw =
     (case raw of None \<Rightarrow> False
      | Some r \<Rightarrow> (case lr_mode r of None \<Rightarrow> False | Some m \<Rightarrow> m = ''adaptive''))"

definition load_policy_errors :: "load_policy_raw option \<Rightarrow> int option \<Rightarrow> string list" where
  "load_policy_errors raw parallelism =
     (case raw of
        None \<Rightarrow> []
      | Some r \<Rightarrow>
          (let policy = normalize_load_policy (Some r);
               low = lp_parallelism_min policy; high = lp_parallelism_max policy; par = int_or parallelism 1
           in (if low > high then [''load_policy.parallelism_min must be <= parallelism_max''] else [])
              @ (if lp_mode policy = ''adaptive'' \<and> \<not> (low \<le> par \<and> par \<le> high)
                 then [''parallelism must be within [parallelism_min, parallelism_max] when load_policy.mode is adaptive'']
                 else [])))"

section \<open>Votes\<close>

datatype vote = Busy | Idle

datatype load_level = Level_busy | Level_idle | Level_neutral

definition governor_vote :: "load_sample \<Rightarrow> vote option" where
  "governor_vote sample = map_option (\<lambda>busy. if busy then Busy else Idle) (sm_governor_busy sample)"

definition nfs_vote :: "load_sample \<Rightarrow> vote option" where
  "nfs_vote sample =
     (case (sm_nfs_rpc_s sample, sm_nfs_baseline sample) of
        (Some rpc, Some base) \<Rightarrow>
          if base \<le> 0 then Some (if rpc > 0 then Busy else Idle)
          else if rpc > base * (1 + LOAD_NFS_HIGH_MARGIN) then Some Busy
          else if rpc \<le> base * (1 + LOAD_NFS_LOW_MARGIN) then Some Idle
          else None
      | _ \<Rightarrow> None)"

definition desktop_vote :: "load_sample \<Rightarrow> load_policy \<Rightarrow> vote option" where
  "desktop_vote sample policy =
     (case sm_desktops_started sample of
        None \<Rightarrow> None
      | Some started \<Rightarrow>
          if lp_pause_above policy \<le> 0 then None
          else if of_int started \<ge> of_int (lp_pause_above policy) * LOAD_DESKTOP_SOFT_HIGH then Some Busy
          else if of_int started \<le> of_int (lp_pause_above policy) * LOAD_DESKTOP_SOFT_LOW then Some Idle
          else None)"

definition classify_load :: "load_sample \<Rightarrow> load_policy \<Rightarrow> load_level" where
  "classify_load sample policy =
     (let votes = concat (map (\<lambda>v. case v of None \<Rightarrow> [] | Some x \<Rightarrow> [x])
                    [governor_vote sample, nfs_vote sample, desktop_vote sample policy])
      in if votes = [] then Level_neutral else if Busy \<in> set votes then Level_busy else Level_idle)"

definition load_over_hard_limit :: "load_sample \<Rightarrow> load_policy \<Rightarrow> bool" where
  "load_over_hard_limit sample policy =
     (lp_pause_above policy > 0
      \<and> (case sm_desktops_started sample of None \<Rightarrow> False | Some started \<Rightarrow> started \<ge> lp_pause_above policy))"

definition hard_limit_reason :: "load_sample \<Rightarrow> load_policy \<Rightarrow> string" where
  "hard_limit_reason sample policy =
     ''load over limit: '' @ (case sm_desktops_started sample of None \<Rightarrow> ''None'' | Some n \<Rightarrow> str_int n)
     @ '' desktops started >= pause_above '' @ str_int (lp_pause_above policy)"

section \<open>The decision\<close>

datatype load_action = Hold | Lower | Raise | Pause | Resume

record load_decision =
  ld_parallelism :: int
  ld_action :: load_action
  ld_clean_ticks :: int
  ld_reason :: string

definition mk_decision :: "int \<Rightarrow> load_action \<Rightarrow> int \<Rightarrow> string \<Rightarrow> load_decision" where
  "mk_decision p a c r = \<lparr>ld_parallelism = p, ld_action = a, ld_clean_ticks = c, ld_reason = r\<rparr>"

record load_input =
  li_parallelism :: "int option"
  li_clean_ticks :: "int option"
  li_paused_by_load :: bool

definition clamp_parallelism :: "load_policy \<Rightarrow> int option \<Rightarrow> int" where
  "clamp_parallelism policy par =
     max (lp_parallelism_min policy) (min (lp_parallelism_max policy) (int_or par (lp_parallelism_min policy)))"

definition decide :: "load_sample \<Rightarrow> load_input \<Rightarrow> load_policy_raw option \<Rightarrow> load_decision" where
  "decide sample state raw =
     (let policy = normalize_load_policy raw;
          low = lp_parallelism_min policy; high = lp_parallelism_max policy;
          par = clamp_parallelism policy (li_parallelism state);
          clean = int_or (li_clean_ticks state) 0;
          level = classify_load sample policy; hard = load_over_hard_limit sample policy
      in if li_paused_by_load state
         then (if hard \<or> level = Level_busy then mk_decision par Hold 0 (hard_limit_reason sample policy)
               else if clean + 1 \<ge> LOAD_RAISE_AFTER_CLEAN_TICKS
               then mk_decision par Resume 0 (''load cleared '' @ str_int (clean + 1) @ '' ticks: resume at '' @ str_int par)
               else mk_decision par Hold (clean + 1)
                      (''load easing ('' @ str_int (clean + 1) @ ''/'' @ str_int LOAD_RAISE_AFTER_CLEAN_TICKS
                       @ '' clean): stay paused''))
         else if hard then mk_decision par Pause 0 (hard_limit_reason sample policy)
         else if level = Level_busy
         then (if par > low
               then mk_decision (par - 1) Lower 0
                      (''load high: parallelism '' @ str_int par @ '' -> '' @ str_int (par - 1))
               else mk_decision par Hold 0 (''load high, parallelism at min '' @ str_int low))
         else if level = Level_idle
         then (if clean + 1 \<ge> LOAD_RAISE_AFTER_CLEAN_TICKS \<and> par < high
               then mk_decision (par + 1) Raise 0
                      (''idle '' @ str_int (clean + 1) @ '' ticks: parallelism '' @ str_int par @ '' -> '' @ str_int (par + 1))
               else if par \<ge> high
               then mk_decision par Hold (clean + 1) (''idle, parallelism at max '' @ str_int high)
               else mk_decision par Hold (clean + 1)
                      (''idle ('' @ str_int (clean + 1) @ ''/'' @ str_int LOAD_RAISE_AFTER_CLEAN_TICKS @ '' clean)''))
         else mk_decision par Hold 0 ''load steady (dead band)'')"

section \<open>Applying a decision\<close>

record load_state =
  lo_clean_ticks :: "int option"
  lo_last_action :: "load_action option"
  lo_last_reason :: "string option"
  lo_effective_parallelism :: "int option"

record load_job =
  lj_status :: migration_status
  lj_pause_reason :: "string option"
  lj_parallelism :: "int option"
  lj_policy :: "load_policy_raw option"
  lj_state :: load_state
  lj_logs :: "(load_action \<times> int) list"

definition LOAD_LOG_CAP :: nat where "LOAD_LOG_CAP = 200"

definition last_n :: "nat \<Rightarrow> 'a list \<Rightarrow> 'a list" where
  "last_n n xs = drop (length xs - n) xs"

definition append_load_log :: "load_decision \<Rightarrow> load_job \<Rightarrow> load_job" where
  "append_load_log d job =
     job\<lparr>lj_logs := last_n LOAD_LOG_CAP (lj_logs job @ [(ld_action d, ld_parallelism d)])\<rparr>"

text \<open>The conditional status writes: \<open>fresh\<close> is what the row reads when another writer won.\<close>

definition claim_status ::
  "bool \<Rightarrow> migration_status \<times> string option \<Rightarrow> migration_status \<Rightarrow> string option \<Rightarrow> load_job \<Rightarrow> load_job" where
  "claim_status claimed fresh target reason job =
     (if claimed then job\<lparr>lj_status := target, lj_pause_reason := reason\<rparr>
      else job\<lparr>lj_status := fst fresh, lj_pause_reason := snd fresh\<rparr>)"

definition claim_resume :: "bool \<Rightarrow> migration_status \<times> string option \<Rightarrow> load_job \<Rightarrow> load_job" where
  "claim_resume claimed fresh job =
     (if claimed then job\<lparr>lj_status := J_RUNNING, lj_pause_reason := None\<rparr>
      else job\<lparr>lj_status := fst fresh, lj_pause_reason := snd fresh\<rparr>)"

definition paused_by_load :: "load_job \<Rightarrow> bool" where
  "paused_by_load job \<longleftrightarrow> lj_status job = J_PAUSED \<and> lj_pause_reason job = Some ''load''"

definition load_input_of :: "load_job \<Rightarrow> load_input" where
  "load_input_of job =
     \<lparr>li_parallelism = Some (int_or (lj_parallelism job) 1),
      li_clean_ticks = Some (int_or (lo_clean_ticks (lj_state job)) 0), li_paused_by_load = paused_by_load job\<rparr>"

definition apply_load_policy ::
  "load_sample \<Rightarrow> bool \<Rightarrow> migration_status \<times> string option \<Rightarrow> load_job \<Rightarrow> bool \<times> load_job" where
  "apply_load_policy sample claimed fresh job =
     (if \<not> paused_by_load job \<and> lj_status job \<noteq> J_RUNNING then (False, job)
      else (let decision = decide sample (load_input_of job) (lj_policy job);
                job1 = (case ld_action decision of
                          Lower \<Rightarrow> append_load_log decision (job\<lparr>lj_parallelism := Some (ld_parallelism decision)\<rparr>)
                        | Raise \<Rightarrow> append_load_log decision (job\<lparr>lj_parallelism := Some (ld_parallelism decision)\<rparr>)
                        | Pause \<Rightarrow> append_load_log decision (claim_status claimed fresh J_PAUSED (Some ''load'') job)
                        | Resume \<Rightarrow> (let j = claim_resume claimed fresh job
                                     in if claimed then append_load_log decision j else j)
                        | Hold \<Rightarrow> job);
                job2 = job1\<lparr>lj_state := \<lparr>lo_clean_ticks = Some (ld_clean_ticks decision),
                                         lo_last_action = Some (ld_action decision),
                                         lo_last_reason = Some (ld_reason decision),
                                         lo_effective_parallelism = Some (ld_parallelism decision)\<rparr>\<rparr>
            in (lj_status job2 = J_PAUSED, job2)))"

section \<open>Lemmas\<close>

definition range_ok :: "load_policy_raw option \<Rightarrow> bool" where
  "range_ok raw \<longleftrightarrow> 1 \<le> lp_parallelism_min (normalize_load_policy raw)
     \<and> lp_parallelism_min (normalize_load_policy raw) \<le> lp_parallelism_max (normalize_load_policy raw)"

lemma mk_decision_sel [simp]:
  "ld_parallelism (mk_decision p a c r) = p" "ld_action (mk_decision p a c r) = a"
  "ld_clean_ticks (mk_decision p a c r) = c" "ld_reason (mk_decision p a c r) = r"
  by (simp_all add: mk_decision_def)

lemma append_load_log_sel [simp]:
  "lj_status (append_load_log d j) = lj_status j" "lj_pause_reason (append_load_log d j) = lj_pause_reason j"
  "lj_parallelism (append_load_log d j) = lj_parallelism j" "lj_policy (append_load_log d j) = lj_policy j"
  by (simp_all add: append_load_log_def)

text \<open>The shape of a decision: where the parallelism goes, and what becomes of the counter.\<close>

lemma decide_cases:
  fixes sample st raw
  defines "p \<equiv> clamp_parallelism (normalize_load_policy raw) (li_parallelism st)"
    and "c \<equiv> int_or (li_clean_ticks st) 0"
    and "d \<equiv> decide sample st raw"
  obtains (steady) "ld_action d \<in> {Hold, Pause, Resume}" "ld_parallelism d = p" "ld_clean_ticks d \<in> {0, c + 1}"
  | (lower) "ld_action d = Lower" "ld_parallelism d = p - 1" "ld_clean_ticks d = 0"
      "p > lp_parallelism_min (normalize_load_policy raw)" "\<not> li_paused_by_load st"
      "classify_load sample (normalize_load_policy raw) = Level_busy"
  | (raise) "ld_action d = Raise" "ld_parallelism d = p + 1" "ld_clean_ticks d = 0" "c \<ge> 2"
      "p < lp_parallelism_max (normalize_load_policy raw)" "\<not> li_paused_by_load st"
      "classify_load sample (normalize_load_policy raw) = Level_idle"
proof -
  let ?pol = "normalize_load_policy raw"
  have "(ld_action d \<in> {Hold, Pause, Resume} \<and> ld_parallelism d = p \<and> ld_clean_ticks d \<in> {0, c + 1})
    \<or> (ld_action d = Lower \<and> ld_parallelism d = p - 1 \<and> ld_clean_ticks d = 0 \<and> p > lp_parallelism_min ?pol
        \<and> \<not> li_paused_by_load st \<and> classify_load sample ?pol = Level_busy)
    \<or> (ld_action d = Raise \<and> ld_parallelism d = p + 1 \<and> ld_clean_ticks d = 0 \<and> c \<ge> 2 \<and> p < lp_parallelism_max ?pol
        \<and> \<not> li_paused_by_load st \<and> classify_load sample ?pol = Level_idle)"
    unfolding d_def decide_def Let_def p_def [symmetric] c_def [symmetric] LOAD_RAISE_AFTER_CLEAN_TICKS_def
    by (cases "classify_load sample ?pol") (simp_all split: if_split)
  then show thesis using steady lower raise by blast
qed

lemma decide_actions:
  "ld_action (decide sample st raw) = Resume \<Longrightarrow> li_paused_by_load st
     \<and> \<not> load_over_hard_limit sample (normalize_load_policy raw)
     \<and> classify_load sample (normalize_load_policy raw) \<noteq> Level_busy
     \<and> int_or (li_clean_ticks st) 0 + 1 \<ge> LOAD_RAISE_AFTER_CLEAN_TICKS"
  "ld_action (decide sample st raw) \<in> {Pause, Lower, Raise} \<Longrightarrow> \<not> li_paused_by_load st"
  unfolding decide_def Let_def by (simp_all split: if_splits)

lemma clamp_bounds:
  "lp_parallelism_min pol \<le> lp_parallelism_max pol \<Longrightarrow>
     lp_parallelism_min pol \<le> clamp_parallelism pol par \<and> clamp_parallelism pol par \<le> lp_parallelism_max pol"
  by (auto simp: clamp_parallelism_def)

definition effective :: "load_job \<Rightarrow> int" where
  "effective job = clamp_parallelism (normalize_load_policy (lj_policy job)) (Some (int_or (lj_parallelism job) 1))"

definition clean_ticks :: "load_job \<Rightarrow> int" where
  "clean_ticks job = int_or (lo_clean_ticks (lj_state job)) 0"

lemma int_or_Some_idem: "int_or (Some (int_or v d)) d = int_or v d"
  by (simp add: int_or_def split: option.split)

lemma apply_load_facts:
  fixes sample
  assumes r: "range_ok (lj_policy job)"
  defines "d \<equiv> decide sample (load_input_of job) (lj_policy job)"
  assumes act: "paused_by_load job \<or> lj_status job = J_RUNNING"
  shows "lj_policy (snd (apply_load_policy sample claimed fresh job)) = lj_policy job"
    and "effective (snd (apply_load_policy sample claimed fresh job)) = ld_parallelism d"
    and "clean_ticks (snd (apply_load_policy sample claimed fresh job)) = ld_clean_ticks d"
proof -
  let ?p = "normalize_load_policy (lj_policy job)" and ?j = "snd (apply_load_policy sample claimed fresh job)"
  have pol: "lj_policy ?j = lj_policy job" and cl: "clean_ticks ?j = ld_clean_ticks d"
    using act unfolding d_def
    by (auto simp: apply_load_policy_def Let_def claim_status_def claim_resume_def clean_ticks_def int_or_def
        split: load_action.splits)
  show "lj_policy ?j = lj_policy job" "clean_ticks ?j = ld_clean_ticks d" by (rule pol, rule cl)
  have par: "lj_parallelism ?j = (if ld_action d \<in> {Lower, Raise} then Some (ld_parallelism d) else lj_parallelism job)"
    using act unfolding d_def
    by (auto simp: apply_load_policy_def Let_def claim_status_def claim_resume_def split: load_action.splits)
  have lo: "1 \<le> lp_parallelism_min ?p" "lp_parallelism_min ?p \<le> lp_parallelism_max ?p" using r by (simp_all add: range_ok_def)
  have li: "li_parallelism (load_input_of job) = Some (int_or (lj_parallelism job) 1)" by (simp add: load_input_of_def)
  note cb = clamp_bounds [OF lo(2)]
  have keep: "clamp_parallelism ?p (Some (int_or (Some q) 1)) = q" if "lp_parallelism_min ?p \<le> q" "q \<le> lp_parallelism_max ?p" for q
    using that lo by (simp add: clamp_parallelism_def int_or_def)
  show "effective ?j = ld_parallelism d"
    unfolding effective_def pol par
  proof (cases rule: decide_cases [of sample "load_input_of job" "lj_policy job"])
    case steady
    then show "clamp_parallelism ?p (Some (int_or (if ld_action d \<in> {Lower, Raise} then Some (ld_parallelism d) else lj_parallelism job) 1))
        = ld_parallelism d" by (auto simp: d_def li)
  next
    case lower
    then show "clamp_parallelism ?p (Some (int_or (if ld_action d \<in> {Lower, Raise} then Some (ld_parallelism d) else lj_parallelism job) 1))
        = ld_parallelism d" using keep [of "ld_parallelism d"] cb [of "li_parallelism (load_input_of job)"] by (simp add: d_def)
  next
    case raise
    then show "clamp_parallelism ?p (Some (int_or (if ld_action d \<in> {Lower, Raise} then Some (ld_parallelism d) else lj_parallelism job) 1))
        = ld_parallelism d" using keep [of "ld_parallelism d"] cb [of "li_parallelism (load_input_of job)"] by (simp add: d_def)
  qed
qed

text \<open>One tick adds at most one to three times the parallelism plus the counter.\<close>

lemma load_tick_potential:
  fixes sample claimed fresh
  assumes r: "range_ok (lj_policy job)" and c: "0 \<le> clean_ticks job"
  defines "j \<equiv> snd (apply_load_policy sample claimed fresh job)"
  shows "lj_policy j = lj_policy job \<and> 0 \<le> clean_ticks j
     \<and> 3 * effective j + clean_ticks j \<le> 3 * effective job + clean_ticks job + 1"
proof (cases "paused_by_load job \<or> lj_status job = J_RUNNING")
  case False
  then have "j = job" by (simp add: j_def apply_load_policy_def)
  then show ?thesis using c by simp
next
  case True
  note f = apply_load_facts [OF r True, of sample claimed fresh, folded j_def]
  have e: "clamp_parallelism (normalize_load_policy (lj_policy job)) (li_parallelism (load_input_of job)) = effective job"
    "int_or (li_clean_ticks (load_input_of job)) 0 = clean_ticks job"
    by (simp_all add: load_input_of_def effective_def clean_ticks_def int_or_Some_idem)
  show ?thesis
    using c unfolding f
    by (cases rule: decide_cases [of sample "load_input_of job" "lj_policy job"]) (auto simp: e)
qed

lemma load_run_potential:
  fixes ticks :: "(load_sample \<times> bool \<times> migration_status \<times> string option) list"
  assumes "range_ok (lj_policy job)" "0 \<le> clean_ticks job"
  defines "run \<equiv> fold (\<lambda>(sample, claimed, fresh) j. snd (apply_load_policy sample claimed fresh j)) ticks job"
  shows "lj_policy run = lj_policy job \<and> 0 \<le> clean_ticks run
     \<and> 3 * effective run + clean_ticks run \<le> 3 * effective job + clean_ticks job + int (length ticks)"
  using assms(1,2) unfolding run_def
proof (induction ticks arbitrary: job)
  case (Cons t ticks)
  obtain sample claimed fresh where t: "t = (sample, claimed, fresh)" by (cases t)
  let ?j = "snd (apply_load_policy sample claimed fresh job)"
  note s = load_tick_potential [OF Cons.prems, of sample claimed fresh]
  have "range_ok (lj_policy ?j)" "0 \<le> clean_ticks ?j" using s Cons.prems(1) by simp_all
  from Cons.IH [OF this] s show ?case unfolding t by simp
qed simp

section \<open>Properties\<close>

text \<open>The load decision stays in the policy's range and moves one step at a time. Whatever the sample and
  the stored state, the new parallelism lies between the policy's bounds, differs from the clamped
  current one by at most one, is lowered exactly when a job that is not load-paused and under its
  hard limit reads busy above the minimum, and is raised exactly on the third idle tick in a row
  below the maximum; at or over the hard limit the job is paused or stays paused.\<close>

theorem load_decision_exact:
  fixes sample st raw
  defines "pol \<equiv> normalize_load_policy raw" and "d \<equiv> decide sample st raw"
  defines "p \<equiv> clamp_parallelism pol (li_parallelism st)" and "c \<equiv> int_or (li_clean_ticks st) 0"
  assumes "lp_parallelism_min pol \<le> lp_parallelism_max pol"
  shows "lp_parallelism_min pol \<le> ld_parallelism d \<and> ld_parallelism d \<le> lp_parallelism_max pol
     \<and> (ld_parallelism d = p - 1 \<longleftrightarrow>
          \<not> li_paused_by_load st \<and> \<not> load_over_hard_limit sample pol
          \<and> classify_load sample pol = Level_busy \<and> p > lp_parallelism_min pol)
     \<and> (ld_parallelism d = p + 1 \<longleftrightarrow>
          \<not> li_paused_by_load st \<and> \<not> load_over_hard_limit sample pol
          \<and> classify_load sample pol = Level_idle \<and> p < lp_parallelism_max pol \<and> c + 1 \<ge> 3)
     \<and> ld_parallelism d \<in> {p - 1, p, p + 1}
     \<and> (load_over_hard_limit sample pol \<longrightarrow> ld_action d = (if li_paused_by_load st then Hold else Pause))"
proof -
  have "lp_parallelism_min pol \<le> p \<and> p \<le> lp_parallelism_max pol"
    unfolding p_def by (rule clamp_bounds [OF assms(5)])
  then show ?thesis
    unfolding d_def decide_def Let_def pol_def [symmetric] p_def [symmetric] c_def [symmetric] LOAD_RAISE_AFTER_CLEAN_TICKS_def
    by (cases "classify_load sample pol") (simp_all split: if_split)
qed

definition sample_policy :: load_policy_raw where
  "sample_policy = \<lparr>lr_mode = Some ''adaptive'', lr_parallelism_min = Some 1, lr_parallelism_max = Some 4,
     lr_pause_above = Some 100, lr_baseline_window = None\<rparr>"

definition idle_sample :: load_sample where
  "idle_sample = \<lparr>sm_governor_busy = Some False, sm_nfs_rpc_s = None, sm_nfs_baseline = None, sm_desktops_started = Some 3\<rparr>"

theorem load_decision_exact_witness:
  "let d = decide idle_sample \<lparr>li_parallelism = Some 2, li_clean_ticks = Some 2, li_paused_by_load = False\<rparr> (Some sample_policy)
   in ld_parallelism d = 3 \<and> ld_action d = Raise \<and> ld_parallelism d \<le> 4"
proof -
  let ?st = "\<lparr>li_parallelism = Some 2, li_clean_ticks = Some 2, li_paused_by_load = False\<rparr>"
  let ?d = "decide idle_sample ?st (Some sample_policy)" and ?p = "normalize_load_policy (Some sample_policy)"
  have e: "lp_parallelism_min ?p = 1" "lp_parallelism_max ?p = 4" "ld_action ?d = Raise" "ld_parallelism ?d = 3"
    by code_simp+
  then have "lp_parallelism_min ?p \<le> lp_parallelism_max ?p" by simp
  from load_decision_exact [OF this, of idle_sample ?st] have "ld_parallelism ?d \<le> 4" unfolding e(2) by blast
  then show ?thesis using e by (simp add: Let_def)
qed


definition sample_job :: load_job where
  "sample_job = \<lparr>lj_status = J_RUNNING, lj_pause_reason = None, lj_parallelism = Some 1, lj_policy = Some sample_policy,
     lj_state = \<lparr>lo_clean_ticks = None, lo_last_action = None, lo_last_reason = None, lo_effective_parallelism = None\<rparr>,
     lj_logs = []\<rparr>"


text \<open>The load loop only lifts its own pause. A job in any status other than running or paused by load is
  left exactly as it is; a job it does act on is, when its status write is the one applied, running
  or paused with reason load, and it leaves the pause only when the load is off the hard limit and
  not busy.\<close>

theorem load_pause_ownership:
  "case apply_load_policy sample claimed fresh job of (paused, j) \<Rightarrow>
     (if lj_status job = J_RUNNING \<or> lj_status job = J_PAUSED \<and> lj_pause_reason job = Some ''load''
      then (paused = (lj_status j = J_PAUSED))
           \<and> (if claimed then lj_status j = J_RUNNING \<or> (lj_status j = J_PAUSED \<and> lj_pause_reason j = Some ''load'')
              else (lj_status j, lj_pause_reason j) \<in> {fresh, (lj_status job, lj_pause_reason job)})
           \<and> (if lj_status job = J_PAUSED \<and> claimed \<and> lj_status j = J_RUNNING
              then \<not> load_over_hard_limit sample (normalize_load_policy (lj_policy job))
                   \<and> classify_load sample (normalize_load_policy (lj_policy job)) \<noteq> Level_busy
                   \<and> clean_ticks job + 1 \<ge> LOAD_RAISE_AFTER_CLEAN_TICKS
              else True)
      else j = job \<and> \<not> paused)"
proof (cases "paused_by_load job \<or> lj_status job = J_RUNNING")
  case False
  then show ?thesis by (auto simp: apply_load_policy_def paused_by_load_def)
next
  case True
  let ?d = "decide sample (load_input_of job) (lj_policy job)"
  have pb: "li_paused_by_load (load_input_of job) = paused_by_load job"
    and cl: "int_or (li_clean_ticks (load_input_of job)) 0 = clean_ticks job"
    by (simp_all add: load_input_of_def clean_ticks_def int_or_Some_idem)
  note acts = decide_actions [of sample "load_input_of job" "lj_policy job", unfolded pb cl]
  show ?thesis
    using True acts
    by (cases "ld_action ?d")
       (auto simp: apply_load_policy_def Let_def paused_by_load_def claim_status_def claim_resume_def)
qed

text \<open>A load-paused job kept paused by a busy signal below its ceiling still reports the ceiling.\<close>

lemma paused_busy_reason:
  assumes "li_paused_by_load st" "classify_load sample (normalize_load_policy raw) = Level_busy"
  shows "ld_reason (decide sample st raw) = hard_limit_reason sample (normalize_load_policy raw)"
  using assms by (simp add: decide_def Let_def)

end
