(* ===== verification/Access_Control.thy ===== *)
theory Access_Control
  imports Prelude
begin

text \<open>
  Who may see and change what: the sharing rules of \<open>helpers/alloweds.py\<close>, the ownership checks of
  \<open>helpers/helpers.py\<close> and \<open>helpers/recycle_bin.py\<close>, and the route dependencies of
  \<open>apiv4/dependencies/alloweds.py\<close> that apply them. The tables the checks read are a record of lookups;
  the short-lived caches in front of them are not modelled. A payload carries the role, category
  and group of its user, as the token of a login does.
\<close>

section \<open>Documents\<close>

text \<open>One axis of a sharing rule as the JSON document may hold it; \<open>Off\<close> is \<open>false\<close> and \<open>On\<close> is \<open>true\<close>.\<close>

datatype axis = Missing | Off | On | Null | Listed "string list"

record allowed =
  al_roles :: axis
  al_categories :: axis
  al_groups :: axis
  al_users :: axis

record payload =
  p_user_id :: "string option"
  p_role_id :: string
  p_category_id :: string
  p_group_id :: string

record item =
  i_id :: string
  i_user :: "string option"
  i_category :: "string option"
  i_enabled :: "bool option"
  i_allowed :: "allowed option"

record user_row =
  u_id :: string
  u_role :: string
  u_category :: string
  u_group :: string
  u_secondary :: "string list option"

text \<open>The \<open>tag\<close> of a domain: absent, null, false, or the deployment the desktop belongs to.\<close>

datatype tag = No_tag | Null_tag | False_tag | Tag string

record domain_row =
  d_user :: string
  d_category :: string
  d_kind :: string
  d_tag :: tag
  d_allowed :: "allowed option"

record deployment_row =
  y_user :: string
  y_co_owners :: "string list option"
  y_allowed :: "allowed option"
  y_category :: "string option"
  y_user_permissions :: "string list option"

record tables =
  t_users :: "user_row list"
  t_linked_groups :: "string \<Rightarrow> string list option"
  t_parent_category :: "string \<Rightarrow> string option"
  t_domains :: "string \<Rightarrow> domain_row option"
  t_deployments :: "string \<Rightarrow> deployment_row option"
  t_media :: "string \<Rightarrow> (string \<times> string) option"
  t_booking_user :: "string \<Rightarrow> string option"
  t_recycle_owner :: "string \<Rightarrow> string option"
  t_recycle_category :: "string \<Rightarrow> string option"

text \<open>An \<open>Error\<close> of the API by its kind; any other exception is a crash.\<close>

datatype access_error =
    Forbidden | Not_found | Unauthorized | Bad_request | Conflict | Precondition_required | Maintenance_mode | Internal_server
  | Crash string

type_synonym 'a access = "access_error + 'a"

fun or_else_res :: "bool access \<Rightarrow> bool access \<Rightarrow> bool access" where
  "or_else_res (Inl e) b = Inl e"
| "or_else_res (Inr True) b = Inr True"
| "or_else_res (Inr False) b = b"

text \<open>\<open>payload["user_id"]\<close>, a key error when the token names no user.\<close>

definition with_user :: "payload \<Rightarrow> (string \<Rightarrow> 'a access) \<Rightarrow> 'a access" where
  "with_user p k = (case p_user_id p of None \<Rightarrow> Inl (Crash ''KeyError'') | Some u \<Rightarrow> k u)"

definition user_of :: "tables \<Rightarrow> string \<Rightarrow> user_row option" where
  "user_of db uid = List.find (\<lambda>u. u_id u = uid) (t_users db)"

section \<open>Sharing rules\<close>

definition get_all_linked_groups :: "tables \<Rightarrow> string list \<Rightarrow> string list" where
  "get_all_linked_groups db groups =
     rev (remdups (rev (groups @ concat (map (\<lambda>g. case t_linked_groups db g of None \<Rightarrow> [] | Some ls \<Rightarrow> ls) groups))))"

definition check_secondary_groups :: "tables \<Rightarrow> string \<Rightarrow> string \<Rightarrow> string list \<Rightarrow> bool access" where
  "check_secondary_groups db uid gid item_allowed_groups =
     (case user_of db uid of
        None \<Rightarrow> Inl (Crash ''ReqlNonExistenceError'')
      | Some u \<Rightarrow>
          (let secondary = (case u_secondary u of None \<Rightarrow> [] | Some gs \<Rightarrow> gs)
           in Inr (list_ex (\<lambda>g. g \<in> set item_allowed_groups) (get_all_linked_groups db (gid # secondary)))))"

text \<open>A check on one axis: what an empty list grants, and what a list of names grants.\<close>

fun axis_grants :: "axis \<Rightarrow> bool \<Rightarrow> (string list \<Rightarrow> bool access) \<Rightarrow> bool access" where
  "axis_grants Missing open_to_all listed = Inr False"
| "axis_grants Off open_to_all listed = Inr False"
| "axis_grants On open_to_all listed = Inl (Crash ''TypeError'')"
| "axis_grants Null open_to_all listed = Inl (Crash ''TypeError'')"
| "axis_grants (Listed xs) open_to_all listed = (if xs = [] then Inr open_to_all else listed xs)"

definition no_allowed :: allowed where
  "no_allowed = \<lparr>al_roles = Missing, al_categories = Missing, al_groups = Missing, al_users = Missing\<rparr>"

definition is_allowed :: "tables \<Rightarrow> payload \<Rightarrow> item \<Rightarrow> string \<Rightarrow> bool \<Rightarrow> bool access" where
  "is_allowed db p it table ignore_role =
     (if \<not> truthy_str (p_user_id p) then Inr False
      else if \<not> ignore_role
              \<and> (p_role_id p = ''admin'' \<or> i_user it = p_user_id p
                 \<or> (p_role_id p = ''manager'' \<and> i_category it = Some (p_category_id p)))
      then Inr True
      else (let al = (case i_allowed it of None \<Rightarrow> no_allowed | Some a \<Rightarrow> a);
                open_to_all = (if table = ''domains'' \<or> table = ''media'' then i_category it = Some (p_category_id p) else True)
            in or_else_res (axis_grants (al_roles al) True (\<lambda>xs. Inr (p_role_id p \<in> set xs)))
                 (or_else_res (axis_grants (al_categories al) True (\<lambda>xs. Inr (p_category_id p \<in> set xs)))
                   (or_else_res (axis_grants (al_groups al) open_to_all
                                   (\<lambda>xs. check_secondary_groups db (the (p_user_id p)) (p_group_id p) xs))
                     (axis_grants (al_users al) open_to_all (\<lambda>xs. Inr (the (p_user_id p) \<in> set xs)))))))"

text \<open>
  The same rule as a database filter. A condition evaluates to \<open>None\<close> when it reads a field the row
  does not have; such a row is left out. \<open>or\<close> and \<open>and\<close> stop at the first decisive operand.
\<close>

fun reql_or :: "bool option list \<Rightarrow> bool option" where
  "reql_or [] = Some False"
| "reql_or (None # cs) = None"
| "reql_or (Some True # cs) = Some True"
| "reql_or (Some False # cs) = reql_or cs"

definition reql_and :: "bool option \<Rightarrow> bool option \<Rightarrow> bool option" where
  "reql_and a b = (case a of None \<Rightarrow> None | Some True \<Rightarrow> b | Some False \<Rightarrow> Some False)"

fun reql_axis :: "axis \<Rightarrow> (string list \<Rightarrow> bool option) \<Rightarrow> bool option" where
  "reql_axis Missing f = None"
| "reql_axis (Listed xs) f = f xs"
| "reql_axis _ f = Some False"

definition reql_field :: "(allowed \<Rightarrow> axis) \<Rightarrow> item \<Rightarrow> (string list \<Rightarrow> bool option) \<Rightarrow> bool option" where
  "reql_field f row g = (case i_allowed row of None \<Rightarrow> None | Some al \<Rightarrow> reql_axis (f al) g)"

definition category_is :: "item \<Rightarrow> string \<Rightarrow> bool option" where
  "category_is row c = map_option (\<lambda>rc. rc = c) (i_category row)"

definition filter_groups :: "tables \<Rightarrow> string \<Rightarrow> string \<Rightarrow> string list" where
  "filter_groups db user_group user_id =
     (let secondary = (case user_of db user_id of
                         None \<Rightarrow> [] | Some u \<Rightarrow> (case u_secondary u of None \<Rightarrow> [] | Some gs \<Rightarrow> gs))
      in get_all_linked_groups db (filter (\<lambda>g. g \<noteq> []) (user_group # secondary)))"

definition shared_conditions :: "tables \<Rightarrow> string \<Rightarrow> string \<Rightarrow> string \<Rightarrow> string \<Rightarrow> item \<Rightarrow> bool option list" where
  "shared_conditions db user_role user_category user_group user_id row =
     [reql_field al_roles row (\<lambda>xs. reql_or [Some (xs = []), Some (user_role \<in> set xs)]),
      reql_field al_categories row (\<lambda>xs. reql_or [Some (xs = []), Some (user_category \<in> set xs)]),
      reql_field al_groups row
        (\<lambda>xs. reql_or [reql_and (Some (xs = [])) (category_is row user_category),
                       Some (list_ex (\<lambda>g. g \<in> set (filter_groups db user_group user_id)) xs)]),
      reql_field al_users row
        (\<lambda>xs. reql_or [reql_and (Some (xs = [])) (category_is row user_category),
                       Some (user_id \<in> set xs)])]"

definition build_shared_items_filter ::
  "tables \<Rightarrow> string \<Rightarrow> string \<Rightarrow> string \<Rightarrow> string \<Rightarrow> bool \<Rightarrow> bool \<Rightarrow> item \<Rightarrow> bool option" where
  "build_shared_items_filter db user_role user_category user_group user_id include_own consider_user_role row =
     (if consider_user_role \<and> user_role = ''admin'' then Some True
      else reql_or ((if consider_user_role \<and> user_role = ''manager'' then [category_is row user_category] else [])
                    @ shared_conditions db user_role user_category user_group user_id row
                    @ [if include_own then map_option (\<lambda>u. u = user_id) (i_user row) else Some False]))"

definition filter_keeps :: "bool option \<Rightarrow> bool" where
  "filter_keeps c = (c = Some True)"

text \<open>
  A listing: the rows of the query (narrowed by the two declarative shortcuts; a row without the field
  they read is left out), each with the right to edit it, then the ones the caller may see. Any
  exception is answered as an internal error. The joined names the query adds for display and its
  caller-given filter and order are the rows given here.
\<close>

definition query_rows :: "string option \<Rightarrow> bool \<Rightarrow> item list \<Rightarrow> item list" where
  "query_rows exclude_owner_user_id require_enabled rows =
     filter (\<lambda>it. (truthy_str exclude_owner_user_id \<longrightarrow> i_user it \<noteq> None \<and> i_user it \<noteq> exclude_owner_user_id)
                  \<and> (require_enabled \<longrightarrow> i_enabled it = Some True)) rows"

definition editable :: "payload \<Rightarrow> item \<Rightarrow> bool access" where
  "editable p it =
     (if p_role_id p = ''admin'' \<or> (p_role_id p = ''manager'' \<and> Some (p_category_id p) = i_category it) then Inr True
      else with_user p (\<lambda>u. Inr (i_user it = Some u)))"

fun listing :: "tables \<Rightarrow> payload \<Rightarrow> string \<Rightarrow> string list \<Rightarrow> bool \<Rightarrow> item list \<Rightarrow> (item \<times> bool) list access" where
  "listing db p table extra only [] = Inr []"
| "listing db p table extra only (it # its) =
     (case editable p it of
        Inl e \<Rightarrow> Inl e
      | Inr ed \<Rightarrow>
          (case (if i_id it \<in> set extra then Inr True else is_allowed db p it table only) of
             Inl e \<Rightarrow> Inl e
           | Inr ok \<Rightarrow>
               (case listing db p table extra only its of
                  Inl e \<Rightarrow> Inl e
                | Inr rest \<Rightarrow> Inr (if ok then (it, ed) # rest else rest))))"

definition get_items_allowed ::
  "tables \<Rightarrow> payload \<Rightarrow> string \<Rightarrow> item list \<Rightarrow> string list \<Rightarrow> bool \<Rightarrow> string option \<Rightarrow> bool \<Rightarrow> (item \<times> bool) list access" where
  "get_items_allowed db p table rows extra_ids_allowed only_in_allowed exclude_owner_user_id require_enabled =
     (case listing db p table extra_ids_allowed only_in_allowed (query_rows exclude_owner_user_id require_enabled rows) of
        Inl e \<Rightarrow> Inl Internal_server
      | Inr items \<Rightarrow> Inr items)"

text \<open>
  A partial update of a sharing rule. The schema takes a boolean or a list for each axis, and leaves
  an axis it is not given as it was.
\<close>

datatype axis_update = Upd_bool bool | Upd_list "string list"

record allowed_update =
  au_roles :: "axis_update option"
  au_categories :: "axis_update option"
  au_groups :: "axis_update option"
  au_users :: "axis_update option"

fun update_axis :: "axis_update option \<Rightarrow> axis \<Rightarrow> axis" where
  "update_axis None a = a"
| "update_axis (Some (Upd_bool b)) a = (if b then On else Off)"
| "update_axis (Some (Upd_list xs)) a = Listed xs"

definition update_table_item_allowed :: "allowed_update \<Rightarrow> item \<Rightarrow> item" where
  "update_table_item_allowed upd it =
     (let al = (case i_allowed it of None \<Rightarrow> no_allowed | Some a \<Rightarrow> a)
      in it\<lparr>i_allowed := Some \<lparr>al_roles = update_axis (au_roles upd) (al_roles al),
                               al_categories = update_axis (au_categories upd) (al_categories al),
                               al_groups = update_axis (au_groups upd) (al_groups al),
                               al_users = update_axis (au_users upd) (al_users al)\<rparr>\<rparr>)"

text \<open>The users a sharing rule reaches, as the bastion clean-up computes them; only membership in the
  result is ever asked. A target is its id, its owner and its own domain names.\<close>

record target =
  g_id :: string
  g_user_id :: string
  g_domains :: "string list"


fun axis_users :: "tables \<Rightarrow> (user_row \<Rightarrow> string) \<Rightarrow> axis \<Rightarrow> string list access" where
  "axis_users db key Missing = Inr []"
| "axis_users db key Off = Inr []"
| "axis_users db key On = Inl (Crash ''TypeError'')"
| "axis_users db key Null = Inl (Crash ''TypeError'')"
| "axis_users db key (Listed xs) =
     Inr (map u_id (if xs = [] then t_users db else filter (\<lambda>u. key u \<in> set xs) (t_users db)))"

definition get_users_allowed :: "tables \<Rightarrow> allowed \<Rightarrow> string list access" where
  "get_users_allowed db al =
     (case (axis_users db u_role (al_roles al), axis_users db u_category (al_categories al),
            axis_users db u_group (al_groups al), axis_users db u_id (al_users al)) of
        (Inr a, Inr b, Inr c, Inr d) \<Rightarrow> Inr (a @ b @ c @ d)
      | _ \<Rightarrow> Inl (Crash ''TypeError''))"

definition disallowed_targets :: "string list \<Rightarrow> target list \<Rightarrow> string list" where
  "disallowed_targets allowed_users targets = map g_id (filter (\<lambda>t. g_user_id t \<notin> set allowed_users) targets)"

text \<open>The ids the clean-up returns and the table it leaves.\<close>

definition remove_disallowed_bastion_targets ::
  "tables \<Rightarrow> allowed \<Rightarrow> target list \<Rightarrow> (string list \<times> target list) access" where
  "remove_disallowed_bastion_targets db al targets =
     (case get_users_allowed db al of
        Inl e \<Rightarrow> Inl e
      | Inr users \<Rightarrow>
          (let gone = disallowed_targets users targets
           in Inr (gone, filter (\<lambda>t. g_id t \<notin> set gone) targets)))"

definition remove_disallowed_bastion_target_domains ::
  "tables \<Rightarrow> allowed \<Rightarrow> target list \<Rightarrow> (string list \<times> target list) access" where
  "remove_disallowed_bastion_target_domains db al targets =
     (case get_users_allowed db al of
        Inl e \<Rightarrow> Inl e
      | Inr users \<Rightarrow>
          (let gone = disallowed_targets users targets
           in Inr (gone, map (\<lambda>t. if g_id t \<in> set gone then t\<lparr>g_domains := []\<rparr> else t) targets)))"

definition config_item :: "allowed option \<Rightarrow> item" where
  "config_item al = \<lparr>i_id = [], i_user = None, i_category = None, i_enabled = None, i_allowed = al\<rparr>"

text \<open>The bastion section of the configuration: whether it is on, its sharing rule, and the section of
  individual domains with its own rule.\<close>

record bastion =
  b_enabled :: bool
  b_allowed :: "allowed option"
  b_individual_domains :: "allowed option option"

definition can_use_bastion :: "tables \<Rightarrow> bool \<Rightarrow> bastion \<Rightarrow> payload \<Rightarrow> bool access" where
  "can_use_bastion db env_enabled cfg p =
     (if \<not> (env_enabled \<and> b_enabled cfg) then Inr False
      else is_allowed db p (config_item (b_allowed cfg)) ''config'' True)"

definition can_use_bastion_individual_domains :: "tables \<Rightarrow> bool \<Rightarrow> bastion \<Rightarrow> payload \<Rightarrow> bool access" where
  "can_use_bastion_individual_domains db env_enabled cfg p =
     (case can_use_bastion db env_enabled cfg p of
        Inl e \<Rightarrow> Inl e
      | Inr ok \<Rightarrow>
          if \<not> ok then Inr False
          else (case b_individual_domains cfg of
                  None \<Rightarrow> Inr False
                | Some al \<Rightarrow> is_allowed db p (config_item al) ''config'' True))"

section \<open>Ownership\<close>

definition owns_user_id :: "tables \<Rightarrow> payload \<Rightarrow> string \<Rightarrow> bool access" where
  "owns_user_id db p uid =
     (if p_role_id p = ''admin'' then Inr True
      else if p_category_id p = ''*'' then Inr True
      else if p_role_id p = ''manager''
              \<and> (case user_of db uid of None \<Rightarrow> False
                 | Some u \<Rightarrow> u_category u = p_category_id p \<and> u_role u \<noteq> ''admin'')
      then Inr True
      else Inl Forbidden)"

definition owns_category_id :: "payload \<Rightarrow> string \<Rightarrow> bool access" where
  "owns_category_id p cid =
     (if p_role_id p = ''admin'' then Inr True
      else if p_role_id p = ''manager'' \<and> cid = p_category_id p then Inr True
      else Inl Forbidden)"

definition owns_group_id :: "tables \<Rightarrow> payload \<Rightarrow> string \<Rightarrow> bool access" where
  "owns_group_id db p gid =
     (if p_role_id p = ''admin'' then Inr True
      else if \<not> truthy_str (t_parent_category db gid) then Inl Not_found
      else owns_category_id p (the (t_parent_category db gid)))"

text \<open>Both checks catch every error of the API and answer forbidden; any other exception passes through.\<close>

fun forbid_errors :: "'a access \<Rightarrow> 'a access" where
  "forbid_errors (Inr x) = Inr x"
| "forbid_errors (Inl (Crash e)) = Inl (Crash e)"
| "forbid_errors (Inl e) = Inl Forbidden"

definition co_owns :: "deployment_row \<Rightarrow> string \<Rightarrow> bool access" where
  "co_owns dep u = (case y_co_owners dep of None \<Rightarrow> Inl (Crash ''KeyError'') | Some us \<Rightarrow> Inr (u \<in> set us))"

definition owns_deployment_id :: "tables \<Rightarrow> payload \<Rightarrow> string \<Rightarrow> bool \<Rightarrow> bool access" where
  "owns_deployment_id db p did check_co_owner =
     (if p_role_id p = ''admin'' then Inr True
      else (case t_deployments db did of
              None \<Rightarrow> Inl Forbidden
            | Some dep \<Rightarrow> with_user p (\<lambda>u.
                case (if y_user dep = u then Inr True else if check_co_owner then co_owns dep u else Inr False) of
                  Inl e \<Rightarrow> Inl e
                | Inr True \<Rightarrow> Inr True
                | Inr False \<Rightarrow>
                    if p_role_id p = ''manager''
                    then (case user_of db (y_user dep) of
                            None \<Rightarrow> Inl (Crash ''TypeError'')
                          | Some du \<Rightarrow> if u_category du = p_category_id p then Inr True else Inl Forbidden)
                    else Inl Forbidden)))"

definition template_item :: "string \<Rightarrow> domain_row \<Rightarrow> item" where
  "template_item did d =
     \<lparr>i_id = did, i_user = Some (d_user d), i_category = Some (d_category d), i_enabled = None, i_allowed = d_allowed d\<rparr>"

text \<open>An advanced user is answered by the deployment alone when the desktop belongs to one.\<close>

definition owns_domain_id :: "tables \<Rightarrow> payload \<Rightarrow> string \<Rightarrow> bool access" where
  "owns_domain_id db p did =
     (if p_role_id p = ''admin'' then Inr True
      else (case t_domains db did of
              None \<Rightarrow> Inl Forbidden
            | Some d \<Rightarrow> with_user p (\<lambda>u.
                if d_user d = u then Inr True
                else if p_role_id p = ''advanced'' \<and> d_tag d = No_tag then Inl (Crash ''KeyError'')
                else (case (if p_role_id p = ''advanced'' then d_tag d else Null_tag) of
                        Tag (c # cs) \<Rightarrow> forbid_errors (owns_deployment_id db p (c # cs) True)
                      | _ \<Rightarrow>
                          if p_role_id p = ''manager'' \<and> p_category_id p = d_category d then Inr True
                          else if d_kind d = ''template''
                          then (case is_allowed db p (template_item did d) ''domains'' False of
                                  Inl e \<Rightarrow> forbid_errors (Inl e)
                                | Inr ok \<Rightarrow> if ok then Inr True else Inl Forbidden)
                          else Inl Forbidden))))"

definition owns_deployment_desktop_id :: "tables \<Rightarrow> payload \<Rightarrow> string \<Rightarrow> bool \<Rightarrow> bool access" where
  "owns_deployment_desktop_id db p did check_co_owners =
     (case t_domains db did of
        None \<Rightarrow> Inl Not_found
      | Some d \<Rightarrow>
          (case (if p_role_id p \<noteq> ''user'' then d_tag d else Null_tag) of
             Tag (c # cs) \<Rightarrow>
               Inr (case owns_deployment_id db p (c # cs) check_co_owners of Inl _ \<Rightarrow> False | Inr _ \<Rightarrow> True)
           | _ \<Rightarrow> Inr False))"

definition owns_media_id :: "tables \<Rightarrow> payload \<Rightarrow> string \<Rightarrow> string access" where
  "owns_media_id db p mid =
     (if p_role_id p = ''admin'' then Inr mid
      else (case t_media db mid of
              None \<Rightarrow> Inl Forbidden
            | Some (owner, category) \<Rightarrow> with_user p (\<lambda>u.
                if owner = u then Inr mid
                else if p_role_id p = ''manager'' \<and> p_category_id p = category then Inr mid
                else Inl Forbidden)))"

definition owns_booking_id :: "tables \<Rightarrow> payload \<Rightarrow> string \<Rightarrow> string access" where
  "owns_booking_id db p bid =
     (if p_role_id p = ''admin'' then Inr bid
      else (case t_booking_user db bid of
              None \<Rightarrow> Inl Not_found
            | Some owner \<Rightarrow> with_user p (\<lambda>u.
                if owner = u then Inr bid
                else if p_role_id p = ''manager''
                then (case user_of db owner of
                        None \<Rightarrow> Inl Not_found
                      | Some ou \<Rightarrow> if u_category ou = p_category_id p then Inr bid else Inl Forbidden)
                else Inl Forbidden)))"

definition owns_recycle_bin_id :: "tables \<Rightarrow> payload \<Rightarrow> string \<Rightarrow> string access" where
  "owns_recycle_bin_id db p rid =
     (if p_role_id p = ''admin'' then Inr rid
      else (case t_recycle_owner db rid of
              None \<Rightarrow> Inl Not_found
            | Some owner \<Rightarrow> with_user p (\<lambda>u.
                if owner = u then Inr rid
                else if p_role_id p = ''manager''
                then (case t_recycle_category db rid of
                        None \<Rightarrow> Inl Not_found
                      | Some c \<Rightarrow> if c = p_category_id p then Inr rid else Inl Forbidden)
                else Inl Forbidden)))"

section \<open>Route dependencies\<close>

definition is_allowed_template_id :: "tables \<Rightarrow> payload \<Rightarrow> string \<Rightarrow> string access" where
  "is_allowed_template_id db p tid =
     (case t_domains db tid of
        None \<Rightarrow> with_user p (\<lambda>u. Inl Forbidden)
      | Some d \<Rightarrow> with_user p (\<lambda>u.
          if d_kind d \<noteq> ''template'' then Inl Forbidden
          else if d_user d = u then Inr tid
          else (case is_allowed db p (template_item tid d) ''domains'' False of
                  Inl e \<Rightarrow> forbid_errors (Inl e)
                | Inr ok \<Rightarrow> if ok then Inr tid else Inl Forbidden)))"

fun is_allowed_template_ids_body :: "tables \<Rightarrow> payload \<Rightarrow> string option list \<Rightarrow> unit access" where
  "is_allowed_template_ids_body db p [] = Inr ()"
| "is_allowed_template_ids_body db p (t # ts) =
     (if \<not> truthy_str t then is_allowed_template_ids_body db p ts
      else (case is_allowed_template_id db p (the t) of
              Inl e \<Rightarrow> Inl e
            | Inr _ \<Rightarrow> is_allowed_template_ids_body db p ts))"

definition manages_deployment :: "tables \<Rightarrow> payload \<Rightarrow> string \<Rightarrow> bool access" where
  "manages_deployment db p did =
     (case owns_deployment_id db p did True of
        Inr b \<Rightarrow> Inr b | Inl (Crash e) \<Rightarrow> Inl (Crash e) | Inl e \<Rightarrow> Inr False)"

definition deployment_item :: "string \<Rightarrow> deployment_row \<Rightarrow> item" where
  "deployment_item did dep =
     \<lparr>i_id = did, i_user = Some (y_user dep), i_category = y_category dep, i_enabled = None, i_allowed = y_allowed dep\<rparr>"

text \<open>\<open>visible did uid\<close> says whether any desktop of that user in the deployment was made visible.\<close>

definition is_allowed_deployment_id_and_user_id ::
  "tables \<Rightarrow> (string \<Rightarrow> string \<Rightarrow> bool) \<Rightarrow> payload \<Rightarrow> string \<Rightarrow> string \<Rightarrow> string access" where
  "is_allowed_deployment_id_and_user_id db visible p did uid =
     (case t_deployments db did of
        None \<Rightarrow> Inl Not_found
      | Some dep \<Rightarrow>
          (case is_allowed db p (deployment_item did dep) ''deployments'' False of
             Inl e \<Rightarrow> Inl e
           | Inr ok \<Rightarrow> with_user p (\<lambda>u.
               case (if ok then Inr True else co_owns dep u) of
                 Inl e \<Rightarrow> Inl e
               | Inr False \<Rightarrow> Inl Forbidden
               | Inr True \<Rightarrow>
                   if u = uid
                   then (if visible did uid then Inr did
                         else (case manages_deployment db p did of
                                 Inl e \<Rightarrow> Inl e | Inr m \<Rightarrow> if m then Inr did else Inl Forbidden))
                   else if p_role_id p \<notin> {''admin'', ''manager'', ''advanced''} then Inl Forbidden
                   else (case owns_deployment_id db p did True of Inl e \<Rightarrow> Inl e | Inr _ \<Rightarrow> Inr did))))"

definition deployment_user_sees_only_visible ::
  "tables \<Rightarrow> (string \<Rightarrow> string \<Rightarrow> bool) \<Rightarrow> payload \<Rightarrow> string \<Rightarrow> string \<Rightarrow> bool access" where
  "deployment_user_sees_only_visible db visible p did uid =
     (case is_allowed_deployment_id_and_user_id db visible p did uid of
        Inl e \<Rightarrow> Inl e
      | Inr did' \<Rightarrow> with_user p (\<lambda>u.
          if u \<noteq> uid then Inr False
          else (case manages_deployment db p did' of Inl e \<Rightarrow> Inl e | Inr m \<Rightarrow> Inr (\<not> m))))"

text \<open>The deployment is looked up under whatever the \<open>tag\<close> holds; the database refuses a null key.\<close>

definition allowed_deployment_action :: "tables \<Rightarrow> payload \<Rightarrow> string \<Rightarrow> string \<Rightarrow> bool access" where
  "allowed_deployment_action db p action desktop_id =
     (if p_role_id p \<in> {''admin'', ''manager'', ''advanced''} then Inr True
      else (case (case t_domains db desktop_id of None \<Rightarrow> Null_tag | Some d \<Rightarrow> d_tag d) of
              Tag t \<Rightarrow>
                if action \<in> set (case t_deployments db t of None \<Rightarrow> []
                                  | Some dep \<Rightarrow> (case y_user_permissions dep of None \<Rightarrow> [] | Some ps \<Rightarrow> ps))
                then Inr True else Inl Unauthorized
            | False_tag \<Rightarrow> Inl Unauthorized
            | _ \<Rightarrow> Inl (Crash ''ReqlQueryLogicError'')))"

definition owns_booking_item :: "tables \<Rightarrow> payload \<Rightarrow> string \<Rightarrow> string \<Rightarrow> bool access" where
  "owns_booking_item db p item_type item_id =
     (if item_type = ''desktop'' then owns_domain_id db p item_id
      else if item_type = ''deployment'' then owns_deployment_id db p item_id True
      else Inl Forbidden)"

section \<open>Sharing rules are total on well-typed documents\<close>

fun usable_axis :: "axis \<Rightarrow> bool" where
  "usable_axis On = False"
| "usable_axis Null = False"
| "usable_axis _ = True"

definition usable_rule :: "item \<Rightarrow> bool" where
  "usable_rule it = (case i_allowed it of None \<Rightarrow> True
     | Some al \<Rightarrow> usable_axis (al_roles al) \<and> usable_axis (al_categories al) \<and> usable_axis (al_groups al) \<and> usable_axis (al_users al))"

definition sets_true :: "allowed_update \<Rightarrow> bool" where
  "sets_true upd = list_ex (\<lambda>a. a = Some (Upd_bool True)) [au_roles upd, au_categories upd, au_groups upd, au_users upd]"

lemma or_else_res_Inr [simp]:
  "or_else_res (Inr a) b = (if a then Inr True else b)"
  by (cases a) simp_all

lemma axis_grants_total:
  assumes "usable_axis a" "\<And>xs. \<exists>b. f xs = Inr b"
  shows "\<exists>b. axis_grants a op f = Inr b"
  using assms by (cases a) auto

lemma or_else_res_total:
  assumes "\<exists>b. x = Inr b" "\<exists>b. y = Inr b"
  shows "\<exists>b. or_else_res x y = Inr b"
  using assms by auto

lemma check_secondary_groups_known:
  assumes "user_of db uid = Some u"
  shows "check_secondary_groups db uid gid xs =
           Inr (list_ex (\<lambda>g. g \<in> set xs) (get_all_linked_groups db (gid # (case u_secondary u of None \<Rightarrow> [] | Some gs \<Rightarrow> gs))))"
  using assms by (simp add: check_secondary_groups_def)

text \<open>The role shortcuts come before the sharing rule.\<close>

lemma is_allowed_role:
  assumes "p_user_id p = Some uid" "uid \<noteq> []"
  shows "is_allowed db p it table False =
     (if p_role_id p = ''admin'' \<or> i_user it = Some uid \<or> (p_role_id p = ''manager'' \<and> i_category it = Some (p_category_id p))
      then Inr True else is_allowed db p it table True)"
  using assms by (auto simp: is_allowed_def)

lemma is_allowed_total:
  assumes "usable_rule it" "p_user_id p = Some uid" "user_of db uid = Some u"
  shows "\<exists>b. is_allowed db p it table ign = Inr b"
proof -
  define al where "al = (case i_allowed it of None \<Rightarrow> no_allowed | Some a \<Rightarrow> a)"
  have ok: "usable_axis (al_roles al)" "usable_axis (al_categories al)" "usable_axis (al_groups al)" "usable_axis (al_users al)"
    using assms(1) by (auto simp: al_def usable_rule_def no_allowed_def split: option.splits)
  show ?thesis
    unfolding is_allowed_def al_def [symmetric] Let_def
    using assms(2,3)
    by (auto intro!: or_else_res_total axis_grants_total ok simp: check_secondary_groups_known)
qed

lemma update_axis_usable:
  assumes "usable_axis a" "upd \<noteq> Some (Upd_bool True)"
  shows "usable_axis (update_axis upd a)"
  using assms by (cases "(upd, a)" rule: update_axis.cases) auto

lemma update_keeps_usable:
  assumes "usable_rule it" "\<not> sets_true upd"
  shows "usable_rule (update_table_item_allowed upd it)"
  using assms
  by (auto simp: usable_rule_def update_table_item_allowed_def sets_true_def Let_def no_allowed_def
        intro!: update_axis_usable split: option.splits)

lemma updates_keep_usable:
  assumes "usable_rule it" "list_all (\<lambda>upd. \<not> sets_true upd) upds"
  shows "usable_rule (fold update_table_item_allowed upds it)"
  using assms by (induction upds arbitrary: it) (auto intro: update_keeps_usable)

text \<open>The schema also takes \<open>true\<close> for an axis; the rule then cannot be evaluated for anybody it was meant for.\<close>

lemma true_axis_crashes:
  assumes "au_roles upd = Some (Upd_bool True)" "p_user_id p = Some uid" "uid \<noteq> []" "p_role_id p \<noteq> ''admin''"
    "i_user it \<noteq> Some uid" "p_role_id p = ''manager'' \<Longrightarrow> i_category it \<noteq> Some (p_category_id p)"
  shows "is_allowed db p (update_table_item_allowed upd it) table ign = Inl (Crash ''TypeError'')"
  using assms by (auto simp: is_allowed_def update_table_item_allowed_def Let_def)

lemma listing_crash:
  assumes "it \<in> set its" "i_id it \<notin> set extra" "is_allowed db p it table only = Inl e"
  shows "\<exists>e'. listing db p table extra only its = Inl e'"
  using assms by (induction its) (auto split: sum.splits)

lemma true_axis_fails_listing:
  assumes "au_roles upd = Some (Upd_bool True)" "p_user_id p = Some uid" "uid \<noteq> []" "p_role_id p \<noteq> ''admin''"
    "i_user it \<noteq> Some uid" "p_role_id p = ''manager'' \<Longrightarrow> i_category it \<noteq> Some (p_category_id p)"
    "update_table_item_allowed upd it \<in> set (query_rows excl req rows)" "i_id it \<notin> set extra"
  shows "get_items_allowed db p table rows extra only excl req = Inl Internal_server"
proof -
  have "i_id (update_table_item_allowed upd it) = i_id it"
    by (simp add: update_table_item_allowed_def Let_def)
  then show ?thesis
    using listing_crash [OF assms(7) _ true_axis_crashes [OF assms(1-5)], of extra db table only] assms(6,8)
    by (auto simp: get_items_allowed_def)
qed

section \<open>The database filter and the Python check agree\<close>

definition full_rule :: "allowed \<Rightarrow> bool" where
  "full_rule al = list_all (\<lambda>a. usable_axis a \<and> a \<noteq> Missing) [al_roles al, al_categories al, al_groups al, al_users al]"

lemma full_axis_cases:
  assumes "usable_axis a" "a \<noteq> Missing"
  obtains "a = Off" | xs where "a = Listed xs"
  using assms by (cases a) auto

lemma set_get_all_linked_groups:
  "set (get_all_linked_groups db gs) = set gs \<union> (\<Union>g\<in>set gs. case t_linked_groups db g of None \<Rightarrow> {} | Some ls \<Rightarrow> set ls)"
  by (auto simp: get_all_linked_groups_def split: option.splits)

lemma filter_groups_match:
  assumes "user_of db uid = Some u" "gid \<noteq> []" "[] \<notin> set (case u_secondary u of None \<Rightarrow> [] | Some gs \<Rightarrow> gs)"
  shows "check_secondary_groups db uid gid xs = Inr (list_ex (\<lambda>g. g \<in> set (filter_groups db gid uid)) xs)"
proof -
  define sec where "sec = (case u_secondary u of None \<Rightarrow> [] | Some gs \<Rightarrow> gs)"
  have "filter (\<lambda>g. g \<noteq> []) (gid # sec) = gid # sec"
    using assms(2,3) by (auto simp: sec_def intro!: filter_True)
  then have "filter_groups db gid uid = get_all_linked_groups db (gid # sec)"
    using assms(1) by (simp add: filter_groups_def sec_def)
  then show ?thesis
    using assms(1) by (auto simp: check_secondary_groups_known sec_def list_ex_iff)
qed

lemma reql_or_Some [simp]:
  "reql_or (Some a # cs) = (if a then Some True else reql_or cs)"
  by (cases a) simp_all

text \<open>One axis: what the filter computes is what the check grants.\<close>

lemma reql_axis_agrees:
  assumes "usable_axis a" "a \<noteq> Missing" "\<And>xs. xs \<noteq> [] \<Longrightarrow> f xs = Inr (g xs)" "\<not> g []"
  shows "\<exists>b. reql_axis a (\<lambda>xs. reql_or [reql_and (Some (xs = [])) (Some op), Some (g xs)]) = Some b \<and> axis_grants a op f = Inr b"
  using assms(1,2) by (rule full_axis_cases) (auto simp: reql_and_def assms(3,4) split: bool.splits)

lemma reql_or_open:
  "reql_or [Some a, Some b] = reql_or [reql_and (Some a) (Some True), Some b]"
  by (cases a) (simp_all add: reql_and_def)

lemma reql_or_total:
  "list_all (\<lambda>c. c \<noteq> None) cs \<Longrightarrow> reql_or cs = Some (Some True \<in> set cs)"
  by (induction cs rule: reql_or.induct) auto


lemma shared_conditions_agree:
  assumes "user_of db uid = Some u" "gid \<noteq> []" "[] \<notin> set (case u_secondary u of None \<Rightarrow> [] | Some gs \<Rightarrow> gs)"
    "i_allowed row = Some al" "full_rule al" "i_category row = Some c"
  shows "\<exists>b1 b2 b3 b4. shared_conditions db role cat gid uid row = [Some b1, Some b2, Some b3, Some b4]
     \<and> axis_grants (al_roles al) True (\<lambda>xs. Inr (role \<in> set xs)) = Inr b1
     \<and> axis_grants (al_categories al) True (\<lambda>xs. Inr (cat \<in> set xs)) = Inr b2
     \<and> axis_grants (al_groups al) (c = cat) (\<lambda>xs. check_secondary_groups db uid gid xs) = Inr b3
     \<and> axis_grants (al_users al) (c = cat) (\<lambda>xs. Inr (uid \<in> set xs)) = Inr b4"
proof -
  have full: "usable_axis (al_roles al)" "al_roles al \<noteq> Missing" "usable_axis (al_categories al)" "al_categories al \<noteq> Missing"
    "usable_axis (al_groups al)" "al_groups al \<noteq> Missing" "usable_axis (al_users al)" "al_users al \<noteq> Missing"
    using assms(5) by (simp_all add: full_rule_def)
  note roles = reql_axis_agrees [OF full(1,2), of "\<lambda>xs. Inr (role \<in> set xs)" "\<lambda>xs. role \<in> set xs" True]
  note cats = reql_axis_agrees [OF full(3,4), of "\<lambda>xs. Inr (cat \<in> set xs)" "\<lambda>xs. cat \<in> set xs" True]
  note groups = reql_axis_agrees [OF full(5,6), of "\<lambda>xs. check_secondary_groups db uid gid xs"
      "\<lambda>xs. list_ex (\<lambda>g. g \<in> set (filter_groups db gid uid)) xs" "c = cat"]
  note users = reql_axis_agrees [OF full(7,8), of "\<lambda>xs. Inr (uid \<in> set xs)" "\<lambda>xs. uid \<in> set xs" "c = cat"]
  show ?thesis
    using roles cats groups users
    by (auto simp: shared_conditions_def reql_field_def category_is_def assms(4,6) reql_or_open filter_groups_match [OF assms(1-3)]
        simp del: reql_or_Some)
qed


text \<open>Example rows used by the applications of the theorems below.\<close>

definition example_users :: tables where
  "example_users =
     \<lparr>t_users = [\<lparr>u_id = ''ana'', u_role = ''user'', u_category = ''school'', u_group = ''g1'', u_secondary = Some [''g2'']\<rparr>,
                 \<lparr>u_id = ''boss'', u_role = ''manager'', u_category = ''office'', u_group = ''staff'', u_secondary = None\<rparr>],
      t_linked_groups = (\<lambda>g. if g = ''g2'' then Some [''g3''] else None),
      t_parent_category = (\<lambda>g. Some ''school''),
      t_domains = (\<lambda>d. if d = ''tpl'' then Some \<lparr>d_user = ''boss'', d_category = ''office'', d_kind = ''desktop'', d_tag = Null_tag,
                                               d_allowed = None\<rparr> else None),
      t_deployments = (\<lambda>d. if d = ''dep'' then Some \<lparr>y_user = ''boss'', y_co_owners = Some [], y_allowed = None, y_category = None,
                                                   y_user_permissions = None\<rparr> else None),
      t_media = (\<lambda>m. if m = ''iso'' then Some (''boss'', ''office'') else None),
      t_booking_user = (\<lambda>b. if b = ''bk'' then Some ''boss'' else None),
      t_recycle_owner = (\<lambda>b. if b = ''rb'' then Some ''boss'' else None),
      t_recycle_category = (\<lambda>b. if b = ''rb'' then Some ''office'' else None)\<rparr>"

definition example_payload :: payload where
  "example_payload = \<lparr>p_user_id = Some ''ana'', p_role_id = ''user'', p_category_id = ''school'', p_group_id = ''g1''\<rparr>"

definition example_item :: item where
  "example_item = \<lparr>i_id = ''t1'', i_user = Some ''boss'', i_category = Some ''office'', i_enabled = Some True,
     i_allowed = Some \<lparr>al_roles = Off, al_categories = Off, al_groups = Listed [''g3''], al_users = Off\<rparr>\<rparr>"

lemmas access_examples =
  example_users_def example_payload_def example_item_def user_of_def

text \<open>C7: for rows that carry a complete sharing rule, the database filter that serves the shared listings keeps
  a row exactly when the Python check allows it: with the caller's own rows and role it is the check
  with the role, without either it is the check on the sharing rule alone. Secondary and linked
  groups count in both.\<close>

theorem shared_filter_agrees:
  assumes "p_user_id p = Some uid" "uid \<noteq> []" "user_of db uid = Some u"
    "p_group_id p \<noteq> []" "[] \<notin> set (case u_secondary u of None \<Rightarrow> [] | Some gs \<Rightarrow> gs)"
    "i_allowed row = Some al" "full_rule al" "i_category row = Some c" "i_user row = Some owner"
    "table = ''domains'' \<or> table = ''media''"
  shows "(filter_keeps (build_shared_items_filter db (p_role_id p) (p_category_id p) (p_group_id p) uid True True row)
            \<longleftrightarrow> is_allowed db p row table False = Inr True)
       \<and> (filter_keeps (build_shared_items_filter db (p_role_id p) (p_category_id p) (p_group_id p) uid False False row)
            \<longleftrightarrow> is_allowed db p row table True = Inr True)"
proof -
  obtain b1 b2 b3 b4 where
    conds: "shared_conditions db (p_role_id p) (p_category_id p) (p_group_id p) uid row = [Some b1, Some b2, Some b3, Some b4]" and
    axes: "axis_grants (al_roles al) True (\<lambda>xs. Inr (p_role_id p \<in> set xs)) = Inr b1"
      "axis_grants (al_categories al) True (\<lambda>xs. Inr (p_category_id p \<in> set xs)) = Inr b2"
      "axis_grants (al_groups al) (c = p_category_id p) (\<lambda>xs. check_secondary_groups db uid (p_group_id p) xs) = Inr b3"
      "axis_grants (al_users al) (c = p_category_id p) (\<lambda>xs. Inr (uid \<in> set xs)) = Inr b4"
    using shared_conditions_agree [OF assms(3-8), of "p_role_id p" "p_category_id p"] by blast
  have rule: "is_allowed db p row table True = Inr (b1 \<or> b2 \<or> b3 \<or> b4)"
    using assms(10) axes(3,4)
    by (cases "c = p_category_id p") (auto simp: is_allowed_def assms(1,2,6,8) axes(1,2))
  show ?thesis
    by (auto simp: build_shared_items_filter_def conds filter_keeps_def is_allowed_role rule assms(1,2,8,9) category_is_def)
qed

theorem shared_filter_agrees_witness:
  "filter_keeps (build_shared_items_filter example_users ''user'' ''school'' ''g1'' ''ana'' False False example_item)
     = (is_allowed example_users example_payload example_item ''domains'' True = Inr True)
   \<and> is_allowed example_users example_payload example_item ''domains'' True = Inr True"
  using shared_filter_agrees [of example_payload "''ana''" example_users _ example_item _ "''office''" "''boss''" "''domains''"]
  by (simp add: access_examples full_rule_def is_allowed_def check_secondary_groups_def get_all_linked_groups_def)

text \<open>C13: sharing rules are type sound. As long as no update sets an axis to \<open>true\<close>, a rule that could be
  evaluated stays so through any sequence of partial updates, and the check then returns an answer for
  every known user instead of raising.\<close>

theorem sharing_rule_type_sound:
  assumes "usable_rule it" "list_all (\<lambda>upd. \<not> sets_true upd) upds" "p_user_id p = Some uid" "user_of db uid = Some u"
  shows "usable_rule (fold update_table_item_allowed upds it)
       \<and> (\<exists>b. is_allowed db p (fold update_table_item_allowed upds it) table ign = Inr b)"
  using updates_keep_usable [OF assms(1,2)] is_allowed_total [OF _ assms(3,4)] by blast

theorem sharing_rule_type_sound_witness:
  "\<exists>b. is_allowed example_users example_payload
         (fold update_table_item_allowed
            [\<lparr>au_roles = None, au_categories = Some (Upd_bool False), au_groups = Some (Upd_list [''g2'']), au_users = None\<rparr>]
            example_item) ''domains'' False = Inr b"
  using sharing_rule_type_sound [of example_item
      "[\<lparr>au_roles = None, au_categories = Some (Upd_bool False), au_groups = Some (Upd_list [''g2'']), au_users = None\<rparr>]"
      example_payload "''ana''" example_users]
  by (simp add: access_examples usable_rule_def sets_true_def)

section \<open>Listings\<close>

definition visible_in_listing :: "tables \<Rightarrow> payload \<Rightarrow> string \<Rightarrow> string list \<Rightarrow> bool \<Rightarrow> item \<Rightarrow> bool" where
  "visible_in_listing db p table extra only it \<longleftrightarrow> i_id it \<in> set extra \<or> is_allowed db p it table only = Inr True"

lemma listing_exact:
  assumes "listing db p table extra only its = Inr items"
  shows "map fst items = filter (visible_in_listing db p table extra only) its
       \<and> (\<forall>(it, ed)\<in>set items. editable p it = Inr ed)"
  using assms
proof (induction its arbitrary: items)
  case Nil
  then show ?case by simp
next
  case (Cons it its)
  from Cons.prems obtain ed ok rest where
    parts: "editable p it = Inr ed" "(if i_id it \<in> set extra then Inr True else is_allowed db p it table only) = Inr ok"
      "listing db p table extra only its = Inr rest" "items = (if ok then (it, ed) # rest else rest)"
    by (auto split: sum.splits)
  have "ok = visible_in_listing db p table extra only it"
    using parts(2) by (auto simp: visible_in_listing_def split: if_splits)
  then show ?case
    using Cons.IH [OF parts(3)] parts(1,4) by simp
qed

lemma editable_allowed:
  assumes "editable p it = Inr True" "truthy_str (p_user_id p)"
  shows "is_allowed db p it table False = Inr True"
  using assms by (auto simp: editable_def is_allowed_def with_user_def split: if_splits option.splits)

text \<open>A listing that returns is exactly the rows of the query the caller may see, in the query's order, each with
  its true right to edit; and unless only the sharing rule is asked for, no row the caller may edit
  is missing from it.\<close>

theorem listing_is_exact:
  assumes "get_items_allowed db p table rows extra only excl req = Inr items" "truthy_str (p_user_id p)"
  shows "map fst items = filter (visible_in_listing db p table extra only) (query_rows excl req rows)
       \<and> (\<forall>(it, ed)\<in>set items. editable p it = Inr ed)
       \<and> (\<not> only \<longrightarrow> (\<forall>it\<in>set (query_rows excl req rows). editable p it = Inr True \<longrightarrow> (it, True) \<in> set items))"
proof -
  have ex: "map fst items = filter (visible_in_listing db p table extra only) (query_rows excl req rows)"
      "\<forall>(it, ed)\<in>set items. editable p it = Inr ed"
    using assms(1) listing_exact [of db p table extra only "query_rows excl req rows" items]
    by (auto simp: get_items_allowed_def split: sum.splits)
  have "(it, True) \<in> set items" if "\<not> only" "it \<in> set (query_rows excl req rows)" "editable p it = Inr True" for it
  proof -
    have "it \<in> fst ` set items"
      using that editable_allowed [OF that(3) assms(2)]
      by (simp add: ex(1) visible_in_listing_def flip: set_map)
    then show ?thesis using ex(2) that(3) by fastforce
  qed
  with ex show ?thesis by blast
qed

theorem listing_is_exact_witness:
  "map fst [(example_item, False)] =
     filter (visible_in_listing example_users example_payload ''domains'' [] False) (query_rows None True [example_item])"
proof -
  have run: "get_items_allowed example_users example_payload ''domains'' [example_item] [] False None True = Inr [(example_item, False)]"
    by code_simp
  have user: "truthy_str (p_user_id example_payload)"
    by code_simp
  show ?thesis
    by (rule listing_is_exact [OF run user, THEN conjunct1])
qed

section \<open>Tenant isolation\<close>

definition foreign :: "payload \<Rightarrow> string \<Rightarrow> string \<Rightarrow> bool" where
  "foreign p owner category \<longleftrightarrow> p_role_id p \<noteq> ''admin'' \<and> p_user_id p \<noteq> Some owner \<and> p_category_id p \<noteq> category"

definition refused :: "'a access \<Rightarrow> bool" where
  "refused r = (case r of Inl _ \<Rightarrow> True | Inr _ \<Rightarrow> False)"

lemma refused_simps [simp]:
  "refused (Inl e)" "\<not> refused (Inr x)"
  by (simp_all add: refused_def)

lemma refused_forbid [simp]:
  "refused (forbid_errors r) = refused r"
  by (cases r rule: forbid_errors.cases) auto

definition co_owner :: "tables \<Rightarrow> payload \<Rightarrow> string \<Rightarrow> bool" where
  "co_owner db p did =
     (case (t_deployments db did, p_user_id p) of
        (Some dep, Some u) \<Rightarrow> (case y_co_owners dep of None \<Rightarrow> False | Some us \<Rightarrow> u \<in> set us)
      | _ \<Rightarrow> False)"

text \<open>
  Media, bookings and recycle bin entries promise one policy: an admin, the owner, and a manager of the
  category pass, everybody else is forbidden. The clients of the policy need nothing else of a check.
\<close>

definition policy_admits :: "payload \<Rightarrow> string \<Rightarrow> string \<Rightarrow> bool" where
  "policy_admits p owner category \<longleftrightarrow> p_role_id p = ''admin'' \<or> p_user_id p = Some owner
     \<or> (p_role_id p = ''manager'' \<and> p_user_id p \<noteq> None \<and> p_category_id p = category)"

locale ownership_check =
  fixes owned :: "tables \<Rightarrow> string \<Rightarrow> (string \<times> string) option"
    and check :: "tables \<Rightarrow> payload \<Rightarrow> string \<Rightarrow> string access"
  assumes check_policy:
    "owned db x = Some (owner, category) \<Longrightarrow> p_user_id p = Some u
       \<Longrightarrow> check db p x = (if policy_admits p owner category then Inr x else Inl Forbidden)"
    and check_admin: "p_role_id p = ''admin'' \<Longrightarrow> check db p x = Inr x"
    and check_anonymous: "p_role_id p \<noteq> ''admin'' \<Longrightarrow> p_user_id p = None \<Longrightarrow> refused (check db p x)"
begin

lemma foreign_refused:
  assumes "owned db x = Some (owner, category)" "foreign p owner category"
  shows "refused (check db p x)"
proof (cases "p_user_id p")
  case None
  then show ?thesis using assms(2) check_anonymous by (simp add: foreign_def)
next
  case (Some u)
  then show ?thesis using assms by (auto simp: check_policy foreign_def policy_admits_def)
qed

lemma admits_iff:
  assumes "owned db x = Some (owner, category)"
  shows "\<not> refused (check db p x) \<longleftrightarrow> policy_admits p owner category"
proof (cases "p_user_id p")
  case None
  then show ?thesis
    using check_admin check_anonymous [of p db x] foreign_refused [OF assms, of p]
    by (cases "p_role_id p = ''admin''") (auto simp: policy_admits_def foreign_def refused_def)
next
  case (Some u)
  then show ?thesis using assms by (simp add: check_policy)
qed

end

definition booking_owned :: "tables \<Rightarrow> string \<Rightarrow> (string \<times> string) option" where
  "booking_owned db b = (case t_booking_user db b of None \<Rightarrow> None
     | Some owner \<Rightarrow> map_option (\<lambda>u. (owner, u_category u)) (user_of db owner))"

definition recycle_bin_owned :: "tables \<Rightarrow> string \<Rightarrow> (string \<times> string) option" where
  "recycle_bin_owned db b = (case (t_recycle_owner db b, t_recycle_category db b) of
     (Some owner, Some c) \<Rightarrow> Some (owner, c) | _ \<Rightarrow> None)"

interpretation media_check: ownership_check t_media owns_media_id
  by unfold_locales (auto simp: owns_media_id_def policy_admits_def with_user_def split: option.splits)

interpretation booking_check: ownership_check booking_owned owns_booking_id
  by unfold_locales (auto simp: owns_booking_id_def booking_owned_def policy_admits_def with_user_def split: option.splits)

interpretation recycle_bin_check: ownership_check recycle_bin_owned owns_recycle_bin_id
  by unfold_locales (auto simp: owns_recycle_bin_id_def recycle_bin_owned_def policy_admits_def with_user_def split: option.splits)

lemma foreign_deployment_refused:
  assumes "t_deployments db d = Some dep" "user_of db (y_user dep) = Some ou" "foreign p (y_user dep) (u_category ou)"
    "\<not> (co \<and> co_owner db p d)"
  shows "refused (owns_deployment_id db p d co)"
  using assms
  by (auto simp: owns_deployment_id_def foreign_def with_user_def co_owns_def co_owner_def split: option.splits bool.splits)

lemma foreign_desktop_refused:
  assumes "t_domains db d = Some dr" "foreign p (d_user dr) (d_category dr)" "d_kind dr \<noteq> ''template''"
    "\<And>t. d_tag dr = Tag t \<Longrightarrow> p_role_id p = ''advanced'' \<Longrightarrow> refused (owns_deployment_id db p t True)"
  shows "refused (owns_domain_id db p d)"
  using assms
  by (auto simp: owns_domain_id_def foreign_def with_user_def split: option.splits tag.splits list.splits)

lemma foreign_template_refused:
  assumes "t_domains db d = Some dr" "foreign p (d_user dr) (d_category dr)"
    "is_allowed db p (template_item d dr) ''domains'' False \<noteq> Inr True"
    "\<And>t. d_tag dr = Tag t \<Longrightarrow> p_role_id p = ''advanced'' \<Longrightarrow> refused (owns_deployment_id db p t True)"
  shows "refused (owns_domain_id db p d)"
  using assms
  by (auto simp: owns_domain_id_def foreign_def with_user_def split: option.splits tag.splits list.splits sum.splits)

lemma foreign_category_refused:
  assumes "p_role_id p \<noteq> ''admin''" "cat \<noteq> p_category_id p"
  shows "refused (owns_category_id p cat)"
  using assms by (simp add: owns_category_id_def)

text \<open>C8: tenant isolation. A caller passes for a medium, a booking or a recycle bin entry exactly when it is an admin,
  the owner, or a manager of the category. A caller that is not an admin, against an object of another
  user and another category, is also refused its groups; a deployment unless the caller is a co-owner;
  a desktop or template unless its deployment lets an advanced caller in or the template's
  sharing rule does.\<close>

theorem cross_tenant_refused:
  "(\<forall>m owner cat. t_media db m = Some (owner, cat) \<longrightarrow> (\<not> refused (owns_media_id db p m) \<longleftrightarrow> policy_admits p owner cat))
   \<and> (\<forall>b owner cat. booking_owned db b = Some (owner, cat) \<longrightarrow> (\<not> refused (owns_booking_id db p b) \<longleftrightarrow> policy_admits p owner cat))
   \<and> (\<forall>b owner cat. recycle_bin_owned db b = Some (owner, cat)
        \<longrightarrow> (\<not> refused (owns_recycle_bin_id db p b) \<longleftrightarrow> policy_admits p owner cat))
   \<and> (\<forall>g cat. t_parent_category db g = Some cat \<and> p_role_id p \<noteq> ''admin'' \<and> cat \<noteq> p_category_id p \<longrightarrow> refused (owns_group_id db p g))
   \<and> (\<forall>d dep ou co. t_deployments db d = Some dep \<and> user_of db (y_user dep) = Some ou \<and> foreign p (y_user dep) (u_category ou)
        \<and> \<not> (co \<and> co_owner db p d) \<longrightarrow> refused (owns_deployment_id db p d co))
   \<and> (\<forall>d dr. t_domains db d = Some dr \<and> foreign p (d_user dr) (d_category dr)
        \<and> (d_kind dr \<noteq> ''template'' \<or> is_allowed db p (template_item d dr) ''domains'' False \<noteq> Inr True)
        \<and> (\<forall>t. d_tag dr = Tag t \<and> p_role_id p = ''advanced'' \<longrightarrow> refused (owns_deployment_id db p t True))
        \<longrightarrow> refused (owns_domain_id db p d))"
  (is "?media \<and> ?bookings \<and> ?bins \<and> ?groups \<and> ?deployments \<and> ?domains")
proof (intro conjI)
  show ?media ?bookings ?bins
    using media_check.admits_iff booking_check.admits_iff recycle_bin_check.admits_iff by blast+
  show ?groups
    by (auto intro: foreign_category_refused simp: owns_group_id_def)
  show ?deployments
    by (auto intro: foreign_deployment_refused)
  show ?domains
  proof (intro allI impI; elim conjE)
  fix d dr
  assume d: "t_domains db d = Some dr" "foreign p (d_user dr) (d_category dr)"
    "\<forall>t. d_tag dr = Tag t \<and> p_role_id p = ''advanced'' \<longrightarrow> refused (owns_deployment_id db p t True)"
  assume "d_kind dr \<noteq> ''template'' \<or> is_allowed db p (template_item d dr) ''domains'' False \<noteq> Inr True"
  with d show "refused (owns_domain_id db p d)"
    by (elim disjE) (blast intro: foreign_desktop_refused foreign_template_refused)+
  qed
qed

theorem cross_tenant_refused_witness:
  "refused (owns_media_id example_users example_payload ''iso'') \<and> refused (owns_booking_id example_users example_payload ''bk'')
   \<and> refused (owns_recycle_bin_id example_users example_payload ''rb'')
   \<and> refused (owns_deployment_id example_users example_payload ''dep'' True)
   \<and> refused (owns_domain_id example_users example_payload ''tpl'')"
proof -
  note rules = cross_tenant_refused [of example_users example_payload]
  have far: "foreign example_payload ''boss'' ''office''" "\<not> policy_admits example_payload ''boss'' ''office''"
      "\<not> co_owner example_users example_payload ''dep''"
    by (simp_all add: access_examples foreign_def policy_admits_def co_owner_def)
  have rows: "t_media example_users ''iso'' = Some (''boss'', ''office'')" "booking_owned example_users ''bk'' = Some (''boss'', ''office'')"
    "recycle_bin_owned example_users ''rb'' = Some (''boss'', ''office'')"
    by (simp_all add: access_examples booking_owned_def recycle_bin_owned_def)
  obtain ou where boss: "user_of example_users ''boss'' = Some ou" "u_category ou = ''office''"
    by (simp add: access_examples)
  obtain dep where dep: "t_deployments example_users ''dep'' = Some dep" "y_user dep = ''boss''"
    by (simp add: example_users_def)
  obtain dr where dr: "t_domains example_users ''tpl'' = Some dr" "d_user dr = ''boss''" "d_category dr = ''office''"
      "d_kind dr \<noteq> ''template''" "d_tag dr = Null_tag"
    by (simp add: example_users_def)
  have "refused (owns_domain_id example_users example_payload ''tpl'')"
    using rules far(1) dr by (metis tag.distinct(9))
  moreover have "refused (owns_deployment_id example_users example_payload ''dep'' True)"
    using rules far dep boss by metis
  ultimately show ?thesis
    using rules far(2) rows by metis
qed

section \<open>The bastion\<close>

definition payload_of :: "user_row \<Rightarrow> payload" where
  "payload_of u = \<lparr>p_user_id = Some (u_id u), p_role_id = u_role u, p_category_id = u_category u, p_group_id = u_group u\<rparr>"

lemma axis_users_member:
  assumes "axis_users db key a = Inr us" "x \<in> set us"
  obtains xs u where "a = Listed xs" "u \<in> set (t_users db)" "x = u_id u" "xs = [] \<or> key u \<in> set xs"
  using assms by (cases a) (auto split: if_splits)

lemma axis_users_usable:
  assumes "axis_users db key a = Inr us"
  shows "usable_axis a"
  using assms by (cases a) auto

lemma get_users_allowed_parts:
  assumes "get_users_allowed db al = Inr us"
  obtains a b c d where "axis_users db u_role (al_roles al) = Inr a" "axis_users db u_category (al_categories al) = Inr b"
    "axis_users db u_group (al_groups al) = Inr c" "axis_users db u_id (al_users al) = Inr d" "us = a @ b @ c @ d"
  using assms by (auto simp: get_users_allowed_def split: sum.splits)

lemma distinct_user_of:
  assumes "distinct (map u_id (t_users db))" "u \<in> set (t_users db)"
  shows "user_of db (u_id u) = Some u"
proof -
  have "List.find (\<lambda>v. u_id v = u_id u) us = Some u" if "distinct (map u_id us)" "u \<in> set us" for us
    using that by (induction us) force+
  then show ?thesis using assms by (simp add: user_of_def)
qed

lemma own_group_matches:
  assumes "user_of db uid = Some u" "gid \<in> set xs"
  shows "check_secondary_groups db uid gid xs = Inr True"
  using assms by (auto simp: check_secondary_groups_known list_ex_iff set_get_all_linked_groups)

text \<open>A usable rule of the configuration grants when one of its axes does.\<close>

lemma config_rule_value:
  assumes "list_all usable_axis [al_roles al, al_categories al, al_groups al, al_users al]"
    "p_user_id p = Some uid" "uid \<noteq> []" "user_of db uid = Some u"
  shows "\<exists>b1 b2 b3 b4. axis_grants (al_roles al) True (\<lambda>xs. Inr (p_role_id p \<in> set xs)) = Inr b1
     \<and> axis_grants (al_categories al) True (\<lambda>xs. Inr (p_category_id p \<in> set xs)) = Inr b2
     \<and> axis_grants (al_groups al) True (\<lambda>xs. check_secondary_groups db uid (p_group_id p) xs) = Inr b3
     \<and> axis_grants (al_users al) True (\<lambda>xs. Inr (uid \<in> set xs)) = Inr b4
     \<and> is_allowed db p (config_item (Some al)) ''config'' True = Inr (b1 \<or> b2 \<or> b3 \<or> b4)"
proof -
  obtain b1 where b1: "axis_grants (al_roles al) True (\<lambda>xs. Inr (p_role_id p \<in> set xs)) = Inr b1"
    using axis_grants_total [of "al_roles al"] assms(1) by fastforce
  obtain b2 where b2: "axis_grants (al_categories al) True (\<lambda>xs. Inr (p_category_id p \<in> set xs)) = Inr b2"
    using axis_grants_total [of "al_categories al"] assms(1) by fastforce
  obtain b3 where b3: "axis_grants (al_groups al) True (\<lambda>xs. check_secondary_groups db uid (p_group_id p) xs) = Inr b3"
    using axis_grants_total [of "al_groups al"] assms(1) check_secondary_groups_known [OF assms(4)] by fastforce
  obtain b4 where b4: "axis_grants (al_users al) True (\<lambda>xs. Inr (uid \<in> set xs)) = Inr b4"
    using axis_grants_total [of "al_users al"] assms(1) by fastforce
  show ?thesis
    using b1 b2 b3 b4 by (auto simp: is_allowed_def config_item_def assms(2,3))
qed

lemma reached_user_allowed:
  assumes "get_users_allowed db al = Inr us" "u_id u \<in> set us" "u \<in> set (t_users db)" "u_id u \<noteq> []"
    "distinct (map u_id (t_users db))"
  shows "is_allowed db (payload_of u) (config_item (Some al)) ''config'' True = Inr True"
proof -
  obtain a b c d where axes: "axis_users db u_role (al_roles al) = Inr a" "axis_users db u_category (al_categories al) = Inr b"
    "axis_users db u_group (al_groups al) = Inr c" "axis_users db u_id (al_users al) = Inr d" "us = a @ b @ c @ d"
    using assms(1) by (rule get_users_allowed_parts)
  have same: "v = u" if "v \<in> set (t_users db)" "u_id u = u_id v" for v
    using that assms(3,5) by (auto simp: distinct_map inj_on_def)
  have known: "user_of db (u_id u) = Some u"
    using distinct_user_of assms(3,5) by blast
  have usable: "list_all usable_axis [al_roles al, al_categories al, al_groups al, al_users al]"
    using axes by (auto dest: axis_users_usable)
  obtain b1 b2 b3 b4 where vals:
    "axis_grants (al_roles al) True (\<lambda>xs. Inr (u_role u \<in> set xs)) = Inr b1"
    "axis_grants (al_categories al) True (\<lambda>xs. Inr (u_category u \<in> set xs)) = Inr b2"
    "axis_grants (al_groups al) True (\<lambda>xs. check_secondary_groups db (u_id u) (u_group u) xs) = Inr b3"
    "axis_grants (al_users al) True (\<lambda>xs. Inr (u_id u \<in> set xs)) = Inr b4"
    "is_allowed db (payload_of u) (config_item (Some al)) ''config'' True = Inr (b1 \<or> b2 \<or> b3 \<or> b4)"
    using config_rule_value [OF usable, of "payload_of u" "u_id u" db u] assms(4) known by (auto simp: payload_of_def)
  consider "u_id u \<in> set a" | "u_id u \<in> set b" | "u_id u \<in> set c" | "u_id u \<in> set d"
    using assms(2) axes(5) by auto
  then have "b1 \<or> b2 \<or> b3 \<or> b4"
  proof cases
    case 1
    then show ?thesis using axis_users_member [OF axes(1)] same vals(1) by (metis Inr_inject axis_grants.simps(5))
  next
    case 2
    then show ?thesis using axis_users_member [OF axes(2)] same vals(2) by (metis Inr_inject axis_grants.simps(5))
  next
    case 3
    then show ?thesis using axis_users_member [OF axes(3)] same vals(3) own_group_matches [OF known]
      by (metis Inr_inject axis_grants.simps(5))
  next
    case 4
    then show ?thesis using axis_users_member [OF axes(4)] same vals(4) by (metis Inr_inject axis_grants.simps(5))
  qed
  then show ?thesis using vals(5) by simp
qed

text \<open>After the clean-up of bastion targets the targets left are exactly the ones not returned as deleted, and the
  owner of every one of them may use the bastion.\<close>

theorem kept_targets_may_connect:
  assumes "remove_disallowed_bastion_targets db al targets = Inr (gone, kept)" "t \<in> set kept"
    "u \<in> set (t_users db)" "u_id u = g_user_id t" "u_id u \<noteq> []" "distinct (map u_id (t_users db))"
    "b_enabled cfg" "b_allowed cfg = Some al"
  shows "t \<in> set targets \<and> g_id t \<notin> set gone \<and> can_use_bastion db True cfg (payload_of u) = Inr True"
proof -
  obtain us where us: "get_users_allowed db al = Inr us" "gone = disallowed_targets us targets"
      "kept = filter (\<lambda>t. g_id t \<notin> set gone) targets"
    using assms(1) by (auto simp: remove_disallowed_bastion_targets_def Let_def split: sum.splits)
  have "u_id u \<in> set us"
    using assms(2,4) us by (auto simp: disallowed_targets_def)
  then show ?thesis
    using reached_user_allowed [OF us(1)] assms us(3) by (simp add: can_use_bastion_def)
qed

theorem kept_targets_may_connect_witness:
  "can_use_bastion example_users True
     \<lparr>b_enabled = True, b_allowed = Some \<lparr>al_roles = Listed [''manager''], al_categories = Off, al_groups = Off, al_users = Missing\<rparr>,
      b_individual_domains = None\<rparr>
     (payload_of \<lparr>u_id = ''boss'', u_role = ''manager'', u_category = ''office'', u_group = ''staff'', u_secondary = None\<rparr>) = Inr True"
  by (rule kept_targets_may_connect [THEN conjunct2, THEN conjunct2,
        of _ "\<lparr>al_roles = Listed [''manager''], al_categories = Off, al_groups = Off, al_users = Missing\<rparr>"
           "[\<lparr>g_id = ''t1'', g_user_id = ''ana'', g_domains = []\<rparr>, \<lparr>g_id = ''t2'', g_user_id = ''boss'', g_domains = []\<rparr>]"
           "[''t1'']" "[\<lparr>g_id = ''t2'', g_user_id = ''boss'', g_domains = []\<rparr>]"
           "\<lparr>g_id = ''t2'', g_user_id = ''boss'', g_domains = []\<rparr>"])
    (simp_all add: access_examples remove_disallowed_bastion_targets_def get_users_allowed_def disallowed_targets_def)

text \<open>The converse fails: the clean-up looks at primary groups only, so the target of a user who may use the bastion
  through a secondary group is deleted.\<close>

lemma secondary_member_loses_target:
  "let al = \<lparr>al_roles = Off, al_categories = Off, al_groups = Listed [''g2''], al_users = Off\<rparr>;
       cfg = \<lparr>b_enabled = True, b_allowed = Some al, b_individual_domains = None\<rparr>;
       t = \<lparr>g_id = ''t1'', g_user_id = ''ana'', g_domains = []\<rparr>
   in can_use_bastion example_users True cfg example_payload = Inr True
      \<and> remove_disallowed_bastion_targets example_users al [t] = Inr ([''t1''], [])"
  by code_simp

end
