(* ===== verification/Token_Gate.thy ===== *)
theory Token_Gate
  imports Access_Control
begin

text \<open>
  The door of the API: how a bearer token becomes the payload of a request (\<open>helpers/token.py\<close>), how the
  session behind it is checked (\<open>connections/api_sessions.py\<close>, \<open>is_current_api_key\<close>), the maintenance switch, and
  the route dependencies of \<open>apiv4/dependencies/jwt_token.py\<close>. The JWT library is a pair of functions: what
  an unverified decode of a token shows, and what a decode under a secret returns. The sessions
  service answers a session id and a client address.
\<close>

section \<open>Tokens\<close>

record token_data =
  td_type :: "string option"
  td_user_id :: "string option"
  td_role_id :: "string option"
  td_category_id :: "string option"
  td_group_id :: "string option"
  td_desktop_id :: "string option"

text \<open>Claims: \<open>cl_data\<close> is \<open>None\<close> when the claim is absent or empty; \<open>cl_top\<close> are the same fields at the top level.\<close>

record claims =
  cl_kid :: "string option"
  cl_session_id :: "string option"
  cl_data :: "token_data option"
  cl_top :: token_data

datatype rpc_status = Rpc_ok | Rpc_not_found | Rpc_unauthenticated | Rpc_other

record env =
  e_unverified :: "string \<Rightarrow> claims option"
  e_verified :: "string option \<Rightarrow> string \<Rightarrow> claims option"
  e_api_secret :: "string option"
  e_hypervisors_secret :: "string option"
  e_api_key :: "string \<Rightarrow> string option"
  e_session :: "string \<Rightarrow> string \<Rightarrow> rpc_status"
  e_maintenance :: bool
  e_category_maintenance :: "string \<Rightarrow> bool access"
  e_manager_plannings :: "string \<Rightarrow> bool"

definition get_jwt_payload :: "env \<Rightarrow> string \<Rightarrow> claims access" where
  "get_jwt_payload e token =
     (case e_unverified e token of
        None \<Rightarrow> Inl Unauthorized
      | Some c \<Rightarrow>
          (let decode = (\<lambda>secret. case e_verified e secret token of None \<Rightarrow> Inl Unauthorized | Some c' \<Rightarrow> Inr c')
           in if cl_kid c = Some ''isardvdi'' then decode (e_api_secret e)
              else if cl_kid c = Some ''isardvdi-viewer''
              then (if (case cl_data c of None \<Rightarrow> False | Some d \<Rightarrow> truthy_str (td_desktop_id d))
                    then decode (e_api_secret e) else Inl Unauthorized)
              else if cl_kid c = Some ''isardvdi-hypervisors'' then decode (e_hypervisors_secret e)
              else Inl Unauthorized))"

definition payload_data :: "claims \<Rightarrow> token_data" where
  "payload_data c = (case cl_data c of None \<Rightarrow> cl_top c | Some d \<Rightarrow> d)"

definition get_token_payload :: "env \<Rightarrow> string \<Rightarrow> token_data access" where
  "get_token_payload e token =
     (case get_jwt_payload e token of Inl err \<Rightarrow> Inl err | Inr c \<Rightarrow> Inr (payload_data c))"

text \<open>The data of a token whose time has passed, for the answer to the client: \<open>e_verified\<close> is here the
  decode that ignores the expiry.\<close>

definition get_expired_user_data :: "env \<Rightarrow> (string option \<Rightarrow> string \<Rightarrow> claims option) \<Rightarrow> string \<Rightarrow> token_data option" where
  "get_expired_user_data e verified_expired token =
     (case e_unverified e token of
        None \<Rightarrow> None
      | Some c \<Rightarrow>
          if cl_kid c \<noteq> Some ''isardvdi'' \<and> cl_kid c \<noteq> Some ''isardvdi-viewer'' then None
          else if \<not> truthy_str (e_api_secret e) then None
          else (case verified_expired (e_api_secret e) token of
                  None \<Rightarrow> None
                | Some c' \<Rightarrow>
                    if cl_kid c' = Some ''isardvdi'' then cl_data c'
                    else if cl_kid c' = Some ''isardvdi-viewer''
                         \<and> (case cl_data c' of None \<Rightarrow> False | Some d \<Rightarrow> truthy_str (td_desktop_id d))
                    then cl_data c'
                    else None))"

section \<open>Sessions and maintenance\<close>

definition is_current_api_key :: "env \<Rightarrow> string option \<Rightarrow> string \<Rightarrow> bool" where
  "is_current_api_key e user_id api_key =
     (if \<not> truthy_str user_id \<or> api_key = [] then False
      else (case e_api_key e (the user_id) of
              None \<Rightarrow> False | Some stored \<Rightarrow> stored \<noteq> [] \<and> stored = api_key))"

definition sessions_get :: "env \<Rightarrow> string \<Rightarrow> string \<Rightarrow> unit access" where
  "sessions_get e session_id remote_addr =
     (if session_id = [] then Inl Unauthorized
      else (case e_session e session_id remote_addr of
              Rpc_ok \<Rightarrow> Inr ()
            | Rpc_not_found \<Rightarrow> Inl Unauthorized
            | Rpc_unauthenticated \<Rightarrow> Inl Unauthorized
            | Rpc_other \<Rightarrow> Inl Internal_server))"

definition session_id_of :: "claims \<Rightarrow> string" where
  "session_id_of c = (case cl_session_id c of None \<Rightarrow> [] | Some s \<Rightarrow> s)"

definition check_session :: "env \<Rightarrow> claims \<Rightarrow> string \<Rightarrow> string \<Rightarrow> unit access" where
  "check_session e c token remote_addr =
     (if session_id_of c = ''isardvdi-service'' then Inr ()
      else if session_id_of c = ''api-key''
      then (if is_current_api_key e (case cl_data c of None \<Rightarrow> None | Some d \<Rightarrow> td_user_id d) token
            then Inr () else Inl Unauthorized)
      else sessions_get e (session_id_of c) remote_addr)"

definition maintenance :: "env \<Rightarrow> token_data \<Rightarrow> unit access" where
  "maintenance e d =
     (if td_role_id d = Some ''admin'' then Inr ()
      else if e_maintenance e then Inl Maintenance_mode
      else if truthy_str (td_category_id d)
      then (case e_category_maintenance e (the (td_category_id d)) of
              Inl err \<Rightarrow> Inl err | Inr on \<Rightarrow> if on then Inl Maintenance_mode else Inr ())
      else Inr ())"

section \<open>Route dependencies\<close>

definition type_of_token :: "token_data \<Rightarrow> string" where
  "type_of_token d = (case td_type d of None \<Rightarrow> [] | Some t \<Rightarrow> t)"

definition has_token :: "env \<Rightarrow> string \<Rightarrow> string \<Rightarrow> token_data access" where
  "has_token e remote_addr token =
     (case get_token_payload e token of
        Inl err \<Rightarrow> Inl err
      | Inr d \<Rightarrow>
          if type_of_token d \<notin> {''login'', []} then Inl Forbidden
          else (case get_jwt_payload e token of
                  Inl err \<Rightarrow> Inl err
                | Inr c \<Rightarrow>
                    (case (if session_id_of c = ''isardvdi-service''
                           then Inr (if cl_kid c = Some ''isardvdi-hypervisors''
                                     then d\<lparr>td_role_id := Some ''admin'', td_category_id := Some ''*''\<rparr> else d)
                           else (case check_session e c token remote_addr of Inl err \<Rightarrow> Inl err | Inr _ \<Rightarrow> Inr d)) of
                       Inl err \<Rightarrow> Inl err
                     | Inr d' \<Rightarrow> (case maintenance e d' of Inl err \<Rightarrow> Inl err | Inr _ \<Rightarrow> Inr d'))))"

text \<open>A dependency on the role reads \<open>payload["role_id"]\<close>.\<close>

definition require_role :: "(string \<Rightarrow> bool) \<Rightarrow> token_data access \<Rightarrow> token_data access" where
  "require_role ok r =
     (case r of
        Inl err \<Rightarrow> Inl err
      | Inr d \<Rightarrow> (case td_role_id d of
                    None \<Rightarrow> Inl (Crash ''KeyError'')
                  | Some role \<Rightarrow> if ok role then Inr d else Inl Forbidden))"

definition is_not_user :: "env \<Rightarrow> string \<Rightarrow> string \<Rightarrow> token_data access" where
  "is_not_user e addr token = require_role (\<lambda>role. role \<noteq> ''user'') (has_token e addr token)"

definition is_admin_or_manager :: "env \<Rightarrow> string \<Rightarrow> string \<Rightarrow> token_data access" where
  "is_admin_or_manager e addr token = require_role (\<lambda>role. role \<in> {''admin'', ''manager''}) (has_token e addr token)"

definition is_admin :: "env \<Rightarrow> string \<Rightarrow> string \<Rightarrow> token_data access" where
  "is_admin e addr token = require_role (\<lambda>role. role = ''admin'') (has_token e addr token)"

definition can_manage_gpu_plannings :: "env \<Rightarrow> string \<Rightarrow> string \<Rightarrow> token_data access" where
  "can_manage_gpu_plannings e addr token =
     (case is_admin_or_manager e addr token of
        Inl err \<Rightarrow> Inl err
      | Inr d \<Rightarrow>
          if td_role_id d \<noteq> Some ''manager'' then Inr d
          else (case td_category_id d of
                  None \<Rightarrow> Inl (Crash ''KeyError'')
                | Some c \<Rightarrow> if e_manager_plannings e c then Inr d else Inl Forbidden))"

text \<open>
  The other dependencies differ in the token types they take, the types they check the session for,
  and whether the maintenance switch applies.
\<close>

definition token_dependency ::
  "string list \<Rightarrow> (string \<Rightarrow> bool) \<Rightarrow> bool \<Rightarrow> env \<Rightarrow> string \<Rightarrow> string \<Rightarrow> token_data access" where
  "token_dependency types checks_session in_maintenance e addr token =
     (case get_token_payload e token of
        Inl err \<Rightarrow> Inl err
      | Inr d \<Rightarrow>
          if type_of_token d \<notin> set types then Inl Forbidden
          else (case (if checks_session (type_of_token d)
                      then (case get_jwt_payload e token of Inl err \<Rightarrow> Inl err | Inr c \<Rightarrow> check_session e c token addr)
                      else Inr ()) of
                  Inl err \<Rightarrow> Inl err
                | Inr _ \<Rightarrow> (case (if in_maintenance then maintenance e d else Inr ()) of Inl err \<Rightarrow> Inl err | Inr _ \<Rightarrow> Inr d)))"

definition has_token_maintenance :: "env \<Rightarrow> string \<Rightarrow> string \<Rightarrow> token_data access" where
  "has_token_maintenance = token_dependency [''login'', []] (\<lambda>t. True) False"

definition has_token_register :: "env \<Rightarrow> string \<Rightarrow> string \<Rightarrow> token_data access" where
  "has_token_register = token_dependency [''register''] (\<lambda>t. False) True"

definition has_token_re_register :: "env \<Rightarrow> string \<Rightarrow> string \<Rightarrow> token_data access" where
  "has_token_re_register = token_dependency [''re-register''] (\<lambda>t. False) True"

definition has_token_password_reset_login :: "env \<Rightarrow> string \<Rightarrow> string \<Rightarrow> token_data access" where
  "has_token_password_reset_login =
     token_dependency [''password-reset-required'', ''password-reset'', ''login'', []] (\<lambda>t. t = ''login'' \<or> t = []) False"

definition has_token_disclaimer :: "env \<Rightarrow> string \<Rightarrow> string \<Rightarrow> token_data access" where
  "has_token_disclaimer = token_dependency [''disclaimer-acknowledgement-required''] (\<lambda>t. False) False"

definition has_token_direct_viewer :: "env \<Rightarrow> string \<Rightarrow> string \<Rightarrow> token_data access" where
  "has_token_direct_viewer = token_dependency [''direct-viewer'', ''login'', []] (\<lambda>t. t = ''login'') False"

definition has_migration_required_or_login_token :: "env \<Rightarrow> string \<Rightarrow> string \<Rightarrow> token_data access" where
  "has_migration_required_or_login_token =
     token_dependency [''user-migration-required'', ''login'', []] (\<lambda>t. t \<noteq> ''user-migration-required'') True"

definition has_email_verification_required_or_login_token :: "env \<Rightarrow> string \<Rightarrow> string \<Rightarrow> token_data access" where
  "has_email_verification_required_or_login_token =
     token_dependency [''email-verification-required'', ''login'', []] (\<lambda>t. t \<noteq> ''email-verification-required'') True"

section \<open>What a passed gate means\<close>

definition secret_for :: "env \<Rightarrow> claims \<Rightarrow> string option" where
  "secret_for e c = (if cl_kid c = Some ''isardvdi-hypervisors'' then e_hypervisors_secret e else e_api_secret e)"

text \<open>A session that still stands: a service, the API key the user holds now, or a session the service knows.\<close>

definition live_session :: "env \<Rightarrow> claims \<Rightarrow> string \<Rightarrow> string \<Rightarrow> bool" where
  "live_session e c token addr \<longleftrightarrow>
     session_id_of c = ''isardvdi-service''
     \<or> (session_id_of c = ''api-key'' \<and> (\<exists>d u. cl_data c = Some d \<and> td_user_id d = Some u \<and> e_api_key e u = Some token))
     \<or> (session_id_of c \<noteq> [] \<and> session_id_of c \<noteq> ''api-key'' \<and> e_session e (session_id_of c) addr = Rpc_ok)"

definition hypervisor_service :: "claims \<Rightarrow> bool" where
  "hypervisor_service c \<longleftrightarrow> session_id_of c = ''isardvdi-service'' \<and> cl_kid c = Some ''isardvdi-hypervisors''"

definition granted_data :: "claims \<Rightarrow> token_data" where
  "granted_data c = (if hypervisor_service c then (payload_data c)\<lparr>td_role_id := Some ''admin'', td_category_id := Some ''*''\<rparr>
                     else payload_data c)"

text \<open>The documented law of the JWT library: a decode that verifies returns the claims the token carries.\<close>

definition jwt_law :: "env \<Rightarrow> bool" where
  "jwt_law e \<longleftrightarrow> (\<forall>s t c. e_verified e s t = Some c \<longrightarrow> e_unverified e t = Some c)"

lemma get_jwt_payload_sound:
  assumes "get_jwt_payload e token = Inr c" "jwt_law e"
  shows "e_verified e (secret_for e c) token = Some c
       \<and> cl_kid c \<in> {Some ''isardvdi'', Some ''isardvdi-viewer'', Some ''isardvdi-hypervisors''}"
proof -
  obtain u s where u: "e_unverified e token = Some u" "e_verified e s token = Some c"
      "s = secret_for e u" "cl_kid u \<in> {Some ''isardvdi'', Some ''isardvdi-viewer'', Some ''isardvdi-hypervisors''}"
    using assms(1) by (auto simp: get_jwt_payload_def Let_def secret_for_def split: option.splits if_splits)
  then have "u = c"
    using assms(2) by (simp add: jwt_law_def)
  with u show ?thesis by blast
qed

lemma is_current_api_key_iff:
  "is_current_api_key e uid token \<longleftrightarrow> token \<noteq> [] \<and> (\<exists>u. u \<noteq> [] \<and> uid = Some u \<and> e_api_key e u = Some token)"
  by (cases uid) (auto simp: is_current_api_key_def split: option.splits)

lemma sessions_get_iff:
  "sessions_get e sid addr = Inr () \<longleftrightarrow> sid \<noteq> [] \<and> e_session e sid addr = Rpc_ok"
  by (auto simp: sessions_get_def split: rpc_status.splits)

lemma check_session_sound:
  assumes "session_id_of c = ''isardvdi-service'' \<or> check_session e c token addr = Inr ()"
  shows "live_session e c token addr"
  using assms
  by (auto simp: check_session_def live_session_def is_current_api_key_iff sessions_get_iff split: option.splits if_splits)

lemma maintenance_sound:
  assumes "maintenance e d = Inr ()"
  shows "td_role_id d = Some ''admin'' \<or> \<not> e_maintenance e"
  using assms by (auto simp: maintenance_def split: if_splits)

lemma has_token_parts:
  assumes "has_token e addr token = Inr d"
  obtains c where "get_jwt_payload e token = Inr c" "type_of_token (payload_data c) \<in> {''login'', []}"
    "d = granted_data c" "session_id_of c = ''isardvdi-service'' \<or> check_session e c token addr = Inr ()"
    "maintenance e d = Inr ()"
proof (cases "get_jwt_payload e token")
  case (Inl err)
  then show ?thesis using assms by (simp add: has_token_def get_token_payload_def)
next
  case (Inr c)
  have type: "type_of_token (payload_data c) \<in> {''login'', []}"
    using assms Inr by (auto simp: has_token_def get_token_payload_def split: if_splits)
  show ?thesis
  proof (cases "session_id_of c = ''isardvdi-service''")
    case True
    then show ?thesis
      using that [OF Inr type] assms Inr type
      by (auto simp: has_token_def get_token_payload_def granted_data_def hypervisor_service_def split: sum.splits)
  next
    case False
    then show ?thesis
      using that [OF Inr type] assms Inr type
      by (auto simp: has_token_def get_token_payload_def granted_data_def hypervisor_service_def split: sum.splits)
  qed
qed

text \<open>C6: nobody passes the login gate of the API without a token that verifies under the secret of its key id, carries
  a login type, and stands on a live session: a service, the API key stored for its user, or a session
  the sessions service knows. The payload of the request is what the token says, except that a
  service token signed with the hypervisors' secret becomes an admin of every category; and in
  maintenance only an admin passes.\<close>

theorem has_token_sound:
  assumes "jwt_law e" "has_token e addr token = Inr d"
  shows "\<exists>c. e_verified e (secret_for e c) token = Some c
     \<and> cl_kid c \<in> {Some ''isardvdi'', Some ''isardvdi-viewer'', Some ''isardvdi-hypervisors''}
     \<and> type_of_token (payload_data c) \<in> {''login'', []} \<and> live_session e c token addr \<and> d = granted_data c
     \<and> (td_role_id d = Some ''admin'' \<or> \<not> e_maintenance e)"
proof -
  obtain c where c: "get_jwt_payload e token = Inr c" "type_of_token (payload_data c) \<in> {''login'', []}"
      "d = granted_data c" "session_id_of c = ''isardvdi-service'' \<or> check_session e c token addr = Inr ()"
      "maintenance e d = Inr ()"
    using assms(2) by (rule has_token_parts)
  moreover have "live_session e c token addr"
    using c(4) by (rule check_session_sound)
  ultimately show ?thesis
    using get_jwt_payload_sound [OF c(1) assms(1)] maintenance_sound [OF c(5)] by blast
qed

definition example_env :: env where
  "example_env =
     (let login = \<lparr>cl_kid = Some ''isardvdi'', cl_session_id = Some ''s1'',
                   cl_data = Some \<lparr>td_type = None, td_user_id = Some ''ana'', td_role_id = Some ''user'', td_category_id = Some ''school'',
                                   td_group_id = Some ''g1'', td_desktop_id = None\<rparr>,
                   cl_top = \<lparr>td_type = Some ''login'', td_user_id = None, td_role_id = None, td_category_id = None,
                             td_group_id = None, td_desktop_id = None\<rparr>\<rparr>;
          revoked = login\<lparr>cl_session_id := Some ''s2''\<rparr>;
          service = login\<lparr>cl_kid := Some ''isardvdi-hypervisors'', cl_session_id := Some ''isardvdi-service''\<rparr>;
          shown = (\<lambda>t. if t = ''live'' then Some login else if t = ''revoked'' then Some revoked
                       else if t = ''service'' then Some service else None)
      in \<lparr>e_unverified = shown,
          e_verified = (\<lambda>s t. if (s = Some ''api'' \<and> t \<in> {''live'', ''revoked''}) \<or> (s = Some ''hyp'' \<and> t = ''service'')
                              then shown t else None),
          e_api_secret = Some ''api'', e_hypervisors_secret = Some ''hyp'', e_api_key = (\<lambda>u. None),
          e_session = (\<lambda>s a. if s = ''s1'' then Rpc_ok else Rpc_not_found), e_maintenance = False,
          e_category_maintenance = (\<lambda>c. Inr False), e_manager_plannings = (\<lambda>c. False)\<rparr>)"

lemma example_env_law: "jwt_law example_env"
  by (auto simp: jwt_law_def example_env_def Let_def split: if_splits)

lemma example_live: "has_token example_env ''10.0.0.1'' ''live'' =
    Inr \<lparr>td_type = None, td_user_id = Some ''ana'', td_role_id = Some ''user'', td_category_id = Some ''school'',
         td_group_id = Some ''g1'', td_desktop_id = None\<rparr>"
  by code_simp

lemma example_service: "is_admin example_env ''10.0.0.1'' ''service'' =
    Inr \<lparr>td_type = None, td_user_id = Some ''ana'', td_role_id = Some ''admin'', td_category_id = Some ''*'',
         td_group_id = Some ''g1'', td_desktop_id = None\<rparr>"
  by code_simp

theorem has_token_sound_witness:
  "\<exists>c. e_verified example_env (secret_for example_env c) ''live'' = Some c \<and> live_session example_env c ''live'' ''10.0.0.1''"
  using has_token_sound [OF example_env_law example_live] by blast

text \<open>C36: no privilege escalation. Whoever passes the gate of the administrators holds a verified token that says admin, or
  a service token that verifies under the hypervisors' secret. A token signed with the API's own
  secret never gains a role.\<close>

theorem admin_gate_sound:
  assumes "jwt_law e" "is_admin e addr token = Inr d"
  shows "\<exists>c. e_verified e (secret_for e c) token = Some c
     \<and> (td_role_id (payload_data c) = Some ''admin'' \<and> live_session e c token addr
        \<or> hypervisor_service c \<and> secret_for e c = e_hypervisors_secret e)"
proof -
  have d: "has_token e addr token = Inr d" "td_role_id d = Some ''admin''"
    using assms(2) by (auto simp: is_admin_def require_role_def split: sum.splits option.splits if_splits)
  obtain c where "e_verified e (secret_for e c) token = Some c" "live_session e c token addr" "d = granted_data c"
    using d(1) assms(1) by (elim has_token_parts) (metis get_jwt_payload_sound check_session_sound)
  with d(2) show ?thesis
    by (intro exI [of _ c]) (auto simp: granted_data_def hypervisor_service_def secret_for_def split: if_splits)
qed

theorem admin_gate_sound_witness:
  "\<exists>c. e_verified example_env (secret_for example_env c) ''service'' = Some c"
  using admin_gate_sound [OF example_env_law example_service] by blast

text \<open>C37: the gate of the direct viewer does not look at the session of a login token. The type is read from the data
  of the token, which in a login token or an API key has none, so a verified token passes
  whatever became of its session; the login gate refuses the same token as unauthorized.\<close>

theorem direct_viewer_ignores_session:
  assumes "get_jwt_payload e token = Inr c" "td_type (payload_data c) = None" "check_session e c token addr = Inl err"
  shows "has_token_direct_viewer e addr token = Inr (payload_data c) \<and> has_token e addr token = Inl err"
  using assms
  by (auto simp: has_token_direct_viewer_def token_dependency_def get_token_payload_def type_of_token_def has_token_def
        check_session_def split: if_splits)

theorem direct_viewer_ignores_session_witness:
  "(\<exists>d. has_token_direct_viewer example_env ''10.0.0.1'' ''revoked'' = Inr d)
   \<and> has_token example_env ''10.0.0.1'' ''revoked'' = Inl Unauthorized"
proof -
  obtain c where c: "get_jwt_payload example_env ''revoked'' = Inr c" "td_type (payload_data c) = None"
      "check_session example_env c ''revoked'' ''10.0.0.1'' = Inl Unauthorized"
    by (simp add: get_jwt_payload_def example_env_def Let_def payload_data_def check_session_def session_id_of_def sessions_get_def)
  show ?thesis
    using direct_viewer_ignores_session [OF c] by blast
qed

text \<open>The sibling gate for password resets reads the same type and does check the session of such a token.\<close>

lemma password_reset_checks_session:
  assumes "get_jwt_payload e token = Inr c" "td_type (payload_data c) = None" "check_session e c token addr = Inl err"
  shows "has_token_password_reset_login e addr token = Inl err"
  using assms
  by (simp add: has_token_password_reset_login_def token_dependency_def get_token_payload_def type_of_token_def)

end
