(* ===== verification/Booking_Plans.thy ===== *)
theory Booking_Plans
  imports Access_Control Gpu_Pool
begin

text \<open>
  The windows in which a card offers a profile, \<open>lib/bookings/reservables_planner.py\<close>: adding, updating
  and deleting a plan, its overlap checks, and the two joins of \<open>reservables_planner_compute.py\<close>. The
  two tables are lists of rows. A time is a rational number of seconds; the calls to the scheduler that
  announce a profile change are not modelled. The section under \<open>resource_lock\<close> is one step.
\<close>

section \<open>Rows and behaviours\<close>

type_synonym time = rat

record plan = gpu_plan +
  pl_id :: string
  pl_subitem_id :: string
  pl_units :: int
  pl_start :: time
  pl_end :: time
  pl_user_id :: string

text \<open>What a booking holds of a plan; \<open>units_booked\<close> is absent from old rows.\<close>

record booked_plan =
  bp_plan_id :: string
  bp_item_id :: string
  bp_subitem_id :: string
  bp_priority :: int
  bp_units_booked :: "int option"

record booking =
  bk_id :: string
  bk_item_id :: string
  bk_item_type :: string
  bk_units :: int
  bk_reservables :: "(string \<times> string list option) list"
  bk_start :: time
  bk_end :: time
  bk_user_id :: string
  bk_plans :: "booked_plan list"

text \<open>The classes of reservable items answer for their planning.\<close>

definition planning_item_can_overlap :: "string \<Rightarrow> bool access" where
  "planning_item_can_overlap item_type =
     (if item_type = ''gpus'' then Inr False else if item_type = ''usbs'' then Inr True else Inl (Crash ''KeyError''))"

definition planning_subitem_can_overlap :: "string \<Rightarrow> bool access" where
  "planning_subitem_can_overlap item_type =
     (if item_type = ''gpus'' then Inr True else if item_type = ''usbs'' then Inr False else Inl (Crash ''KeyError''))"

definition planning_subitem_join_before :: "string \<Rightarrow> bool access" where
  "planning_subitem_join_before item_type =
     (if item_type = ''gpus'' \<or> item_type = ''usbs'' then Inr True else Inl (Crash ''KeyError''))"

definition planning_subitem_join_after :: "string \<Rightarrow> bool access" where
  "planning_subitem_join_after item_type =
     (if item_type = ''gpus'' \<or> item_type = ''usbs'' then Inr True else Inl (Crash ''KeyError''))"

section \<open>Overlaps and joins\<close>

definition ROUND_SECONDS :: time where
  "ROUND_SECONDS = 300"

definition ceil_dt :: "time \<Rightarrow> time" where
  "ceil_dt dt = ROUND_SECONDS * of_int \<lceil>dt / ROUND_SECONDS\<rceil>"

text \<open>\<open>during\<close> of the database takes its left bound and leaves its right one.\<close>

definition during :: "time \<Rightarrow> time \<Rightarrow> time \<Rightarrow> bool" where
  "during x a b \<longleftrightarrow> a \<le> x \<and> x < b"

definition plan_overlaps :: "plan \<Rightarrow> plan \<Rightarrow> bool" where
  "plan_overlaps p e \<longleftrightarrow> during (pl_start e) (pl_start p) (pl_end p) \<or> during (pl_end e) (pl_start p) (pl_end p)
     \<or> (pl_start e \<le> pl_start p \<and> pl_end e \<ge> pl_end p)"

definition check_plan_item_id_overlapped :: "plan list \<Rightarrow> plan \<Rightarrow> unit access" where
  "check_plan_item_id_overlapped plans p =
     (if list_ex (\<lambda>e. pl_item_id e = pl_item_id p \<and> plan_overlaps p e) plans then Inl Conflict else Inr ())"

definition check_plan_subitem_id_overlapped :: "plan list \<Rightarrow> plan \<Rightarrow> unit access" where
  "check_plan_subitem_id_overlapped plans p =
     (if list_ex (\<lambda>e. pl_item_type e = pl_item_type p \<and> pl_item_id e = pl_item_id p \<and> pl_subitem_id e = pl_subitem_id p
                     \<and> plan_overlaps p e) plans
      then Inl Conflict else Inr ())"

definition update_plan_row :: "string \<Rightarrow> (plan \<Rightarrow> plan) \<Rightarrow> plan list \<Rightarrow> plan list" where
  "update_plan_row i f plans = map (\<lambda>e. if pl_id e = i then f e else e) plans"

definition same_window_profile :: "plan \<Rightarrow> plan \<Rightarrow> bool" where
  "same_window_profile p e \<longleftrightarrow> pl_item_id e = pl_item_id p \<and> pl_subitem_id e = pl_subitem_id p"

definition join_existing_plan_after_new_plan_start :: "plan \<Rightarrow> plan list \<Rightarrow> plan option \<times> plan list" where
  "join_existing_plan_after_new_plan_start p plans =
     (case List.find (\<lambda>e. same_window_profile p e \<and> pl_start e = pl_end p + 1) plans of
        None \<Rightarrow> (None, plans)
      | Some e \<Rightarrow> (Some e, update_plan_row (pl_id e) (\<lambda>x. x\<lparr>pl_start := pl_start p\<rparr>) plans))"

definition join_existing_plan_before_new_plan_end :: "plan \<Rightarrow> plan list \<Rightarrow> plan option \<times> plan list" where
  "join_existing_plan_before_new_plan_end p plans =
     (case List.find (\<lambda>e. same_window_profile p e \<and> pl_end e = pl_start p - 1) plans of
        None \<Rightarrow> (None, plans)
      | Some e \<Rightarrow> (Some e, update_plan_row (pl_id e) (\<lambda>x. x\<lparr>pl_end := pl_end p\<rparr>) plans))"

section \<open>Operations\<close>

text \<open>The body of a new plan; the units are those of the profile on the card, an error of the lookup is a bad request.\<close>

record plan_data =
  da_item_type :: string
  da_item_id :: string
  da_subitem_id :: string
  da_start :: time
  da_end :: time

text \<open>Inside the lock: the checks, the joins, the insert. Returns the id of the row that now covers the window.\<close>

definition place_plan :: "bool \<Rightarrow> bool \<Rightarrow> bool \<Rightarrow> bool \<Rightarrow> plan \<Rightarrow> plan list \<Rightarrow> (string \<times> plan list) access" where
  "place_plan item_can_overlap subitem_can_overlap join_before join_after p plans =
     (case (if item_can_overlap then Inr () else check_plan_item_id_overlapped plans p) of
        Inl e \<Rightarrow> Inl e
      | Inr _ \<Rightarrow>
          (case (if subitem_can_overlap then Inr () else check_plan_subitem_id_overlapped plans p) of
             Inl e \<Rightarrow> Inl e
           | Inr _ \<Rightarrow>
               (let (j1, plans1) = (if join_before then join_existing_plan_after_new_plan_start p plans else (None, plans));
                    (j2, plans2) = (if join_after then join_existing_plan_before_new_plan_end p plans1 else (None, plans1))
                in case (j1, j2) of
                     (_, Some e) \<Rightarrow> Inr (pl_id e, plans2)
                   | (Some e, None) \<Rightarrow> Inr (pl_id e, plans2)
                   | (None, None) \<Rightarrow> Inr (pl_id p, plans2 @ [p]))))"

definition add_plan ::
  "(string \<Rightarrow> string \<Rightarrow> string \<Rightarrow> int option) \<Rightarrow> string \<Rightarrow> string \<Rightarrow> plan_data \<Rightarrow> plan list \<Rightarrow> (string \<times> plan list) access" where
  "add_plan get_subitem_units new_id user_id data plans =
     (let start = ceil_dt (da_start data); fin = ceil_dt (da_end data) - 1
      in if fin < start then Inl Bad_request
         else (case get_subitem_units (da_item_type data) (da_item_id data) (da_subitem_id data) of
                 None \<Rightarrow> Inl Bad_request
               | Some units \<Rightarrow>
                   (case (planning_item_can_overlap (da_item_type data), planning_subitem_can_overlap (da_item_type data),
                          planning_subitem_join_before (da_item_type data), planning_subitem_join_after (da_item_type data)) of
                      (Inr io, Inr so, Inr jb, Inr ja) \<Rightarrow>
                        place_plan io so jb ja
                          \<lparr>pl_item_type = da_item_type data, pl_item_id = da_item_id data, pl_id = new_id,
                           pl_subitem_id = da_subitem_id data, pl_units = units, pl_start = start, pl_end = fin,
                           pl_user_id = user_id\<rparr> plans
                    | _ \<Rightarrow> Inl (Crash ''KeyError''))))"

definition in_plan :: "string \<Rightarrow> booking \<Rightarrow> bool" where
  "in_plan plan_id b \<longleftrightarrow> list_ex (\<lambda>x. bp_plan_id x = plan_id) (bk_plans b)"

text \<open>
  Updating a plan deletes bookings and then adds the stored row again, as the code does; a plan that is
  not stored fails in \<open>add_plan\<close>. The result carries the bookings left, also on an error.
\<close>

definition update_plan ::
  "(string \<Rightarrow> string \<Rightarrow> string \<Rightarrow> int option) \<Rightarrow> string \<Rightarrow> string \<Rightarrow> string \<Rightarrow> time \<Rightarrow> time \<Rightarrow> plan list \<Rightarrow> booking list
     \<Rightarrow> booking list \<times> (string \<times> plan list) access" where
  "update_plan get_subitem_units new_id user_id plan_id start fin plans bookings =
     (let actual = filter (\<lambda>b. in_plan plan_id b \<and> bk_start b \<le> start \<and> bk_end b \<ge> fin) bookings;
          failing = filter (\<lambda>b. in_plan plan_id b \<and> (bk_start b < start \<or> bk_end b > fin)) bookings;
          gone = (if actual \<noteq> [] \<and> length actual \<noteq> length failing
                  then map bk_id (filter (\<lambda>b. b \<notin> set failing) actual) else []);
          left = filter (\<lambda>b. bk_id b \<notin> set gone) bookings
      in case List.find (\<lambda>p. pl_id p = plan_id) plans of
           None \<Rightarrow> (left, Inl (Crash ''TypeError''))
         | Some p \<Rightarrow>
             (left, add_plan get_subitem_units new_id user_id
                      \<lparr>da_item_type = pl_item_type p, da_item_id = pl_item_id p, da_subitem_id = pl_subitem_id p,
                       da_start = pl_start p, da_end = pl_end p\<rparr> plans))"

definition delete_plan :: "string \<Rightarrow> plan list \<Rightarrow> booking list \<Rightarrow> (plan list \<times> booking list) access" where
  "delete_plan plan_id plans bookings =
     (if list_ex (\<lambda>p. pl_id p = plan_id) plans
      then Inr (filter (\<lambda>p. pl_id p \<noteq> plan_id) plans, filter (\<lambda>b. \<not> in_plan plan_id b) bookings)
      else Inl Not_found)"

text \<open>Disabling a profile on one card drops its plans there and detaches them from the bookings.\<close>

definition delete_card_subitem_plans ::
  "string \<Rightarrow> string \<Rightarrow> plan list \<Rightarrow> booking list \<Rightarrow> (nat \<times> nat) \<times> plan list \<times> booking list" where
  "delete_card_subitem_plans item_id subitem_id plans bookings =
     (let ids = map pl_id (filter (\<lambda>p. pl_item_id p = item_id \<and> pl_subitem_id p = subitem_id) plans)
      in if ids = [] then ((0, 0), plans, bookings)
         else (let remaining = (\<lambda>b. filter (\<lambda>x. bp_plan_id x \<notin> set ids) (bk_plans b));
                   affected = (\<lambda>b. list_ex (\<lambda>x. bp_plan_id x \<in> set ids) (bk_plans b));
                   left = filter (\<lambda>b. \<not> affected b \<or> remaining b \<noteq> []) bookings
               in ((length ids, length (filter (\<lambda>b. affected b \<and> remaining b = []) bookings)),
                   filter (\<lambda>p. pl_id p \<notin> set ids) plans,
                   map (\<lambda>b. if affected b then b\<lparr>bk_plans := remaining b\<rparr> else b) left)))"

section \<open>Plans on a card stay apart\<close>

text \<open>A window of the planner starts on a five minute mark and ends one second before one.\<close>

definition aligned :: "plan \<Rightarrow> bool" where
  "aligned p \<longleftrightarrow> (\<exists>k m. pl_start p = 300 * of_int k \<and> pl_end p = 300 * of_int m - 1) \<and> pl_start p \<le> pl_end p"

definition apart :: "plan \<Rightarrow> plan \<Rightarrow> bool" where
  "apart x y \<longleftrightarrow> pl_end x < pl_start y \<or> pl_end y < pl_start x"

definition well_planned :: "plan list \<Rightarrow> bool" where
  "well_planned plans \<longleftrightarrow> distinct (map pl_id plans) \<and> (\<forall>p\<in>set plans. aligned p)
     \<and> (\<forall>x\<in>set plans. \<forall>y\<in>set plans. pl_item_id x = pl_item_id y \<and> pl_id x \<noteq> pl_id y \<longrightarrow> apart x y)"

lemma apart_sym: "apart x y \<longleftrightarrow> apart y x"
  by (auto simp: apart_def)

lemma mark_gap:
  assumes "(300 * of_int k :: rat) > 300 * of_int m - 1"
  shows "(300 * of_int k :: rat) \<ge> 300 * of_int m"
proof -
  have "(of_int (300 * m) :: rat) < of_int (300 * k + 1)"
    using assms by simp
  then have "300 * m < 300 * k + 1"
    by (simp only: of_int_less_iff)
  then have "m \<le> k" by simp
  then show ?thesis by simp
qed

lemma mark_not_end: "(300 * of_int k :: rat) \<noteq> 300 * of_int m - 1"
proof
  assume eq: "(300 * of_int k :: rat) = 300 * of_int m - 1"
  have "(of_int (300 * (m - k)) :: rat) = of_int 1"
    using eq by (simp add: algebra_simps)
  then have "300 * (m - k) = 1"
    by (rule of_int_eq_iff [THEN iffD1])
  then show False
    by (metis dvd_triv_left zdvd1_eq abs_numeral numeral_eq_one_iff semiring_norm(85))
qed

lemma aligned_gap:
  assumes "aligned x" "aligned p" "pl_end p < pl_start x"
  shows "pl_end p + 1 \<le> pl_start x"
  using assms mark_gap by (fastforce simp: aligned_def)

lemma not_overlapping_apart:
  assumes "aligned p" "aligned e" "\<not> plan_overlaps p e"
  shows "apart p e"
proof (rule ccontr)
  assume "\<not> apart p e"
  then have meet: "pl_start e \<le> pl_end p" "pl_start p \<le> pl_end e"
    by (auto simp: apart_def)
  obtain k where k: "pl_start e = 300 * of_int k"
    using assms(2) by (auto simp: aligned_def)
  obtain m where m: "pl_end p = 300 * of_int m - 1"
    using assms(1) by (auto simp: aligned_def)
  have "pl_start e \<noteq> pl_end p"
    unfolding k m by (rule mark_not_end)
  then have "pl_start e < pl_end p"
    using meet(1) by simp
  then show False
    using meet(2) assms(3) by (force simp: plan_overlaps_def during_def)
qed

lemma ceil_dt_mark: "\<exists>k. ceil_dt t = 300 * of_int k"
  by (auto simp: ceil_dt_def ROUND_SECONDS_def)

text \<open>Moving the start of the next plan back over a free window, and the end of the previous one forward.\<close>

lemma apart_join_after:
  assumes "apart x p" "apart x e" "pl_start e = pl_end p + 1" "aligned x" "aligned p" "aligned e"
  shows "apart x (e\<lparr>pl_start := pl_start p\<rparr>)"
proof (cases "pl_end x < pl_start p")
  case False
  then have "pl_end p + 1 \<le> pl_start x"
    using assms(1,4,5) aligned_gap by (auto simp: apart_def)
  moreover have "pl_start x \<le> pl_end x"
    using assms(4) by (simp add: aligned_def)
  ultimately show ?thesis
    using assms(2,3) by (auto simp: apart_def)
qed (simp add: apart_def)

lemma apart_join_before:
  assumes "apart x p" "apart x e" "pl_end e = pl_start p - 1" "aligned x" "aligned p" "aligned e"
  shows "apart x (e\<lparr>pl_end := pl_end p\<rparr>)"
proof (cases "pl_end p < pl_start x")
  case False
  then have "pl_end x + 1 \<le> pl_start p"
    using assms(1,4,5) aligned_gap by (auto simp: apart_def)
  moreover have "pl_start x \<le> pl_end x"
    using assms(4) by (simp add: aligned_def)
  ultimately show ?thesis
    using assms(2,3) by (auto simp: apart_def)
qed (simp add: apart_def)

lemma set_update_plan_row:
  assumes "distinct (map pl_id plans)" "e \<in> set plans"
  shows "set (update_plan_row (pl_id e) f plans) = insert (f e) (set plans - {e})"
proof -
  have "x = e" if "x \<in> set plans" "pl_id x = pl_id e" for x
    using that assms by (auto simp: distinct_map inj_on_def)
  then have "update_plan_row (pl_id e) f plans = map (\<lambda>x. if x = e then f e else x) plans"
    by (auto simp: update_plan_row_def)
  then show ?thesis
    using assms(2) by auto
qed

lemma map_id_update_plan_row:
  assumes "\<And>x. pl_id (f x) = pl_id x"
  shows "map pl_id (update_plan_row i f plans) = map pl_id plans"
  using assms by (auto simp: update_plan_row_def)

text \<open>Replacing one row of a well planned table by one that keeps its id and card.\<close>

lemma well_planned_replace:
  assumes wp: "well_planned plans" and e: "e \<in> set plans"
    and f: "\<And>x. pl_id (f x) = pl_id x" "pl_item_id (f e) = pl_item_id e" "aligned (f e)"
    and far: "\<And>x. x \<in> set plans \<Longrightarrow> pl_item_id x = pl_item_id e \<Longrightarrow> pl_id x \<noteq> pl_id e \<Longrightarrow> apart x (f e)"
  shows "well_planned (update_plan_row (pl_id e) f plans)"
proof -
  have set: "set (update_plan_row (pl_id e) f plans) = insert (f e) (set plans - {e})"
    using wp e by (simp add: well_planned_def set_update_plan_row)
  show ?thesis
    unfolding well_planned_def map_id_update_plan_row [of f, OF f(1)] set
  proof (intro conjI ballI impI)
    show "distinct (map pl_id plans)"
      using wp by (simp add: well_planned_def)
    show "aligned p" if "p \<in> insert (f e) (set plans - {e})" for p
      using that wp f(3) by (auto simp: well_planned_def)
    fix x y
    assume x: "x \<in> insert (f e) (set plans - {e})" and y: "y \<in> insert (f e) (set plans - {e})"
      and ids: "pl_item_id x = pl_item_id y \<and> pl_id x \<noteq> pl_id y"
    consider "x = f e" "y \<in> set plans" | "y = f e" "x \<in> set plans" | "x \<in> set plans" "y \<in> set plans"
      using x y ids by blast
    then show "apart x y"
    proof cases
      case 1
      then have "apart y x" using far [of y] ids f(1) [of e] f(2) by metis
      then show ?thesis by (auto simp: apart_def)
    next
      case 2
      then show ?thesis using far [of x] ids f(1) [of e] f(2) by simp
    next
      case 3
      then show ?thesis using wp ids by (simp add: well_planned_def)
    qed
  qed
qed

lemma well_planned_insert:
  assumes "well_planned plans" "aligned p" "pl_id p \<notin> pl_id ` set plans"
    "\<And>x. x \<in> set plans \<Longrightarrow> pl_item_id x = pl_item_id p \<Longrightarrow> apart x p"
  shows "well_planned (plans @ [p])"
proof -
  have "apart p x" if "x \<in> set plans" "pl_item_id x = pl_item_id p" for x
    using assms(4) [OF that] by (auto simp: apart_def)
  then show ?thesis
    using assms unfolding well_planned_def by auto
qed

section \<open>Adding a plan\<close>

definition window_start :: "plan_data \<Rightarrow> time" where
  "window_start data = ceil_dt (da_start data)"

definition window_end :: "plan_data \<Rightarrow> time" where
  "window_end data = ceil_dt (da_end data) - 1"

definition of_window :: "plan_data \<Rightarrow> plan \<Rightarrow> bool" where
  "of_window data e \<longleftrightarrow> pl_item_id e = da_item_id data \<and> pl_subitem_id e = da_subitem_id data"

definition previous_plan :: "plan_data \<Rightarrow> plan \<Rightarrow> bool" where
  "previous_plan data e \<longleftrightarrow> of_window data e \<and> pl_end e = window_start data - 1"

definition next_plan :: "plan_data \<Rightarrow> plan \<Rightarrow> bool" where
  "next_plan data e \<longleftrightarrow> of_window data e \<and> pl_start e = window_end data + 1"

definition new_plan :: "string \<Rightarrow> string \<Rightarrow> int \<Rightarrow> plan_data \<Rightarrow> plan" where
  "new_plan new_id user_id units data =
     \<lparr>pl_item_type = da_item_type data, pl_item_id = da_item_id data, pl_id = new_id, pl_subitem_id = da_subitem_id data,
      pl_units = units, pl_start = window_start data, pl_end = window_end data, pl_user_id = user_id\<rparr>"

lemma new_plan_sel [simp]:
  "pl_id (new_plan i u n d) = i" "pl_item_id (new_plan i u n d) = da_item_id d" "pl_subitem_id (new_plan i u n d) = da_subitem_id d"
  "pl_start (new_plan i u n d) = window_start d" "pl_end (new_plan i u n d) = window_end d"
  by (simp_all add: new_plan_def)

lemma new_plan_aligned:
  assumes "window_start data \<le> window_end data"
  shows "aligned (new_plan i u n data)"
  using assms ceil_dt_mark [of "da_start data"] ceil_dt_mark [of "da_end data"]
  by (auto simp: aligned_def window_start_def window_end_def)

text \<open>A GPU plan that is accepted met no other plan of its card.\<close>

lemma place_plan_free:
  assumes "place_plan False so jb ja p plans = Inr r" "e \<in> set plans" "pl_item_id e = pl_item_id p"
  shows "\<not> plan_overlaps p e"
  using assms by (auto simp: place_plan_def check_plan_item_id_overlapped_def list_ex_iff split: if_splits)

lemma add_gpu_plan_parts:
  assumes "add_plan gsu new_id user data plans = Inr (i, plans')" "da_item_type data = ''gpus''"
  obtains n where "window_start data \<le> window_end data"
    "place_plan False True True True (new_plan new_id user n data) plans = Inr (i, plans')"
  using assms
  by (auto simp: add_plan_def Let_def planning_item_can_overlap_def planning_subitem_can_overlap_def
        planning_subitem_join_before_def planning_subitem_join_after_def new_plan_def window_start_def window_end_def
        split: option.splits if_splits)

lemma find_next:
  "(\<lambda>e. same_window_profile (new_plan i u n data) e \<and> pl_start e = window_end data + 1) = next_plan data"
  by (auto simp: same_window_profile_def next_plan_def of_window_def)

lemma find_previous:
  "(\<lambda>e. same_window_profile (new_plan i u n data) e \<and> pl_end e = window_start data - 1) = previous_plan data"
  by (auto simp: same_window_profile_def previous_plan_def of_window_def)

text \<open>What the locked section leaves, by the neighbours of the window.\<close>

definition joined_after :: "plan_data \<Rightarrow> plan \<Rightarrow> plan list \<Rightarrow> plan list" where
  "joined_after data e plans = update_plan_row (pl_id e) (\<lambda>x. x\<lparr>pl_start := window_start data\<rparr>) plans"

definition joined_before :: "plan_data \<Rightarrow> plan \<Rightarrow> plan list \<Rightarrow> plan list" where
  "joined_before data e plans = update_plan_row (pl_id e) (\<lambda>x. x\<lparr>pl_end := window_end data\<rparr>) plans"

lemma place_plan_value:
  assumes "place_plan False True True True (new_plan new_id user n data) plans = Inr (i, plans')"
  shows "case List.find (next_plan data) plans of
           None \<Rightarrow> (case List.find (previous_plan data) plans of
                      None \<Rightarrow> i = new_id \<and> plans' = plans @ [new_plan new_id user n data]
                    | Some a \<Rightarrow> i = pl_id a \<and> plans' = joined_before data a plans)
         | Some b \<Rightarrow> (case List.find (previous_plan data) (joined_after data b plans) of
                      None \<Rightarrow> i = pl_id b \<and> plans' = joined_after data b plans
                    | Some a \<Rightarrow> i = pl_id a \<and> plans' = joined_before data a (joined_after data b plans))"
  using assms
  by (auto simp: place_plan_def join_existing_plan_after_new_plan_start_def join_existing_plan_before_new_plan_end_def
        find_next find_previous joined_after_def joined_before_def Let_def split: option.splits sum.splits)

lemma find_Some_in: "List.find P xs = Some x \<Longrightarrow> x \<in> set xs \<and> P x"
  by (induction xs) (auto split: if_splits)

lemma joined_after_well_planned:
  assumes "well_planned plans" "b \<in> set plans" "next_plan data b" "window_start data \<le> window_end data"
    "\<And>e. e \<in> set plans \<Longrightarrow> pl_item_id e = da_item_id data \<Longrightarrow> apart e (new_plan i u n data)"
  shows "well_planned (joined_after data b plans)"
  unfolding joined_after_def
proof (rule well_planned_replace [OF assms(1,2)])
  have al: "aligned b" "aligned (new_plan i u n data)"
    using assms(1,2,4) new_plan_aligned by (auto simp: well_planned_def)
  have b: "pl_item_id b = da_item_id data" "pl_start b = window_end data + 1"
    using assms(3) by (simp_all add: next_plan_def of_window_def)
  show "aligned (b\<lparr>pl_start := window_start data\<rparr>)"
    using al b(2) assms(4) by (auto simp: aligned_def)
  show "apart x (b\<lparr>pl_start := window_start data\<rparr>)"
    if "x \<in> set plans" "pl_item_id x = pl_item_id b" "pl_id x \<noteq> pl_id b" for x
  proof -
    have "apart x b" "aligned x"
      using that assms(1,2) by (auto simp: well_planned_def)
    then show ?thesis
      using apart_join_after [of x "new_plan i u n data" b] assms(5) that b al by simp
  qed
qed simp_all

lemma joined_before_well_planned:
  assumes "well_planned plans" "a \<in> set plans" "previous_plan data a" "window_start data \<le> window_end data"
    "\<And>e. e \<in> set plans \<Longrightarrow> pl_item_id e = da_item_id data \<Longrightarrow> apart e (new_plan i u n data)"
  shows "well_planned (joined_before data a plans)"
  unfolding joined_before_def
proof (rule well_planned_replace [OF assms(1,2)])
  have al: "aligned a" "aligned (new_plan i u n data)"
    using assms(1,2,4) new_plan_aligned by (auto simp: well_planned_def)
  have a: "pl_item_id a = da_item_id data" "pl_end a = window_start data - 1"
    using assms(3) by (simp_all add: previous_plan_def of_window_def)
  show "aligned (a\<lparr>pl_end := window_end data\<rparr>)"
    using al a(2) assms(4) by (auto simp: aligned_def)
  show "apart x (a\<lparr>pl_end := window_end data\<rparr>)"
    if "x \<in> set plans" "pl_item_id x = pl_item_id a" "pl_id x \<noteq> pl_id a" for x
  proof -
    have "apart x a" "aligned x"
      using that assms(1,2) by (auto simp: well_planned_def)
    then show ?thesis
      using apart_join_before [of x "new_plan i u n data" a] assms(5) that a al by simp
  qed
qed simp_all

text \<open>C15: a new GPU plan keeps the plans of every card apart and on their five minute marks, and the row it returns covers the
  window asked for, provided the window does not close the gap between two plans of its profile.\<close>

theorem gpu_plans_stay_apart:
  assumes "well_planned plans" "new_id \<notin> pl_id ` set plans" "da_item_type data = ''gpus''"
    "add_plan gsu new_id user data plans = Inr (i, plans')"
    "\<not> (list_ex (previous_plan data) plans \<and> list_ex (next_plan data) plans)"
  shows "well_planned plans'
       \<and> (\<exists>q\<in>set plans'. pl_id q = i \<and> of_window data q \<and> pl_start q \<le> window_start data \<and> window_end data \<le> pl_end q)"
proof -
  obtain n where w: "window_start data \<le> window_end data"
      and placed: "place_plan False True True True (new_plan new_id user n data) plans = Inr (i, plans')"
    using add_gpu_plan_parts [OF assms(4,3)] by blast
  have far: "apart e (new_plan new_id user n data)" if "e \<in> set plans" "pl_item_id e = da_item_id data" for e
    using not_overlapping_apart [OF new_plan_aligned [OF w]] place_plan_free [OF placed that(1)] that assms(1)
    by (auto simp: well_planned_def apart_sym)
  have ids: "distinct (map pl_id plans)"
    using assms(1) by (simp add: well_planned_def)
  consider (both) b where "List.find (next_plan data) plans = Some b" | (neither) "List.find (next_plan data) plans = None"
      "List.find (previous_plan data) plans = None" | (before) a where "List.find (next_plan data) plans = None"
      "List.find (previous_plan data) plans = Some a"
    by (cases "List.find (next_plan data) plans"; cases "List.find (previous_plan data) plans") auto
  then show ?thesis
  proof cases
    case (both b)
    have b: "b \<in> set plans" "next_plan data b"
      using find_Some_in [OF both] by auto
    have "\<not> list_ex (previous_plan data) plans"
      using assms(5) b by (auto simp: list_ex_iff)
    then have "List.find (previous_plan data) (joined_after data b plans) = None"
      unfolding find_None_iff joined_after_def set_update_plan_row [OF ids b(1)]
      using b(1) by (auto simp: list_ex_iff previous_plan_def of_window_def)
    then have v: "i = pl_id b" "plans' = joined_after data b plans"
      using place_plan_value [OF placed] both by auto
    have "b\<lparr>pl_start := window_start data\<rparr> \<in> set plans'"
      unfolding v(2) joined_after_def set_update_plan_row [OF ids b(1)] by simp
    moreover have "window_end data \<le> pl_end b"
      using b assms(1) by (auto simp: next_plan_def well_planned_def aligned_def)
    ultimately show ?thesis
      using v joined_after_well_planned [OF assms(1) b w far] b(2)
      by (auto simp: next_plan_def of_window_def intro!: bexI [of _ "b\<lparr>pl_start := window_start data\<rparr>"])
  next
    case neither
    then have v: "i = new_id" "plans' = plans @ [new_plan new_id user n data]"
      using place_plan_value [OF placed] by auto
    then show ?thesis
      using well_planned_insert [OF assms(1) new_plan_aligned [OF w]] far assms(2) by (auto simp: of_window_def)
  next
    case (before a)
    have a: "a \<in> set plans" "previous_plan data a"
      using find_Some_in [OF before(2)] by auto
    have v: "i = pl_id a" "plans' = joined_before data a plans"
      using place_plan_value [OF placed] before by auto
    have "a\<lparr>pl_end := window_end data\<rparr> \<in> set plans'"
      unfolding v(2) joined_before_def set_update_plan_row [OF ids a(1)] by simp
    moreover have "pl_start a \<le> window_start data"
      using a assms(1) by (auto simp: previous_plan_def well_planned_def aligned_def)
    ultimately show ?thesis
      using v joined_before_well_planned [OF assms(1) a w far] a(2)
      by (auto simp: previous_plan_def of_window_def intro!: bexI [of _ "a\<lparr>pl_end := window_end data\<rparr>"])
  qed
qed

definition example_plan :: "string \<Rightarrow> time \<Rightarrow> time \<Rightarrow> plan" where
  "example_plan i s f = \<lparr>pl_item_type = ''gpus'', pl_item_id = ''card'', pl_id = i, pl_subitem_id = ''A40-4Q'', pl_units = 8,
     pl_start = s, pl_end = f, pl_user_id = ''adm''\<rparr>"

definition example_window :: plan_data where
  "example_window = \<lparr>da_item_type = ''gpus'', da_item_id = ''card'', da_subitem_id = ''A40-4Q'', da_start = 600, da_end = 900\<rparr>"

theorem gpu_plans_stay_apart_witness:
  "well_planned [example_plan ''a'' 0 899]"
proof -
  have "aligned (example_plan ''a'' 0 599)"
    by (auto simp: aligned_def example_plan_def intro!: exI [of _ 0] exI [of _ 2])
  then have wp: "well_planned [example_plan ''a'' 0 599]"
    by (simp add: well_planned_def)
  have run: "add_plan (\<lambda>a b c. Some 8) ''n'' ''adm'' example_window [example_plan ''a'' 0 599] = Inr (''a'', [example_plan ''a'' 0 899])"
    by code_simp
  have side: "''n'' \<notin> pl_id ` set [example_plan ''a'' 0 599]" "da_item_type example_window = ''gpus''"
      "\<not> (list_ex (previous_plan example_window) [example_plan ''a'' 0 599] \<and> list_ex (next_plan example_window) [example_plan ''a'' 0 599])"
    by code_simp+
  show ?thesis
    using gpu_plans_stay_apart [OF wp side(1,2) run side(3)] by blast
qed

text \<open>C38: closing the gap between two plans of one profile breaks that: both neighbours are stretched over the new window, so
  the card offers the profile twice there.\<close>

theorem gap_filled_twice:
  assumes "well_planned plans" "da_item_type data = ''gpus''" "add_plan gsu new_id user data plans = Inr (i, plans')"
    "a \<in> set plans" "previous_plan data a" "b \<in> set plans" "next_plan data b"
  shows "\<exists>x\<in>set plans'. \<exists>y\<in>set plans'. pl_id x \<noteq> pl_id y \<and> of_window data x \<and> of_window data y
     \<and> pl_start x \<le> window_start data \<and> window_end data \<le> pl_end x \<and> pl_start y \<le> window_start data \<and> window_end data \<le> pl_end y"
proof -
  obtain n where w: "window_start data \<le> window_end data"
      and placed: "place_plan False True True True (new_plan new_id user n data) plans = Inr (i, plans')"
    using add_gpu_plan_parts [OF assms(3,2)] by blast
  have ids: "distinct (map pl_id plans)"
    using assms(1) by (simp add: well_planned_def)
  obtain b' where fb: "List.find (next_plan data) plans = Some b'"
    using assms(6,7) by (cases "List.find (next_plan data) plans") (auto simp: find_None_iff)
  have b': "b' \<in> set plans" "next_plan data b'"
    using find_Some_in [OF fb] by auto
  have order: "pl_start e \<le> pl_end e" if "e \<in> set plans" for e
    using that assms(1) by (auto simp: well_planned_def aligned_def)
  have "a \<noteq> b'"
    using assms(5) b'(2) order [OF assms(4)] w by (auto simp: previous_plan_def next_plan_def)
  then have "a \<in> set (joined_after data b' plans)"
    unfolding joined_after_def set_update_plan_row [OF ids b'(1)] using assms(4) by simp
  then obtain a' where fa: "List.find (previous_plan data) (joined_after data b' plans) = Some a'"
    using assms(5) by (cases "List.find (previous_plan data) (joined_after data b' plans)") (auto simp: find_None_iff)
  have v: "plans' = joined_before data a' (joined_after data b' plans)"
    using place_plan_value [OF placed] fb fa by simp
  have a': "a' \<in> set (joined_after data b' plans)" "previous_plan data a'"
    using find_Some_in [OF fa] by auto
  have ids': "distinct (map pl_id (joined_after data b' plans))"
    unfolding joined_after_def using ids by (subst map_id_update_plan_row) simp_all
  let ?x = "a'\<lparr>pl_end := window_end data\<rparr>" and ?y = "b'\<lparr>pl_start := window_start data\<rparr>"
  have y: "?y \<in> set (joined_after data b' plans)"
    unfolding joined_after_def set_update_plan_row [OF ids b'(1)] by simp
  have late: "window_end data \<le> pl_end b'"
    using b' order [OF b'(1)] by (auto simp: next_plan_def)
  have diff: "a' \<noteq> ?y"
    using a'(2) late w by (auto simp: previous_plan_def)
  have a'_old: "a' \<in> set plans" "a' \<noteq> b'"
    using a'(1) diff unfolding joined_after_def set_update_plan_row [OF ids b'(1)] by auto
  have "pl_id a' \<noteq> pl_id b'"
    using a'_old b'(1) ids by (auto simp: distinct_map inj_on_def)
  moreover have "?x \<in> set plans'" "?y \<in> set plans'"
    unfolding v joined_before_def set_update_plan_row [OF ids' a'(1)] using y diff by auto
  moreover have "pl_start a' \<le> window_start data"
    using a'(2) order [OF a'_old(1)] by (auto simp: previous_plan_def)
  ultimately show ?thesis
    using late a'(2) b'(2) by (intro bexI [of _ ?x] bexI [of _ ?y]) (auto simp: previous_plan_def next_plan_def of_window_def)
qed

theorem gap_filled_twice_witness:
  "\<exists>x\<in>set [example_plan ''a'' 0 899, example_plan ''b'' 600 1199]. \<exists>y\<in>set [example_plan ''a'' 0 899, example_plan ''b'' 600 1199].
     pl_id x \<noteq> pl_id y \<and> of_window example_window x \<and> of_window example_window y
     \<and> pl_start x \<le> window_start example_window \<and> window_end example_window \<le> pl_end x
     \<and> pl_start y \<le> window_start example_window \<and> window_end example_window \<le> pl_end y"
proof -
  have "aligned (example_plan ''a'' 0 599)" "aligned (example_plan ''b'' 900 1199)"
    by (auto simp: aligned_def example_plan_def intro!: exI [of _ 0] exI [of _ 2] exI [of _ 3] exI [of _ 4])
  then have wp: "well_planned [example_plan ''a'' 0 599, example_plan ''b'' 900 1199]"
    by (simp add: well_planned_def apart_def) (simp add: example_plan_def)
  have run: "add_plan (\<lambda>a b c. Some 8) ''n'' ''adm'' example_window [example_plan ''a'' 0 599, example_plan ''b'' 900 1199]
      = Inr (''a'', [example_plan ''a'' 0 899, example_plan ''b'' 600 1199])"
    by code_simp
  have side: "da_item_type example_window = ''gpus''" "previous_plan example_window (example_plan ''a'' 0 599)"
      "next_plan example_window (example_plan ''b'' 900 1199)"
    by code_simp+
  show ?thesis
    using gap_filled_twice [OF wp side(1) run, of "example_plan ''a'' 0 599" "example_plan ''b'' 900 1199"] side by simp
qed

section \<open>Updating and deleting\<close>

lemma ceil_dt_of_mark: "ceil_dt (300 * of_int k) = 300 * of_int k"
  by (simp add: ceil_dt_def ROUND_SECONDS_def)

lemma ceil_dt_of_end: "ceil_dt (300 * of_int m - 1) = 300 * of_int m"
proof -
  have "\<lceil>(300 * of_int m - 1) / 300 :: rat\<rceil> = m"
    by (rule ceiling_unique) (simp_all add: field_simps)
  then show ?thesis
    by (simp add: ceil_dt_def ROUND_SECONDS_def)
qed

text \<open>
  An update adds the stored row again instead of the new window, and the row conflicts with itself: no
  update of a GPU plan succeeds, whatever the new window.
\<close>

lemma update_plan_conflicts:
  assumes "well_planned plans" "p \<in> set plans" "pl_item_type p = ''gpus''"
    "gsu (pl_item_type p) (pl_item_id p) (pl_subitem_id p) = Some n"
  shows "snd (update_plan gsu new_id user (pl_id p) start fin plans bookings) = Inl Conflict"
proof -
  have found: "List.find (\<lambda>q. pl_id q = pl_id p) plans = Some p"
  proof -
    have "List.find (\<lambda>q. pl_id q = pl_id p) xs = Some p" if "distinct (map pl_id xs)" "p \<in> set xs" for xs
      using that by (induction xs) force+
    then show ?thesis using assms(1,2) by (simp add: well_planned_def)
  qed
  obtain k m where km: "pl_start p = 300 * of_int k" "pl_end p = 300 * of_int m - 1" "pl_start p \<le> pl_end p"
    using assms(1,2) by (auto simp: well_planned_def aligned_def)
  have again: "ceil_dt (pl_start p) = pl_start p" "ceil_dt (pl_end p) - 1 = pl_end p"
    by (simp_all only: km(1,2) ceil_dt_of_mark ceil_dt_of_end)
  have "list_ex (\<lambda>e. pl_item_id e = pl_item_id p \<and> plan_overlaps q e) plans" if "pl_start q = pl_start p" "pl_end q = pl_end p" for q
    using assms(2) that by (auto simp: list_ex_iff plan_overlaps_def intro!: bexI [of _ p])
  then show ?thesis
    using km(3) assms(3,4)
    by (simp add: update_plan_def Let_def found add_plan_def again planning_item_can_overlap_def planning_subitem_can_overlap_def
          planning_subitem_join_before_def planning_subitem_join_after_def place_plan_def check_plan_item_id_overlapped_def)
qed

lemma delete_plan_forgets:
  assumes "delete_plan plan_id plans bookings = Inr (plans', bookings')"
  shows "plan_id \<notin> pl_id ` set plans' \<and> (\<forall>b\<in>set bookings'. \<not> in_plan plan_id b)"
  using assms by (auto simp: delete_plan_def split: if_splits)

text \<open>Disabling a profile on one card leaves no booking of a removed plan and no booking without a plan that had one.\<close>

lemma delete_card_subitem_plans_clean:
  assumes "delete_card_subitem_plans item sub plans bookings = (n, plans', bookings')"
    "\<forall>b\<in>set bookings. bk_plans b \<noteq> []"
  shows "(\<forall>p\<in>set plans'. \<not> (pl_item_id p = item \<and> pl_subitem_id p = sub))
     \<and> (\<forall>b\<in>set bookings'. bk_plans b \<noteq> [] \<and> (\<forall>x\<in>set (bk_plans b). bp_plan_id x \<notin> pl_id ` {p \<in> set plans. pl_item_id p = item \<and> pl_subitem_id p = sub}))"
  using assms
  by (auto simp: delete_card_subitem_plans_def Let_def list_ex_iff filter_empty_conv image_iff split: if_splits) blast+

end
