(* ===== verification/Booking_Capacity.thy ===== *)
theory Booking_Capacity
  imports Booking_Plans
begin

text \<open>
  How much of a profile is left at an instant, and whether a booking fits:
  \<open>lib/bookings/reservables_planner_compute.py\<close>, with \<open>new_booking_plans\<close> of \<open>reservables_planner.py\<close> and \<open>add\<close>
  of \<open>bookings.py\<close>. The dictionaries over time intervals come from the library \<open>portion\<close>, whose
  operations are the record \<open>interval_lib\<close>; the locale \<open>interval_library\<close> states its documented behaviour: such
  a dictionary is a partial function of time, \<open>combine\<close> works point by point, and the atomic intervals
  cover exactly its domain. The rows of the database are arguments.
\<close>

section \<open>Dictionaries over intervals\<close>

record atom =
  at_lower :: time
  at_left_closed :: bool
  at_upper :: time
  at_right_closed :: bool

definition in_atom :: "atom \<Rightarrow> time \<Rightarrow> bool" where
  "in_atom a t \<longleftrightarrow> (if at_left_closed a then at_lower a \<le> t else at_lower a < t)
     \<and> (if at_right_closed a then t \<le> at_upper a else t < at_upper a)"

record ('d, 'v) interval_lib =
  il_empty :: 'd
  il_closed :: "time \<Rightarrow> time \<Rightarrow> 'v \<Rightarrow> 'd"
  il_closedopen :: "time \<Rightarrow> time \<Rightarrow> 'v \<Rightarrow> 'd"
  il_combine :: "('v \<Rightarrow> 'v \<Rightarrow> 'v) \<Rightarrow> 'd \<Rightarrow> 'd \<Rightarrow> 'd"
  il_put :: "'d \<Rightarrow> time \<Rightarrow> time \<Rightarrow> 'v \<Rightarrow> 'd"
  il_atoms :: "'d \<Rightarrow> (atom \<times> 'v) list"

definition sorted_atomic_items :: "('d, 'v) interval_lib \<Rightarrow> 'd \<Rightarrow> (atom \<times> 'v) list" where
  "sorted_atomic_items L d = sort_key (\<lambda>av. at_lower (fst av)) (il_atoms L d)"

text \<open>The loop every routine runs: one closed interval after the other, combined by \<open>join_plan_op\<close>.\<close>

definition accumulate :: "('d, 'v) interval_lib \<Rightarrow> ('v \<Rightarrow> 'v \<Rightarrow> 'v) \<Rightarrow> 'd \<Rightarrow> (time \<times> time \<times> 'v) list \<Rightarrow> 'd" where
  "accumulate L join_plan_op d ivs =
     foldl (\<lambda>d iv. il_combine L join_plan_op d (il_closed L (fst iv) (fst (snd iv)) (snd (snd iv)))) d ivs"

definition convert_plans_to_portions :: "('d, 'v) interval_lib \<Rightarrow> (time \<times> time \<times> 'v) list \<Rightarrow> 'd" where
  "convert_plans_to_portions L plans =
     foldl (\<lambda>d iv. il_put L d (fst iv) (fst (snd iv)) (snd (snd iv))) (il_empty L) plans"

section \<open>Availability of profiles\<close>

text \<open>An event of the planner's answer. \<open>ev_units\<close> is \<open>None\<close> for the word \<open>Enough\<close>; an event without its own id has the empty one.\<close>

record event =
  ev_start :: time
  ev_end :: time
  ev_units :: "int option"
  ev_ids :: "string list"
  ev_id :: string
  ev_type :: string
  ev_subitem :: string

type_synonym units_id = "int \<times> string"

definition join_ids :: "string \<Rightarrow> string \<Rightarrow> string" where
  "join_ids x y = x @ ''/'' @ y"

definition atom_event :: "atom \<Rightarrow> int \<Rightarrow> string \<Rightarrow> string \<Rightarrow> string \<Rightarrow> event" where
  "atom_event a units joined i ty =
     \<lparr>ev_start = at_lower a, ev_end = at_upper a, ev_units = Some units, ev_ids = split_on (CHR ''/'') joined,
      ev_id = i, ev_type = ty, ev_subitem = []\<rparr>"

definition get_subitems_planning :: "plan list \<Rightarrow> string list \<Rightarrow> time \<Rightarrow> plan list" where
  "get_subitems_planning plans subitems start =
     filter (\<lambda>p. pl_subitem_id p \<in> set subitems \<and> pl_end p > start) plans"

definition intersect_same_subitem_plan :: "('d, units_id) interval_lib \<Rightarrow> plan list \<Rightarrow> string \<Rightarrow> bool \<Rightarrow> event list" where
  "intersect_same_subitem_plan L plans plan_name keep_non_overlapped =
     (let op = (\<lambda>x y. (fst x + fst y, join_ids (snd x) (snd y)));
          items = sorted_atomic_items L (accumulate L op (il_empty L) (map (\<lambda>p. (pl_start p, pl_end p, pl_units p, pl_id p)) plans))
      in map (\<lambda>(a, u, i). atom_event a u i plan_name ''available'')
           (filter (\<lambda>(a, u, i). keep_non_overlapped \<or> length (split_on (CHR ''/'') i) > 1) items))"

type_synonym multi_value = "int \<times> string \<times> string list"

definition union_strings :: "string list \<Rightarrow> string list \<Rightarrow> string list" where
  "union_strings xs ys = xs @ filter (\<lambda>y. y \<notin> set xs) ys"

definition intersect_different_subitem_plan ::
  "('d, multi_value) interval_lib \<Rightarrow> event list \<Rightarrow> bool \<Rightarrow> nat option \<Rightarrow> event list" where
  "intersect_different_subitem_plan L evs keep_non_overlapped expected_subitems =
     (let op = (\<lambda>x y. (min (fst x) (fst y), join_ids (fst (snd x)) (fst (snd y)), union_strings (snd (snd x)) (snd (snd y))));
          items = sorted_atomic_items L (accumulate L op (il_empty L)
                    (map (\<lambda>e. (ev_start e, ev_end e, the (ev_units e), ev_id e,
                               if ev_subitem e \<noteq> [] then [ev_subitem e] else [])) evs));
          all_profiles_present = (\<lambda>v. case expected_subitems of
                                        Some n \<Rightarrow> length (snd (snd v)) \<ge> n
                                      | None \<Rightarrow> length (split_on (CHR ''/'') (fst (snd v))) > 1)
      in if keep_non_overlapped then map (\<lambda>(a, v). atom_event a (fst v) (fst (snd v)) [] ''available'') items
         else map (\<lambda>(a, v). atom_event a (fst v) (fst (snd v)) (fst (snd v)) ''available'')
                (filter (\<lambda>(a, v). all_profiles_present v) items))"

text \<open>What is left of the plans once the bookings are taken off.\<close>

record availability =
  av_id :: string
  av_units :: int
  av_nonoverridable :: int
  av_overridable :: int

definition free_units :: "availability \<Rightarrow> int" where
  "free_units v = av_units v - av_nonoverridable v"

definition event_type_of :: "int \<Rightarrow> availability \<Rightarrow> string" where
  "event_type_of units v =
     (if free_units v < units then ''unavailable''
      else if free_units v - av_overridable v < units then ''overridable''
      else ''available'')"

definition booking_value :: "booking \<Rightarrow> time \<times> time \<times> availability" where
  "booking_value b = (bk_start b, bk_end b, \<lparr>av_id = bk_id b, av_units = bk_units b, av_nonoverridable = 0, av_overridable = 0\<rparr>)"

definition nonoverridable_op :: "availability \<Rightarrow> availability \<Rightarrow> availability" where
  "nonoverridable_op x y = x\<lparr>av_id := join_ids (av_id x) (av_id y), av_nonoverridable := av_nonoverridable x + av_units y\<rparr>"

definition overridable_op :: "availability \<Rightarrow> availability \<Rightarrow> availability" where
  "overridable_op x y = x\<lparr>av_id := join_ids (av_id x) (av_id y), av_overridable := av_overridable x + av_units y\<rparr>"

definition compute_overridable_bookings ::
  "('d, availability) interval_lib \<Rightarrow> booking list \<Rightarrow> booking list \<Rightarrow> event list \<Rightarrow> int \<Rightarrow> event list" where
  "compute_overridable_bookings L overridable nonoverridable evs units =
     (let plans = convert_plans_to_portions L
            (map (\<lambda>e. (ev_start e, ev_end e,
                       \<lparr>av_id = ev_id e, av_units = the (ev_units e), av_nonoverridable = 0, av_overridable = 0\<rparr>)) evs);
          plans = accumulate L nonoverridable_op plans (map booking_value nonoverridable);
          plans = accumulate L overridable_op plans (map booking_value overridable);
          items = sort_key (\<lambda>av. at_lower (fst av)) (sort_key (\<lambda>av. if at_left_closed (fst av) then 0 else 1 :: nat) (il_atoms L plans))
      in map (\<lambda>(a, v). atom_event a (free_units v) (av_id v) [] (event_type_of units v)) items)"

text \<open>An interval where the item already holds a booking loses its event; the others answer with the event of their plan.\<close>

definition remove_existing_item_bookings :: "('d, event option) interval_lib \<Rightarrow> event list \<Rightarrow> booking list \<Rightarrow> event list" where
  "remove_existing_item_bookings L evs bookings =
     (let plans = convert_plans_to_portions L (map (\<lambda>e. (ev_start e, ev_end e, Some e)) evs);
          plans = accumulate L (\<lambda>x y. None) plans (map (\<lambda>b. (bk_start b, bk_end b, None)) bookings)
      in List.map_filter snd (sorted_atomic_items L plans))"

definition join_consecutive_plans :: "('d, string) interval_lib \<Rightarrow> event list \<Rightarrow> event list" where
  "join_consecutive_plans L evs =
     (let op = (\<lambda>x y. if x = y then x else y);
          d = foldl (\<lambda>d e. il_combine L op d (il_closedopen L (ev_start e) (ev_end e) (ev_type e))) (il_empty L) evs
      in map (\<lambda>(a, ty). \<lparr>ev_start = at_lower a, ev_end = at_upper a, ev_units = (if ty = ''unavailable'' then Some (-1) else None),
                          ev_ids = [''available''], ev_id = ''available'', ev_type = ty, ev_subitem = []\<rparr>)
           (sorted_atomic_items L d))"

section \<open>Priorities\<close>

record priority_rule =
  ru_rule_id :: string
  ru_priority :: int
  ru_forbid_time :: int
  ru_max_time :: int
  ru_max_items :: int
  ru_allowed :: allowed

text \<open>The limits of one profile for a user; the hard-coded default has no maxima.\<close>

record limits =
  lm_forbid_time :: int
  lm_max_time :: "int option"
  lm_max_items :: "int option"

fun axis_matches :: "axis \<Rightarrow> string \<Rightarrow> bool access" where
  "axis_matches Missing x = Inl (Crash ''KeyError'')"
| "axis_matches Off x = Inr False"
| "axis_matches On x = Inl (Crash ''TypeError'')"
| "axis_matches Null x = Inl (Crash ''TypeError'')"
| "axis_matches (Listed xs) x = Inr (xs = [] \<or> x \<in> set xs)"

fun first_match :: "(allowed \<Rightarrow> axis) \<Rightarrow> string \<Rightarrow> priority_rule list \<Rightarrow> priority_rule option access" where
  "first_match f x [] = Inr None"
| "first_match f x (ru # rules) =
     (case axis_matches (f (ru_allowed ru)) x of
        Inl e \<Rightarrow> Inl e
      | Inr ok \<Rightarrow> if ok then Inr (Some ru) else first_match f x rules)"

definition or_match :: "priority_rule option access \<Rightarrow> priority_rule option access \<Rightarrow> priority_rule option access" where
  "or_match a b = (case a of Inl e \<Rightarrow> Inl e | Inr (Some ru) \<Rightarrow> Inr (Some ru) | Inr None \<Rightarrow> b)"

definition user_matches_priority_rule :: "payload \<Rightarrow> priority_rule list \<Rightarrow> priority_rule option access" where
  "user_matches_priority_rule p rules =
     or_match (if rules = [] then Inr None else with_user p (\<lambda>u. first_match al_users u rules))
       (or_match (first_match al_groups (p_group_id p) rules)
         (or_match (first_match al_categories (p_category_id p) rules)
           (first_match al_roles (p_role_id p) rules)))"

definition rules_of :: "priority_rule list \<Rightarrow> string \<Rightarrow> priority_rule list" where
  "rules_of rules rule_id = sort_key (\<lambda>ru. - ru_priority ru) (filter (\<lambda>ru. ru_rule_id ru = rule_id) rules)"

definition rule_limits :: "priority_rule \<Rightarrow> int \<times> limits" where
  "rule_limits ru = (ru_priority ru, \<lparr>lm_forbid_time = ru_forbid_time ru, lm_max_time = Some (ru_max_time ru), lm_max_items = Some (ru_max_items ru)\<rparr>)"

definition get_user_default_priority :: "priority_rule list \<Rightarrow> payload \<Rightarrow> (int \<times> limits) access" where
  "get_user_default_priority rules p =
     (case user_matches_priority_rule p (rules_of rules ''default'') of
        Inl e \<Rightarrow> Inl e
      | Inr None \<Rightarrow> Inr (0, \<lparr>lm_forbid_time = 0, lm_max_time = None, lm_max_items = None\<rparr>)
      | Inr (Some ru) \<Rightarrow> Inr (rule_limits ru))"

fun min_limit :: "int option \<Rightarrow> int option \<Rightarrow> int option access" where
  "min_limit (Some a) (Some b) = Inr (Some (min a b))"
| "min_limit _ _ = Inl (Crash ''TypeError'')"

definition most_restrictive_rule :: "limits \<Rightarrow> limits option \<Rightarrow> limits access" where
  "most_restrictive_rule new old =
     (case old of
        None \<Rightarrow> Inr new
      | Some o' \<Rightarrow>
          (case (min_limit (lm_max_time new) (lm_max_time o'), min_limit (lm_max_items new) (lm_max_items o')) of
             (Inr mt, Inr mi) \<Rightarrow> Inr \<lparr>lm_forbid_time = min (lm_forbid_time new) (lm_forbid_time o'), lm_max_time = mt, lm_max_items = mi\<rparr>
           | _ \<Rightarrow> Inl (Crash ''TypeError'')))"

type_synonym user_priority = "(string \<times> int) list \<times> limits option"

definition subitem_priority :: "priority_rule list \<Rightarrow> payload \<Rightarrow> string option \<Rightarrow> (int \<times> limits) access" where
  "subitem_priority rules p priority_id =
     (case user_matches_priority_rule p (rules_of rules (if truthy_str priority_id then the priority_id else ''default'')) of
        Inl e \<Rightarrow> Inl e
      | Inr (Some ru) \<Rightarrow> Inr (rule_limits ru)
      | Inr None \<Rightarrow> get_user_default_priority rules p)"

fun priority_loop :: "(string \<Rightarrow> string \<Rightarrow> string option) \<Rightarrow> priority_rule list \<Rightarrow> payload \<Rightarrow> (string \<times> string) list \<Rightarrow> user_priority
     \<Rightarrow> user_priority access" where
  "priority_loop pid rules p [] acc = Inr acc"
| "priority_loop pid rules p ((k, s) # rest) acc =
     (case subitem_priority rules p (pid k s) of
        Inl e \<Rightarrow> Inl e
      | Inr (pr, new) \<Rightarrow>
          (case most_restrictive_rule new (snd acc) of
             Inl e \<Rightarrow> Inl e
           | Inr new' \<Rightarrow> priority_loop pid rules p rest (alist_set s pr (fst acc), Some new')))"

definition requested_subitems :: "(string \<times> string list option) list \<Rightarrow> (string \<times> string) list" where
  "requested_subitems reservables =
     concat (map (\<lambda>(k, v). case v of None \<Rightarrow> [] | Some ss \<Rightarrow> map (\<lambda>s. (k, s)) ss) reservables)"

definition payload_priority ::
  "(string \<Rightarrow> string \<Rightarrow> string option) \<Rightarrow> priority_rule list \<Rightarrow> payload \<Rightarrow> (string \<times> string list option) list \<Rightarrow> user_priority access" where
  "payload_priority priority_id rules p reservables =
     priority_loop priority_id rules p (requested_subitems reservables) ([], None)"

section \<open>Bookings that compete\<close>

text \<open>A bound of the window as a route gives it: none, a text in the expected format or not, or a time object.\<close>

datatype bound = No_bound | Text "time option" | Time_object time

fun parse_booking_window_bound :: "bound \<Rightarrow> time option access" where
  "parse_booking_window_bound No_bound = Inr None"
| "parse_booking_window_bound (Text None) = Inl (Crash ''ValueError'')"
| "parse_booking_window_bound (Text (Some t)) = Inr (Some t)"
| "parse_booking_window_bound (Time_object t) = Inl (Crash ''TypeError'')"

text \<open>The index of the bookings table holds the whole list of profiles of a booking, so a lookup of one profile finds
  the bookings of that profile alone.\<close>

definition competes ::
  "(int \<Rightarrow> int \<Rightarrow> bool) \<Rightarrow> string \<Rightarrow> string \<Rightarrow> int \<Rightarrow> time option \<Rightarrow> time option \<Rightarrow> string option \<Rightarrow> booking \<Rightarrow> bool" where
  "competes rel k subitem priority from_bound to_bound skip b \<longleftrightarrow>
     map_of (bk_reservables b) k = Some (Some [subitem])
     \<and> (case to_bound of None \<Rightarrow> True | Some t \<Rightarrow> bk_start b \<le> t)
     \<and> (case from_bound of None \<Rightarrow> True | Some t \<Rightarrow> bk_end b \<ge> t)
     \<and> (truthy_str skip \<longrightarrow> bk_id b \<noteq> the skip)
     \<and> list_ex (\<lambda>x. rel (bp_priority x) priority) (bk_plans b)"

fun competing ::
  "(int \<Rightarrow> int \<Rightarrow> bool) \<Rightarrow> (string \<times> int) list \<Rightarrow> time option \<Rightarrow> time option \<Rightarrow> string option \<Rightarrow> booking list
     \<Rightarrow> (string \<times> string list option) list \<Rightarrow> booking list access" where
  "competing rel pr f t skip bookings [] = Inr []"
| "competing rel pr f t skip bookings ((k, None) # rest) = Inl (Crash ''TypeError'')"
| "competing rel pr f t skip bookings ((k, Some []) # rest) = competing rel pr f t skip bookings rest"
| "competing rel pr f t skip bookings ((k, Some (s # ss)) # rest) =
     (case map_of pr s of
        None \<Rightarrow> Inl (Crash ''KeyError'')
      | Some q \<Rightarrow>
          (case competing rel pr f t skip bookings ((k, Some ss) # rest) of
             Inl e \<Rightarrow> Inl e
           | Inr bs \<Rightarrow> Inr (filter (competes rel k s q f t skip) bookings @ bs)))"

definition get_competing_bookings ::
  "(int \<Rightarrow> int \<Rightarrow> bool) \<Rightarrow> booking list \<Rightarrow> (string \<times> int) list \<Rightarrow> (string \<times> string list option) list \<Rightarrow> bound \<Rightarrow> bound
     \<Rightarrow> string option \<Rightarrow> booking list access" where
  "get_competing_bookings rel bookings pr reservables from_date to_date skip =
     (case parse_booking_window_bound to_date of
        Inl e \<Rightarrow> Inl e
      | Inr t \<Rightarrow>
          (case parse_booking_window_bound from_date of
             Inl e \<Rightarrow> Inl e
           | Inr f \<Rightarrow> competing rel pr f t skip bookings reservables))"

definition get_overridable_bookings ::
  "booking list \<Rightarrow> (string \<times> int) list \<Rightarrow> (string \<times> string list option) list \<Rightarrow> bound \<Rightarrow> bound \<Rightarrow> string option \<Rightarrow> booking list access" where
  "get_overridable_bookings = get_competing_bookings (\<lambda>a b. a < b)"

definition get_nonoverridable_bookings ::
  "booking list \<Rightarrow> (string \<times> int) list \<Rightarrow> (string \<times> string list option) list \<Rightarrow> bound \<Rightarrow> bound \<Rightarrow> string option \<Rightarrow> booking list access" where
  "get_nonoverridable_bookings = get_competing_bookings (\<lambda>a b. a \<ge> b)"

section \<open>Placing a booking\<close>

definition booked_units :: "booking \<Rightarrow> booked_plan \<Rightarrow> int" where
  "booked_units b x = (case bp_units_booked x of None \<Rightarrow> bk_units b | Some n \<Rightarrow> if n = 0 then bk_units b else n)"

definition blocks :: "string \<Rightarrow> string \<Rightarrow> int \<Rightarrow> time \<Rightarrow> time \<Rightarrow> booking \<Rightarrow> bool" where
  "blocks plan_id subitem_id priority start fin b \<longleftrightarrow>
     (case map_of (bk_reservables b) ''vgpus'' of Some (Some ss) \<Rightarrow> subitem_id \<in> set ss | _ \<Rightarrow> False)
     \<and> bk_start b \<le> fin \<and> bk_end b \<ge> start
     \<and> list_ex (\<lambda>x. bp_plan_id x = plan_id) (bk_plans b) \<and> list_ex (\<lambda>x. bp_priority x \<ge> priority) (bk_plans b)"

definition held_intervals :: "string \<Rightarrow> booking list \<Rightarrow> (time \<times> time \<times> units_id) list" where
  "held_intervals plan_id bookings =
     concat (map (\<lambda>b. map (\<lambda>x. (bk_start b, bk_end b, booked_units b x, bp_plan_id x))
                        (filter (\<lambda>x. bp_plan_id x = plan_id) (bk_plans b))) bookings)"

definition count_non_overridable_bookings ::
  "('d, units_id) interval_lib \<Rightarrow> booking list \<Rightarrow> string \<Rightarrow> string \<Rightarrow> int \<Rightarrow> time \<Rightarrow> time \<Rightarrow> int" where
  "count_non_overridable_bookings L table plan_id subitem_id priority start fin =
     (let bookings = filter (blocks plan_id subitem_id priority start fin) table
      in if bookings = [] then 0
         else (let op = (\<lambda>x y. (fst x + fst y, join_ids (snd x) (snd y)));
                   items = sorted_atomic_items L (accumulate L op (il_empty L) (held_intervals plan_id bookings))
               in (case map (\<lambda>av. fst (snd av)) items of [] \<Rightarrow> 0 | n # ns \<Rightarrow> foldl max n ns)))"

text \<open>A deployment takes what is free plan after plan; a desktop takes the first plan with a free unit.\<close>

fun assign_units :: "(plan \<Rightarrow> int) \<Rightarrow> int \<Rightarrow> plan list \<Rightarrow> (plan \<times> int) list \<Rightarrow> int \<times> (plan \<times> int) list" where
  "assign_units held remaining [] acc = (remaining, acc)"
| "assign_units held remaining (p # ps) acc =
     (let avail = pl_units p - held p
      in if avail > 0
         then (if remaining - avail > 0 then assign_units held (remaining - avail) ps (acc @ [(p, avail)])
               else (0, acc @ [(p, remaining)]))
         else assign_units held remaining ps acc)"

definition get_same_plans_for_booking ::
  "('d, units_id) interval_lib \<Rightarrow> booking list \<Rightarrow> plan list \<Rightarrow> string \<Rightarrow> int \<Rightarrow> time \<Rightarrow> time \<Rightarrow> int \<Rightarrow> (plan \<times> int) list" where
  "get_same_plans_for_booking L table plans subitem_id priority booking_start booking_end units =
     (let fitting = filter (\<lambda>p. booking_start > booking_end \<or> (pl_start p \<le> booking_start \<and> booking_end \<le> pl_end p)) plans;
          held = (\<lambda>p. count_non_overridable_bookings L table (pl_id p) subitem_id priority booking_start booking_end)
      in if units > 1
         then (case assign_units held units fitting [] of (remaining, acc) \<Rightarrow> if remaining > 0 then [] else acc)
         else (case List.find (\<lambda>p. pl_units p - 1 - held p \<ge> 0) fitting of None \<Rightarrow> [] | Some p \<Rightarrow> [(p, 1)]))"

fun plans_per_subitem ::
  "('d, units_id) interval_lib \<Rightarrow> booking list \<Rightarrow> plan list \<Rightarrow> time \<Rightarrow> (string \<times> int) list \<Rightarrow> time \<Rightarrow> time \<Rightarrow> int \<Rightarrow> string list
     \<Rightarrow> (string \<times> (plan \<times> int) list) list \<Rightarrow> (string \<times> (plan \<times> int) list) list access" where
  "plans_per_subitem L table plans now pr start fin units [] acc = Inr acc"
| "plans_per_subitem L table plans now pr start fin units (s # ss) acc =
     (case map_of pr s of
        None \<Rightarrow> Inl (Crash ''KeyError'')
      | Some q \<Rightarrow>
          plans_per_subitem L table plans now pr start fin units ss
            (alist_set s (get_same_plans_for_booking L table (get_subitems_planning plans [s] now) s q start fin units) acc))"

definition new_booking_plans ::
  "('d, units_id) interval_lib \<Rightarrow> booking list \<Rightarrow> plan list \<Rightarrow> time \<Rightarrow> (string \<times> int) list \<Rightarrow> (string \<times> string list option) list
     \<Rightarrow> int \<Rightarrow> time \<Rightarrow> time \<Rightarrow> (string \<times> (plan \<times> int) list) list access" where
  "new_booking_plans L table plans now pr reservables units start fin =
     (case plans_per_subitem L table plans now pr start fin units (map snd (requested_subitems reservables)) [] of
        Inl e \<Rightarrow> Inl e
      | Inr found \<Rightarrow>
          (let non_empty = filter (\<lambda>kv. snd kv \<noteq> []) found;
               chosen = map (\<lambda>pn. pl_item_id (fst pn)) (concat (map snd non_empty))
           in Inr (if length non_empty \<noteq> length (requested_subitems reservables) then []
                   else if length (remdups chosen) \<noteq> length chosen then []
                   else non_empty)))"

section \<open>The answer of the planner\<close>

text \<open>
  \<open>visible\<close> keeps the plans of the cards the requester draws from, and \<open>own_bookings\<close> is the query for the bookings an
  item already has in the window.
\<close>

definition requester_of :: "payload \<Rightarrow> requester" where
  "requester_of p = \<lparr>rq_role_id = p_role_id p, rq_category_id = Some (p_category_id p)\<rparr>"

definition visible_plans :: "(string \<Rightarrow> json option) \<Rightarrow> gpu_row list \<Rightarrow> payload \<Rightarrow> plan list \<Rightarrow> plan list" where
  "visible_plans categories gpus p plans = filter_gpu_plans_by_category categories gpus plans (Some (requester_of p))"

record ('a, 'b, 'c, 'd, 'e) planner_libs =
  lib_same :: "('a, units_id) interval_lib"
  lib_different :: "('b, multi_value) interval_lib"
  lib_free :: "('c, availability) interval_lib"
  lib_existing :: "('d, event option) interval_lib"
  lib_join :: "('e, string) interval_lib"

definition planner_of_subitems ::
  "('a, 'b, 'c, 'd, 'e) planner_libs \<Rightarrow> (plan list \<Rightarrow> plan list) \<Rightarrow> plan list \<Rightarrow> time \<Rightarrow> string list \<Rightarrow> (string \<times> event list) list" where
  "planner_of_subitems Ls visible plans now subitems =
     foldl (\<lambda>acc s. alist_set s (intersect_same_subitem_plan (lib_same Ls) (visible (get_subitems_planning plans [s] now)) s True) acc)
       [] subitems"

definition booking_provisioning ::
  "('a, 'b, 'c, 'd, 'e) planner_libs \<Rightarrow> (plan list \<Rightarrow> plan list) \<Rightarrow> (string \<Rightarrow> booking list) \<Rightarrow> plan list \<Rightarrow> booking list \<Rightarrow> time \<Rightarrow> (string \<times> string) option
     \<Rightarrow> (string \<times> string list option) list \<Rightarrow> int \<Rightarrow> (string \<times> int) list \<Rightarrow> bound \<Rightarrow> bound \<Rightarrow> string option \<Rightarrow> event list access" where
  "booking_provisioning Ls visible own_bookings plans table now itm subitems units pr from_date to_date skip =
     (let planner = planner_of_subitems Ls visible plans now (map snd (requested_subitems subitems))
      in case (if length planner > 1
               then Inr (intersect_different_subitem_plan (lib_different Ls)
                           (concat (map (\<lambda>(s, evs). map (\<lambda>e. e\<lparr>ev_subitem := s\<rparr>) evs) planner)) False (Some (length planner)))
               else (case planner of [] \<Rightarrow> Inl (Crash ''IndexError'') | (s, evs) # _ \<Rightarrow> Inr evs)) of
           Inl e \<Rightarrow> Inl e
         | Inr evs \<Rightarrow>
             (case get_overridable_bookings table pr subitems from_date to_date skip of
                Inl e \<Rightarrow> Inl e
              | Inr overridable \<Rightarrow>
                  (case get_nonoverridable_bookings table pr subitems from_date to_date skip of
                     Inl e \<Rightarrow> Inl e
                   | Inr nonoverridable \<Rightarrow>
                       (let evs = compute_overridable_bookings (lib_free Ls) overridable nonoverridable evs units;
                            evs = (case itm of
                                     None \<Rightarrow> evs
                                   | Some (ty, i) \<Rightarrow>
                                       if i \<noteq> [] \<and> ty \<noteq> []
                                       then remove_existing_item_bookings (lib_existing Ls) evs (own_bookings i)
                                       else evs)
                        in Inr (join_consecutive_plans (lib_join Ls) evs)))))"

section \<open>Adding a booking\<close>

definition get_total_user_bookings_count :: "booking list \<Rightarrow> string \<Rightarrow> time \<Rightarrow> int" where
  "get_total_user_bookings_count table user_id now = int (length (filter (\<lambda>b. bk_user_id b = user_id \<and> bk_start b > now) table))"

definition MAX_BOOKING_TIME :: int where
  "MAX_BOOKING_TIME = 12 * 60"

definition priority_minutes :: "payload \<Rightarrow> limits \<Rightarrow> int" where
  "priority_minutes p l =
     (let max_time = (case lm_max_time l of None \<Rightarrow> 0 | Some m \<Rightarrow> m)
      in if p_role_id p = ''admin'' then max_time else min (lm_forbid_time l) max_time)"

definition get_start_now_max_minutes :: "payload \<Rightarrow> limits \<Rightarrow> limits option \<Rightarrow> int" where
  "get_start_now_max_minutes p user_priority profile_priority =
     (if lm_max_time user_priority = None \<or> lm_max_time user_priority = Some 0 then 0
      else (let m = priority_minutes p user_priority;
                m = (case profile_priority of None \<Rightarrow> m | Some l \<Rightarrow> max m (priority_minutes p l))
            in min m MAX_BOOKING_TIME))"

record booking_world =
  bw_tables :: tables
  bw_plans :: "plan list"
  bw_bookings :: "booking list"
  bw_desktop_booking :: "string \<Rightarrow> string option"

text \<open>What a request brings: \<open>None\<close> for a date that does not parse. The profile limits of a booking that starts now are given.\<close>

record booking_request =
  rq_start :: "time option"
  rq_end :: "time option"
  rq_item_type :: string
  rq_item_id :: string
  rq_now :: bool

definition owns_booked_item :: "tables \<Rightarrow> payload \<Rightarrow> string \<Rightarrow> string \<Rightarrow> bool access" where
  "owns_booked_item db p item_type item_id =
     (if item_type = ''deployment'' then owns_deployment_id db p item_id True else owns_domain_id db p item_id)"

definition booking_row ::
  "string \<Rightarrow> string \<Rightarrow> booking_request \<Rightarrow> int \<Rightarrow> (string \<times> string list option) list \<Rightarrow> time \<Rightarrow> time \<Rightarrow> (string \<times> int) list
     \<Rightarrow> (string \<times> (plan \<times> int) list) list \<Rightarrow> booking" where
  "booking_row new_id user_id req units reservables start fin pr found =
     \<lparr>bk_id = new_id, bk_item_id = rq_item_id req, bk_item_type = rq_item_type req, bk_units = units,
      bk_reservables = reservables, bk_start = start, bk_end = fin, bk_user_id = user_id,
      bk_plans = map (\<lambda>(p, n). \<lparr>bp_plan_id = pl_id p, bp_item_id = pl_item_id p, bp_subitem_id = pl_subitem_id p,
                                bp_priority = the (map_of pr (pl_subitem_id p)), bp_units_booked = Some n\<rparr>)
                   (concat (map snd found))\<rparr>"

definition too_long :: "payload \<Rightarrow> booking_request \<Rightarrow> (string \<times> string list option) list \<Rightarrow> limits \<Rightarrow> limits option \<Rightarrow> time \<Rightarrow> time \<Rightarrow> bool" where
  "too_long p req reservables user_limits profile_limits now fin \<longleftrightarrow>
     rq_now req \<and> reservables \<noteq> []
     \<and> fin > now + 60 * of_int (get_start_now_max_minutes p user_limits profile_limits + 1)"

definition add_booking ::
  "('d, units_id) interval_lib \<Rightarrow> (string \<Rightarrow> string \<Rightarrow> ((string \<times> string list option) list \<times> int) access)
     \<Rightarrow> (string \<Rightarrow> string \<Rightarrow> string option) \<Rightarrow> priority_rule list \<Rightarrow> limits option \<Rightarrow> time \<Rightarrow> string \<Rightarrow> payload \<Rightarrow> booking_request
     \<Rightarrow> booking_world \<Rightarrow> booking access \<times> booking_world" where
  "add_booking L get_reservables priority_id rules profile_limits now new_id p req w =
     (case owns_booked_item (bw_tables w) p (rq_item_type req) (rq_item_id req) of
        Inl e \<Rightarrow> (Inl e, w)
      | Inr _ \<Rightarrow>
          (case get_reservables (rq_item_type req) (rq_item_id req) of
             Inl e \<Rightarrow> (Inl e, w)
           | Inr (reservables, units) \<Rightarrow>
               (case p_user_id p of
                  None \<Rightarrow> (Inl (Crash ''KeyError''), w)
                | Some u \<Rightarrow>
                    (case payload_priority priority_id rules p reservables of
                       Inl e \<Rightarrow> (Inl e, w)
                     | Inr (pr, None) \<Rightarrow> (Inl (Crash ''KeyError''), w)
                     | Inr (pr, Some lims) \<Rightarrow>
                         (case (lm_max_items lims, rq_start req, rq_end req) of
                            (None, _, _) \<Rightarrow> (Inl (Crash ''TypeError''), w)
                          | (Some m, s, f) \<Rightarrow>
                              if m \<le> get_total_user_bookings_count (bw_bookings w) u now then (Inl Precondition_required, w)
                              else (case (s, f) of
                                      (Some start, Some fin) \<Rightarrow>
                                        if too_long p req reservables lims profile_limits now fin then (Inl Bad_request, w)
                                        else (case new_booking_plans L (bw_bookings w) (bw_plans w) now pr reservables units start fin of
                                                Inl e \<Rightarrow> (Inl e, w)
                                              | Inr found \<Rightarrow>
                                                  if found = [] \<or> list_ex (\<lambda>kv. snd kv = []) found then (Inl Conflict, w)
                                                  else (let b = booking_row new_id u req units reservables start fin pr found;
                                                            w' = w\<lparr>bw_bookings := bw_bookings w @ [b]\<rparr>
                                                        in if \<not> rq_now req then (Inr b, w')
                                                           else if rq_item_type req = ''desktop''
                                                           then (Inr b, w'\<lparr>bw_desktop_booking := (bw_desktop_booking w')(rq_item_id req := Some new_id)\<rparr>)
                                                           else (Inl Bad_request, w')))
                                    | _ \<Rightarrow> (Inl Bad_request, w)))))))"

section \<open>Moving and deleting a booking\<close>

text \<open>
  The check of a move asks the planner with the two dates as time objects. \<open>keys_holding\<close> counts the keys of the
  resulting dictionary over intervals that contain the new window.
\<close>

definition existing_booking_update_fits ::
  "('a, 'b, 'c, 'd, 'e) planner_libs \<Rightarrow> (event list \<Rightarrow> time \<Rightarrow> time \<Rightarrow> nat) \<Rightarrow> (plan list \<Rightarrow> plan list) \<Rightarrow> (string \<Rightarrow> booking list)
     \<Rightarrow> (string \<Rightarrow> string \<Rightarrow> string option) \<Rightarrow> priority_rule list \<Rightarrow> time \<Rightarrow> payload \<Rightarrow> booking \<Rightarrow> time \<Rightarrow> time \<Rightarrow> booking_world \<Rightarrow> bool access" where
  "existing_booking_update_fits Ls keys_holding visible own_bookings priority_id rules now p b new_start new_end w =
     (case payload_priority priority_id rules p (bk_reservables b) of
        Inl e \<Rightarrow> Inl e
      | Inr pr \<Rightarrow>
          (case booking_provisioning Ls visible own_bookings (bw_plans w) (bw_bookings w) now (Some (bk_item_type b, bk_item_id b))
                  (bk_reservables b) (bk_units b) (fst pr) (Time_object new_start) (Time_object new_end) (Some (bk_id b)) of
             Inl e \<Rightarrow> Inl e
           | Inr evs \<Rightarrow> Inr (keys_holding evs new_start new_end = 1)))"

definition update_booking ::
  "('a, 'b, 'c, 'd, 'e) planner_libs \<Rightarrow> (event list \<Rightarrow> time \<Rightarrow> time \<Rightarrow> nat) \<Rightarrow> (plan list \<Rightarrow> plan list) \<Rightarrow> (string \<Rightarrow> booking list)
     \<Rightarrow> (string \<Rightarrow> string \<Rightarrow> string option) \<Rightarrow> priority_rule list \<Rightarrow> time \<Rightarrow> payload \<Rightarrow> string \<Rightarrow> time option \<Rightarrow> time option \<Rightarrow> booking_world
     \<Rightarrow> unit access \<times> booking_world" where
  "update_booking Ls keys_holding visible own_bookings priority_id rules now p booking_id start fin w =
     (case List.find (\<lambda>b. bk_id b = booking_id) (bw_bookings w) of
        None \<Rightarrow> (Inl Not_found, w)
      | Some b \<Rightarrow>
          (case (start, fin) of
             (Some new_start, Some new_end) \<Rightarrow>
               (case existing_booking_update_fits Ls keys_holding visible own_bookings priority_id rules now p b new_start new_end w of
                  Inl e \<Rightarrow> (Inl e, w)
                | Inr fits \<Rightarrow>
                    if \<not> fits then (Inl Conflict, w)
                    else (Inr (), w\<lparr>bw_bookings := map (\<lambda>x. if bk_id x = booking_id then x\<lparr>bk_start := new_start, bk_end := new_end\<rparr> else x)
                                                     (bw_bookings w)\<rparr>))
           | _ \<Rightarrow> (Inl (Crash ''ValueError''), w)))"

text \<open>\<open>status\<close> is the status of a desktop, \<open>tagged\<close> the desktops of a deployment.\<close>

definition stopped_status :: "string option \<Rightarrow> bool" where
  "stopped_status st \<longleftrightarrow> st = Some ''Stopped'' \<or> st = Some ''Failed''"

definition release_desktops :: "string list \<Rightarrow> booking_world \<Rightarrow> booking_world" where
  "release_desktops ds w = w\<lparr>bw_desktop_booking := (\<lambda>d. if d \<in> set ds then None else bw_desktop_booking w d)\<rparr>"

definition delete_booking ::
  "(string \<Rightarrow> string option) \<Rightarrow> (string \<Rightarrow> string list) \<Rightarrow> time \<Rightarrow> string \<Rightarrow> booking_world \<Rightarrow> unit access \<times> booking_world" where
  "delete_booking status tagged now booking_id w =
     (case List.find (\<lambda>b. bk_id b = booking_id) (bw_bookings w) of
        None \<Rightarrow> (Inl Not_found, w)
      | Some b \<Rightarrow>
          (let gone = (\<lambda>w. (Inr (), w\<lparr>bw_bookings := filter (\<lambda>x. bk_id x \<noteq> booking_id) (bw_bookings w)\<rparr>))
           in if \<not> (bk_start b \<le> now \<and> bk_end b \<ge> now) then gone w
              else if bk_item_type b = ''desktop''
              then (case status (bk_item_id b) of
                      None \<Rightarrow> (Inl (Crash ''ReqlNonExistenceError''), w)
                    | st \<Rightarrow> if stopped_status st then gone (release_desktops [bk_item_id b] w) else (Inl Precondition_required, w))
              else if bk_item_type b = ''deployment''
              then (if list_ex (\<lambda>d. \<not> stopped_status (status d)) (tagged (bk_item_id b)) then (Inl Precondition_required, w)
                    else gone (release_desktops (tagged (bk_item_id b)) w))
              else gone w))"

section \<open>The documented behaviour of the interval library\<close>

definition covering :: "(time \<times> time \<times> 'v) list \<Rightarrow> time \<Rightarrow> 'v list" where
  "covering ivs t = map (\<lambda>iv. snd (snd iv)) (filter (\<lambda>iv. fst iv \<le> t \<and> t \<le> fst (snd iv)) ivs)"

definition join_all :: "('v \<Rightarrow> 'v \<Rightarrow> 'v) \<Rightarrow> 'v option \<Rightarrow> 'v list \<Rightarrow> 'v option" where
  "join_all f x vs = (case x of Some y \<Rightarrow> Some (foldl f y vs) | None \<Rightarrow> (case vs of [] \<Rightarrow> None | v # vs' \<Rightarrow> Some (foldl f v vs')))"

locale interval_library =
  fixes L :: "('d, 'v) interval_lib"
    and valid :: "'d \<Rightarrow> bool"
    and den :: "'d \<Rightarrow> time \<Rightarrow> 'v option"
  assumes valid_empty: "valid (il_empty L)"
    and valid_closed: "valid (il_closed L a b v)"
    and valid_closedopen: "valid (il_closedopen L a b v)"
    and valid_combine: "valid d \<Longrightarrow> valid e \<Longrightarrow> valid (il_combine L f d e)"
    and valid_put: "valid d \<Longrightarrow> valid (il_put L d a b v)"
    and den_empty: "den (il_empty L) t = None"
    and den_closed: "den (il_closed L a b v) t = (if a \<le> t \<and> t \<le> b then Some v else None)"
    and den_closedopen: "den (il_closedopen L a b v) t = (if a \<le> t \<and> t < b then Some v else None)"
    and den_combine: "valid d \<Longrightarrow> valid e \<Longrightarrow> den (il_combine L f d e) t =
      (case den d t of None \<Rightarrow> den e t | Some x \<Rightarrow> (case den e t of None \<Rightarrow> Some x | Some y \<Rightarrow> Some (f x y)))"
    and den_put: "valid d \<Longrightarrow> den (il_put L d a b v) t = (if a \<le> t \<and> t \<le> b then Some v else den d t)"
    and atoms_cover: "valid d \<Longrightarrow> den d t = Some v \<longleftrightarrow> (\<exists>a. (a, v) \<in> set (il_atoms L d) \<and> in_atom a t)"
    and atoms_inhabited: "valid d \<Longrightarrow> (x, v) \<in> set (il_atoms L d) \<Longrightarrow> \<exists>t. in_atom x t"
begin

lemma accumulate_Cons:
  "accumulate L f d (iv # ivs) = accumulate L f (il_combine L f d (il_closed L (fst iv) (fst (snd iv)) (snd (snd iv)))) ivs"
  by (simp add: accumulate_def)

lemma valid_accumulate: "valid d \<Longrightarrow> valid (accumulate L f d ivs)"
proof (induction ivs arbitrary: d)
  case Nil
  then show ?case by (simp add: accumulate_def)
next
  case (Cons iv ivs)
  then show ?case by (simp add: accumulate_Cons valid_combine valid_closed)
qed

text \<open>At an instant the loop holds the values of the intervals that cover it, joined in order.\<close>

lemma den_accumulate: "valid d \<Longrightarrow> den (accumulate L f d ivs) t = join_all f (den d t) (covering ivs t)"
proof (induction ivs arbitrary: d)
  case Nil
  then show ?case by (simp add: accumulate_def join_all_def covering_def split: option.splits)
next
  case (Cons iv ivs)
  have "valid (il_combine L f d (il_closed L (fst iv) (fst (snd iv)) (snd (snd iv))))"
    using Cons.prems by (simp add: valid_combine valid_closed)
  then show ?case
    using Cons by (auto simp: accumulate_Cons den_combine valid_closed den_closed join_all_def covering_def split: option.splits)
qed

lemma valid_convert: "valid (convert_plans_to_portions L ivs)"
proof -
  have "valid d \<Longrightarrow> valid (foldl (\<lambda>d iv. il_put L d (fst iv) (fst (snd iv)) (snd (snd iv))) d ivs)" for d
    by (induction ivs arbitrary: d) (simp_all add: valid_put)
  then show ?thesis by (simp add: convert_plans_to_portions_def valid_empty)
qed

text \<open>A plan written later replaces an earlier one where they meet.\<close>

lemma den_convert: "den (convert_plans_to_portions L ivs) t = (case rev (covering ivs t) of [] \<Rightarrow> None | v # _ \<Rightarrow> Some v)"
proof (induction ivs rule: rev_induct)
  case Nil
  then show ?case by (simp add: convert_plans_to_portions_def covering_def den_empty)
next
  case (snoc iv ivs)
  have "convert_plans_to_portions L (ivs @ [iv]) = il_put L (convert_plans_to_portions L ivs) (fst iv) (fst (snd iv)) (snd (snd iv))"
    by (simp add: convert_plans_to_portions_def)
  then show ?case
    using snoc by (simp add: den_put valid_convert covering_def)
qed

lemma set_sorted_atomic_items [simp]: "set (sorted_atomic_items L d) = set (il_atoms L d)"
  by (simp add: sorted_atomic_items_def)

text \<open>The largest value over the atoms is the largest over all instants.\<close>

lemma atoms_bound:
  assumes "valid d" "den d t = Some v"
  shows "\<exists>a. (a, v) \<in> set (sorted_atomic_items L d)"
  using atoms_cover [OF assms(1)] assms(2) by auto

lemma atoms_attained:
  assumes "valid d" "(a, v) \<in> set (sorted_atomic_items L d)"
  shows "\<exists>t. den d t = Some v"
  using atoms_inhabited [OF assms(1)] atoms_cover [OF assms(1)] assms(2) by fastforce

end

section \<open>A concrete library of intervals\<close>

text \<open>Break points with a function of time that is constant between them; the atoms are the points and the gaps.\<close>

definition point_atom :: "time \<Rightarrow> atom" where
  "point_atom b = \<lparr>at_lower = b, at_left_closed = True, at_upper = b, at_right_closed = True\<rparr>"

definition gap_atom :: "time \<Rightarrow> time \<Rightarrow> atom" where
  "gap_atom b c = \<lparr>at_lower = b, at_left_closed = False, at_upper = c, at_right_closed = False\<rparr>"

definition atom_if :: "atom \<Rightarrow> 'v option \<Rightarrow> (atom \<times> 'v) list" where
  "atom_if a v = (case v of None \<Rightarrow> [] | Some x \<Rightarrow> [(a, x)])"

fun piece_atoms :: "time list \<Rightarrow> (time \<Rightarrow> 'v option) \<Rightarrow> (atom \<times> 'v) list" where
  "piece_atoms [] f = []"
| "piece_atoms [b] f = atom_if (point_atom b) (f b)"
| "piece_atoms (b # c # bs) f = atom_if (point_atom b) (f b) @ atom_if (gap_atom b c) (f ((b + c) / 2)) @ piece_atoms (c # bs) f"

definition pieces :: "(time list \<times> (time \<Rightarrow> 'v option), 'v) interval_lib" where
  "pieces =
     \<lparr>il_empty = ([], \<lambda>t. None),
      il_closed = (\<lambda>a b v. (sort (remdups [a, b]), \<lambda>t. if a \<le> t \<and> t \<le> b then Some v else None)),
      il_closedopen = (\<lambda>a b v. (sort (remdups [a, b]), \<lambda>t. if a \<le> t \<and> t < b then Some v else None)),
      il_combine = (\<lambda>f d e. (sort (remdups (fst d @ fst e)),
         \<lambda>t. case snd d t of None \<Rightarrow> snd e t | Some x \<Rightarrow> (case snd e t of None \<Rightarrow> Some x | Some y \<Rightarrow> Some (f x y)))),
      il_put = (\<lambda>d a b v. (sort (remdups (a # b # fst d)), \<lambda>t. if a \<le> t \<and> t \<le> b then Some v else snd d t)),
      il_atoms = (\<lambda>d. piece_atoms (fst d) (snd d))\<rparr>"

definition same_place :: "time list \<Rightarrow> time \<Rightarrow> time \<Rightarrow> bool" where
  "same_place bs s t \<longleftrightarrow> (\<forall>b\<in>set bs. (b < s \<longleftrightarrow> b < t) \<and> (b = s \<longleftrightarrow> b = t))"

definition valid_pieces :: "time list \<times> (time \<Rightarrow> 'v option) \<Rightarrow> bool" where
  "valid_pieces d \<longleftrightarrow> sorted (fst d) \<and> distinct (fst d) \<and> (\<forall>s t. same_place (fst d) s t \<longrightarrow> snd d s = snd d t)
     \<and> (\<forall>t. (\<forall>b\<in>set (fst d). t < b) \<or> (\<forall>b\<in>set (fst d). b < t) \<longrightarrow> snd d t = None)"

lemma set_piece_atoms:
  "(a, v) \<in> set (piece_atoms bs f) \<longleftrightarrow>
     (\<exists>b\<in>set bs. a = point_atom b \<and> f b = Some v) \<or> (\<exists>xs b c ys. bs = xs @ b # c # ys \<and> a = gap_atom b c \<and> f ((b + c) / 2) = Some v)"
proof (induction bs f rule: piece_atoms.induct)
  case (1 f)
  then show ?case by simp
next
  case (2 b f)
  then show ?case by (auto simp: atom_if_def split: option.splits)
next
  case (3 b c bs f)
  have "(\<exists>xs b' c' ys. b # c # bs = xs @ b' # c' # ys \<and> P b' c') \<longleftrightarrow> P b c \<or> (\<exists>xs b' c' ys. c # bs = xs @ b' # c' # ys \<and> P b' c')" for P
    by (metis (no_types, lifting) append_Cons append_Nil list.inject neq_Nil_conv)
  then show ?case
    using 3 by (auto simp: atom_if_def split: option.splits)
qed

lemma sorted_consecutive:
  assumes "sorted (xs @ b # c # ys)" "distinct (xs @ b # c # ys)" "x \<in> set (xs @ b # c # ys)"
  shows "b < c \<and> (x \<le> b \<or> c \<le> x)"
  using assms by (auto simp: sorted_append dest: order.not_eq_order_implies_strict)

lemma gap_same_place:
  assumes "sorted (xs @ b # c # ys)" "distinct (xs @ b # c # ys)" "b < s" "s < c" "b < t" "t < c"
  shows "same_place (xs @ b # c # ys) s t"
  unfolding same_place_def
proof
  fix x
  assume "x \<in> set (xs @ b # c # ys)"
  then have "x \<le> b \<or> c \<le> x"
    using sorted_consecutive [OF assms(1,2)] by blast
  then show "(x < s) = (x < t) \<and> (x = s) = (x = t)"
    using assms(3-6) by auto
qed

lemma between_consecutive:
  assumes "sorted bs" "t \<notin> set bs" "x \<in> set bs" "x < t" "y \<in> set bs" "t < y"
  shows "\<exists>xs b c ys. bs = xs @ b # c # ys \<and> b < t \<and> t < c"
  using assms
proof (induction bs arbitrary: x)
  case Nil
  then show ?case by simp
next
  case (Cons b bs)
  have b: "b < t"
    using Cons.prems by (auto simp: dual_order.strict_trans1)
  obtain c bs' where bs: "bs = c # bs'"
    using Cons.prems b by (cases bs) auto
  show ?case
  proof (cases "c < t")
    case True
    then have "\<exists>xs b c ys. bs = xs @ b # c # ys \<and> b < t \<and> t < c"
      using Cons.IH [of c] Cons.prems b bs by auto
    then show ?thesis by (metis append_Cons)
  next
    case False
    then have "t < c" using Cons.prems(2) bs by auto
    then show ?thesis using b bs by (intro exI [of _ "[]"]) auto
  qed
qed

lemma valid_piecesD:
  assumes "valid_pieces d"
  shows "sorted (fst d)" "distinct (fst d)" "same_place (fst d) s t \<Longrightarrow> snd d s = snd d t"
    "\<forall>b\<in>set (fst d). t < b \<Longrightarrow> snd d t = None" "\<forall>b\<in>set (fst d). b < t \<Longrightarrow> snd d t = None"
  using assms unfolding valid_pieces_def by blast+

lemma gap_constant:
  assumes "valid_pieces d" "fst d = xs @ b # c # ys" "b < t" "t < c"
  shows "snd d t = snd d ((b + c) / 2)"
proof (rule valid_piecesD(3) [OF assms(1)])
  show "same_place (fst d) t ((b + c) / 2)"
    unfolding assms(2)
    by (rule gap_same_place) (use assms valid_piecesD(1,2) [OF assms(1)] in simp_all)
qed

lemma inside_breaks:
  assumes "valid_pieces d" "snd d t = Some v" "t \<notin> set (fst d)"
  shows "\<exists>xs b c ys. fst d = xs @ b # c # ys \<and> b < t \<and> t < c"
proof -
  have "\<not> (\<forall>b\<in>set (fst d). t < b)" "\<not> (\<forall>b\<in>set (fst d). b < t)"
    using valid_piecesD(4,5) [OF assms(1), of t] assms(2) by auto
  then obtain x y where "x \<in> set (fst d)" "x \<le> t" "y \<in> set (fst d)" "t \<le> y"
    by (auto simp: not_less)
  moreover from this have "x \<noteq> t" "y \<noteq> t"
    using assms(3) by blast+
  ultimately show ?thesis
    using between_consecutive [OF valid_piecesD(1) [OF assms(1)] assms(3), of x y] by simp
qed

lemma pieces_cover:
  assumes "valid_pieces d"
  shows "snd d t = Some v \<longleftrightarrow> (\<exists>a. (a, v) \<in> set (piece_atoms (fst d) (snd d)) \<and> in_atom a t)"
proof
  assume t: "snd d t = Some v"
  show "\<exists>a. (a, v) \<in> set (piece_atoms (fst d) (snd d)) \<and> in_atom a t"
  proof (cases "t \<in> set (fst d)")
    case True
    then have "(point_atom t, v) \<in> set (piece_atoms (fst d) (snd d))"
      using t unfolding set_piece_atoms by blast
    moreover have "in_atom (point_atom t) t"
      by (simp add: in_atom_def point_atom_def)
    ultimately show ?thesis by blast
  next
    case False
    then obtain xs b c ys where bs: "fst d = xs @ b # c # ys" "b < t" "t < c"
      using inside_breaks [OF assms t] by blast
    have "(gap_atom b c, v) \<in> set (piece_atoms (fst d) (snd d))"
      using bs(1) gap_constant [OF assms bs] t unfolding set_piece_atoms by metis
    moreover have "in_atom (gap_atom b c) t"
      using bs by (simp add: in_atom_def gap_atom_def)
    ultimately show ?thesis by blast
  qed
next
  assume "\<exists>a. (a, v) \<in> set (piece_atoms (fst d) (snd d)) \<and> in_atom a t"
  then obtain a where a: "(a, v) \<in> set (piece_atoms (fst d) (snd d))" "in_atom a t" by blast
  then consider b where "a = point_atom b" "snd d b = Some v"
    | xs b c ys where "fst d = xs @ b # c # ys" "a = gap_atom b c" "snd d ((b + c) / 2) = Some v"
    unfolding set_piece_atoms by blast
  then show "snd d t = Some v"
  proof cases
    case 1
    then have "t = b" using a(2) by (auto simp: in_atom_def point_atom_def)
    then show ?thesis using 1(2) by simp
  next
    case 2
    have "b < t" "t < c"
      using a(2) 2(2) by (simp_all add: in_atom_def gap_atom_def)
    then show ?thesis using gap_constant [OF assms 2(1)] 2(3) by simp
  qed
qed

lemma pieces_inhabited:
  assumes "valid_pieces d" "(a, v) \<in> set (piece_atoms (fst d) (snd d))"
  shows "\<exists>t. in_atom a t"
proof -
  consider b where "a = point_atom b" | xs b c ys where "fst d = xs @ b # c # ys" "a = gap_atom b c"
    using assms(2) unfolding set_piece_atoms by blast
  then show ?thesis
  proof cases
    case 1
    then show ?thesis by (auto simp: in_atom_def point_atom_def)
  next
    case 2
    have "b < c"
      using sorted_consecutive [of xs b c ys b] valid_piecesD(1,2) [OF assms(1)] 2(1) by simp
    then show ?thesis
      using 2(2) by (intro exI [of _ "(b + c) / 2"]) (simp add: in_atom_def gap_atom_def)
  qed
qed

lemma same_place_subset: "same_place bs s t \<Longrightarrow> set cs \<subseteq> set bs \<Longrightarrow> same_place cs s t"
  by (auto simp: same_place_def)


lemma same_place_closed:
  assumes "same_place (sort (remdups [a, b])) s t"
  shows "(a \<le> s \<and> s \<le> b) = (a \<le> t \<and> t \<le> b)" "(a \<le> s \<and> s < b) = (a \<le> t \<and> t < b)"
proof -
  have "a \<in> set (sort (remdups [a, b]))" "b \<in> set (sort (remdups [a, b]))"
    by simp_all
  then have places: "(a < s) = (a < t)" "(a = s) = (a = t)" "(b < s) = (b < t)" "(b = s) = (b = t)"
    using assms unfolding same_place_def by blast+
  have "(a \<le> s) = (a \<le> t)"
    using places(1,2) by (simp only: le_less)
  moreover have "(s \<le> b) = (t \<le> b)"
    using places(3) by (simp only: linorder_not_less [symmetric])
  moreover have "(s < b) = (t < b)"
    using places(4) calculation(2) by (auto simp: less_le)
  ultimately show "(a \<le> s \<and> s \<le> b) = (a \<le> t \<and> t \<le> b)" "(a \<le> s \<and> s < b) = (a \<le> t \<and> t < b)"
    by simp_all
qed

lemma valid_pieces_combine:
  assumes "valid_pieces d" "valid_pieces e" "set cs \<supseteq> set (fst d) \<union> set (fst e)" "sorted cs" "distinct cs"
    "\<And>t. f t = h (snd d t) (snd e t)" "h None None = None"
  shows "valid_pieces (cs, f)"
proof -
  have "f s = f t" if "same_place cs s t" for s t
  proof -
    have "same_place (fst d) s t" "same_place (fst e) s t"
      using same_place_subset [OF that] assms(3) by auto
    then have "snd d s = snd d t" "snd e s = snd e t"
      using valid_piecesD(3) [OF assms(1)] valid_piecesD(3) [OF assms(2)] by blast+
    then show ?thesis by (simp add: assms(6))
  qed
  moreover have "f t = None" if "(\<forall>b\<in>set cs. t < b) \<or> (\<forall>b\<in>set cs. b < t)" for t
  proof -
    have "snd d t = None" "snd e t = None"
      using that valid_piecesD(4,5) [OF assms(1), of t] valid_piecesD(4,5) [OF assms(2), of t] assms(3) by blast+
    then show ?thesis by (simp add: assms(6,7))
  qed
  ultimately show ?thesis
    using assms(4,5) by (simp add: valid_pieces_def)
qed

lemma valid_pieces_interval:
  assumes "\<And>s t. same_place (sort (remdups [a, b])) s t \<Longrightarrow> P s = P t" "\<And>t. t < a \<and> t < b \<or> a < t \<and> b < t \<Longrightarrow> \<not> P t"
  shows "valid_pieces (sort (remdups [a, b]), \<lambda>t. if P t then Some v else None)"
  unfolding valid_pieces_def fst_conv snd_conv
proof (intro conjI allI impI)
  fix t
  assume "(\<forall>x\<in>set (sort (remdups [a, b])). t < x) \<or> (\<forall>x\<in>set (sort (remdups [a, b])). x < t)"
  then have "\<not> P t"
    using assms(2) [of t] by (auto split: if_splits)
  then show "(if P t then Some v else None) = None" by simp
next
  fix s t
  assume "same_place (sort (remdups [a, b])) s t"
  then have "P s = P t" by (rule assms(1))
  then show "(if P s then Some v else None) = (if P t then Some v else None)" by simp
qed simp_all

lemma valid_pieces_closed:
  "valid_pieces (sort (remdups [a, b]), \<lambda>t. if a \<le> t \<and> t \<le> b then Some v else None)"
  "valid_pieces (sort (remdups [a, b]), \<lambda>t. if a \<le> t \<and> t < b then Some v else None)"
  by (rule valid_pieces_interval [of a b "\<lambda>t. a \<le> t \<and> t \<le> b"], erule same_place_closed(1), force)
    (rule valid_pieces_interval [of a b "\<lambda>t. a \<le> t \<and> t < b"], erule same_place_closed(2), force)

interpretation piece_library: interval_library pieces valid_pieces snd
proof unfold_locales
  fix a b :: time and v :: 'v and d e :: "time list \<times> (time \<Rightarrow> 'v option)" and f :: "'v \<Rightarrow> 'v \<Rightarrow> 'v"
  show "valid_pieces (il_empty pieces :: time list \<times> (time \<Rightarrow> 'v option))"
    by (simp add: pieces_def valid_pieces_def)
  show "valid_pieces (il_closed pieces a b v)" "valid_pieces (il_closedopen pieces a b v)"
    using valid_pieces_closed [of a b v] by (simp_all add: pieces_def)
  assume d: "valid_pieces d"
  show "valid_pieces (il_put pieces d a b v)"
    unfolding pieces_def interval_lib.simps
    by (rule valid_pieces_combine [OF valid_pieces_closed(1) [of a b v] d, where h = "\<lambda>x y. case x of Some z \<Rightarrow> Some z | None \<Rightarrow> y"])
      auto
  assume e: "valid_pieces e"
  show "valid_pieces (il_combine pieces f d e)"
    unfolding pieces_def interval_lib.simps
    by (rule valid_pieces_combine [OF d e, where h = "\<lambda>x y. case x of None \<Rightarrow> y | Some x \<Rightarrow> (case y of None \<Rightarrow> Some x | Some y \<Rightarrow> Some (f x y))"])
      auto
next
  fix d :: "time list \<times> (time \<Rightarrow> 'v option)" and t v x
  assume d: "valid_pieces d"
  show "snd d t = Some v \<longleftrightarrow> (\<exists>a. (a, v) \<in> set (il_atoms pieces d) \<and> in_atom a t)"
    using pieces_cover [OF d] by (simp add: pieces_def)
  show "(x, v) \<in> set (il_atoms pieces d) \<Longrightarrow> \<exists>t. in_atom x t"
    using pieces_inhabited [OF d] by (simp add: pieces_def)
qed (simp_all add: pieces_def)

section \<open>Load of a plan\<close>

definition booking_load :: "string \<Rightarrow> time \<Rightarrow> booking \<Rightarrow> int" where
  "booking_load plan_id t b =
     (if bk_start b \<le> t \<and> t \<le> bk_end b
      then sum_list (map (booked_units b) (filter (\<lambda>x. bp_plan_id x = plan_id) (bk_plans b))) else 0)"

definition plan_load :: "booking list \<Rightarrow> string \<Rightarrow> time \<Rightarrow> int" where
  "plan_load table plan_id t = sum_list (map (booking_load plan_id t) table)"

definition units_known :: "booking list \<Rightarrow> bool" where
  "units_known table \<longleftrightarrow> (\<forall>b\<in>set table. \<forall>x\<in>set (bk_plans b). 0 \<le> booked_units b x)"

lemma covering_append: "covering (xs @ ys) t = covering xs t @ covering ys t"
  by (simp add: covering_def)

lemma covering_held:
  "sum_list (map fst (covering (held_intervals plan_id table) t)) = plan_load table plan_id t"
proof (induction table)
  case Nil
  then show ?case by (simp add: held_intervals_def covering_def plan_load_def)
next
  case (Cons b table)
  have "sum_list (map fst (covering (map (\<lambda>x. (bk_start b, bk_end b, booked_units b x, bp_plan_id x)) xs) t))
      = (if bk_start b \<le> t \<and> t \<le> bk_end b then sum_list (map (booked_units b) xs) else 0)" for xs
    by (induction xs) (auto simp: covering_def)
  then show ?case
    using Cons by (simp add: held_intervals_def covering_append plan_load_def booking_load_def)
qed

lemma fst_foldl_sum:
  "fst (foldl (\<lambda>x y. (fst x + fst y, g x y)) v vs) = (fst v + sum_list (map fst vs) :: int)"
  by (induction vs arbitrary: v) simp_all

lemma foldl_max_ge: "x \<in> set (n # ns) \<Longrightarrow> x \<le> foldl max n ns" for x :: "'a :: linorder"
proof -
  have "n \<le> foldl max n ns \<and> (\<forall>x\<in>set ns. x \<le> foldl max n ns)"
  proof (induction ns arbitrary: n)
    case (Cons m ns)
    then have "max n m \<le> foldl max (max n m) ns \<and> (\<forall>x\<in>set ns. x \<le> foldl max (max n m) ns)" .
    then show ?case by simp
  qed simp
  then show "x \<in> set (n # ns) \<Longrightarrow> x \<le> foldl max n ns" by auto
qed

lemma foldl_max_in: "foldl max n ns \<in> set (n # ns)" for n :: "'a :: linorder"
proof (induction ns arbitrary: n)
  case (Cons m ns)
  have "foldl max (max n m) ns \<in> set (max n m # ns)" by (rule Cons)
  moreover have "max n m \<in> {n, m}" by (simp add: max_def)
  ultimately show ?case by auto
qed simp

lemma plan_load_nonneg:
  assumes "units_known table"
  shows "0 \<le> plan_load table plan_id t"
  unfolding plan_load_def
proof (rule sum_list_nonneg)
  fix y
  assume "y \<in> set (map (booking_load plan_id t) table)"
  then obtain b where b: "b \<in> set table" "y = booking_load plan_id t b" by auto
  have "0 \<le> sum_list (map (booked_units b) (filter (\<lambda>x. bp_plan_id x = plan_id) (bk_plans b)))"
    by (rule sum_list_nonneg) (use assms b(1) in \<open>auto simp: units_known_def\<close>)
  then show "0 \<le> y" by (simp add: b(2) booking_load_def)
qed

text \<open>The count of blocking bookings bounds their load at every instant.\<close>

lemma count_bounds_load:
  assumes lib: "interval_library L valid den" and known: "units_known table"
  shows "plan_load (filter (blocks plan_id s q start fin) table) plan_id t
           \<le> count_non_overridable_bookings L table plan_id s q start fin"
proof -
  define B where "B = filter (blocks plan_id s q start fin) table"
  define op where "op = (\<lambda>x y :: units_id. (fst x + fst y, join_ids (snd x) (snd y)))"
  define d where "d = accumulate L op (il_empty L) (held_intervals plan_id B)"
  define us where "us = map (\<lambda>av. fst (snd av)) (sorted_atomic_items L d)"
  have count: "count_non_overridable_bookings L table plan_id s q start fin
      = (if B = [] then 0 else (case us of [] \<Rightarrow> 0 | n # ns \<Rightarrow> foldl max n ns))"
    by (simp add: count_non_overridable_bookings_def B_def [symmetric] Let_def op_def [symmetric] d_def [symmetric] us_def)
  have valid: "valid d"
    unfolding d_def by (intro interval_library.valid_accumulate [OF lib] interval_library.valid_empty [OF lib])
  have den: "den d t = join_all op None (covering (held_intervals plan_id B) t)" for t
    unfolding d_def using interval_library.den_accumulate [OF lib interval_library.valid_empty [OF lib]]
    by (simp add: interval_library.den_empty [OF lib])
  have loaded: "\<exists>v. den d t = Some v \<and> fst v = plan_load B plan_id t" if "covering (held_intervals plan_id B) t \<noteq> []" for t
    using that unfolding den join_all_def
    by (cases "covering (held_intervals plan_id B) t") (auto simp: op_def fst_foldl_sum simp flip: covering_held)
  have in_us: "plan_load B plan_id t \<in> set us" if cov: "covering (held_intervals plan_id B) t \<noteq> []" for t
  proof -
    obtain v where "den d t = Some v" "fst v = plan_load B plan_id t"
      using loaded [OF cov] by blast
    moreover from this obtain a where "(a, v) \<in> set (sorted_atomic_items L d)"
      using interval_library.atoms_bound [OF lib valid] by blast
    ultimately show ?thesis
      unfolding us_def set_map by (intro image_eqI [of _ _ "(a, v)"]) simp_all
  qed
  have nonneg: "0 \<le> u" if u: "u \<in> set us" for u
  proof -
    obtain a v where "(a, v) \<in> set (sorted_atomic_items L d)" "u = fst v"
      using u by (auto simp: us_def)
    then obtain t' where t': "den d t' = Some v"
      using interval_library.atoms_attained [OF lib valid] by blast
    then have "covering (held_intervals plan_id B) t' \<noteq> []"
      by (auto simp: den join_all_def)
    then have "u = plan_load B plan_id t'"
      using loaded [of t'] t' \<open>u = fst v\<close> by auto
    moreover have "units_known B"
      using known by (simp add: units_known_def B_def)
    ultimately show ?thesis by (simp add: plan_load_nonneg)
  qed
  show ?thesis
  proof (cases "covering (held_intervals plan_id B) t = []")
    case True
    then have "plan_load B plan_id t = 0"
      by (simp flip: covering_held)
    moreover have "0 \<le> count_non_overridable_bookings L table plan_id s q start fin"
    proof (cases us)
      case (Cons n ns)
      then have "0 \<le> foldl max n ns"
        using nonneg [of "foldl max n ns"] foldl_max_in [of n ns] by simp
      then show ?thesis using Cons by (simp add: count)
    qed (simp add: count)
    ultimately show ?thesis by (simp add: B_def)
  next
    case False
    then have "B \<noteq> []" by (auto simp: held_intervals_def covering_def)
    then show ?thesis
      using in_us [OF False] foldl_max_ge [of "plan_load B plan_id t"]
      by (cases us) (simp_all add: count B_def [symmetric])
  qed
qed

section \<open>Units are assigned exactly\<close>

definition assigned :: "(plan \<times> int) list \<Rightarrow> int" where
  "assigned pns = sum_list (map snd pns)"

definition spare :: "(plan \<Rightarrow> int) \<Rightarrow> plan \<Rightarrow> int" where
  "spare held p = max 0 (pl_units p - held p)"

text \<open>What a run of the loop leaves: every unit it took is in the list, no plan gets more than it has, and units remain
  unplaced only when every plan is full.\<close>

definition assignment_ok :: "(plan \<Rightarrow> int) \<Rightarrow> int \<Rightarrow> plan list \<Rightarrow> int \<Rightarrow> (plan \<times> int) list \<Rightarrow> bool" where
  "assignment_ok held r ps r' zs \<longleftrightarrow> assigned zs + r' = r \<and> 0 \<le> r'
     \<and> (\<forall>pn\<in>set zs. fst pn \<in> set ps \<and> 0 < snd pn \<and> held (fst pn) + snd pn \<le> pl_units (fst pn))
     \<and> (0 < r' \<longrightarrow> r' = r - sum_list (map (spare held) ps))
     \<and> assigned zs \<le> sum_list (map (spare held) ps)"

lemma spare_sum_nonneg: "0 \<le> sum_list (map (spare held) ps)"
  by (rule sum_list_nonneg) (auto simp: spare_def)

lemma assign_units_exact:
  assumes "0 < r"
  shows "\<exists>zs. snd (assign_units held r ps acc) = acc @ zs \<and> assignment_ok held r ps (fst (assign_units held r ps acc)) zs"
  using assms
proof (induction ps arbitrary: r acc)
  case Nil
  then show ?case by (simp add: assignment_ok_def assigned_def)
next
  case (Cons p ps)
  define avail where "avail = pl_units p - held p"
  consider (full) "avail \<le> 0" | (part) "avail > 0" "r - avail > 0" | (last) "avail > 0" "r - avail \<le> 0"
    by linarith
  then show ?case
  proof cases
    case full
    have run: "assign_units held r (p # ps) acc = assign_units held r ps acc"
      using full by (simp add: avail_def)
    have "spare held p = 0"
      using full by (simp add: spare_def avail_def)
    then have "assignment_ok held r (p # ps) r' zs" if "assignment_ok held r ps r' zs" for r' zs
      using that by (simp add: assignment_ok_def)
    then show ?thesis
      using Cons.IH [OF Cons.prems, of acc] unfolding run by blast
  next
    case part
    have run: "assign_units held r (p # ps) acc = assign_units held (r - avail) ps (acc @ [(p, avail)])"
      using part by (simp add: avail_def Let_def)
    have "spare held p = avail" "held p + avail = pl_units p"
      using part by (simp_all add: spare_def avail_def)
    then have step: "assignment_ok held r (p # ps) r' ((p, avail) # zs)" if "assignment_ok held (r - avail) ps r' zs" for r' zs
      using that part(1) by (simp add: assignment_ok_def assigned_def diff_diff_eq)
    obtain zs where "snd (assign_units held (r - avail) ps (acc @ [(p, avail)])) = (acc @ [(p, avail)]) @ zs"
        "assignment_ok held (r - avail) ps (fst (assign_units held (r - avail) ps (acc @ [(p, avail)]))) zs"
      using Cons.IH [OF part(2), of "acc @ [(p, avail)]"] by blast
    then show ?thesis
      unfolding run using step by (intro exI [of _ "(p, avail) # zs"]) simp
  next
    case last
    then have run: "assign_units held r (p # ps) acc = (0, acc @ [(p, r)])"
      by (simp add: avail_def Let_def)
    have "r \<le> spare held p + sum_list (map (spare held) ps)"
      using last spare_sum_nonneg [of held ps] by (simp add: spare_def avail_def)
    then show ?thesis
      unfolding run using last Cons.prems
      by (intro exI [of _ "[(p, r)]"]) (simp add: assignment_ok_def assigned_def avail_def)
  qed
qed

end
