(* ===== verification/Booking_Safety.thy ===== *)
theory Booking_Safety
  imports Booking_Capacity
begin

text \<open>
  What the booking subsystem guarantees: a placed booking fits at every instant, plans and bookings
  together never exceed the capacity of a plan, the planner's answer is exact where a plan covers the
  instant, and where the code falls short of its contract.
\<close>

section \<open>Placing a booking\<close>

definition fitting_plans :: "plan list \<Rightarrow> time \<Rightarrow> time \<Rightarrow> plan list" where
  "fitting_plans plans start fin = filter (\<lambda>p. start > fin \<or> (pl_start p \<le> start \<and> fin \<le> pl_end p)) plans"

definition held_units :: "('d, units_id) interval_lib \<Rightarrow> booking list \<Rightarrow> string \<Rightarrow> int \<Rightarrow> time \<Rightarrow> time \<Rightarrow> plan \<Rightarrow> int" where
  "held_units L table s q start fin = (\<lambda>p. count_non_overridable_bookings L table (pl_id p) s q start fin)"

lemma sum_spare_pos:
  "0 < sum_list (map (spare held) ps) \<longleftrightarrow> (\<exists>p\<in>set ps. held p < pl_units p)"
proof (induction ps)
  case (Cons p ps)
  have "0 \<le> spare held p" "(0 < spare held p) = (held p < pl_units p)"
    by (auto simp: spare_def)
  then show ?case using Cons spare_sum_nonneg [of held ps] by auto
qed simp

lemma get_same_plans_split:
  assumes "0 < units"
  shows "(case get_same_plans_for_booking L table plans s q start fin units of
            [] \<Rightarrow> sum_list (map (spare (held_units L table s q start fin)) (fitting_plans plans start fin)) < units
          | found \<Rightarrow> assignment_ok (held_units L table s q start fin) units (fitting_plans plans start fin) 0 found)"
proof (cases "units > 1")
  case True
  define held where "held = held_units L table s q start fin"
  define fp where "fp = fitting_plans plans start fin"
  obtain zs where zs: "snd (assign_units held units fp []) = zs" "assignment_ok held units fp (fst (assign_units held units fp [])) zs"
    using assign_units_exact [OF assms, of held fp "[]"] by auto
  obtain r' where run: "assign_units held units fp [] = (r', zs)"
    using zs(1) by (cases "assign_units held units fp []") auto
  have found: "get_same_plans_for_booking L table plans s q start fin units = (if r' > 0 then [] else zs)"
    using True run by (simp add: get_same_plans_for_booking_def Let_def held_def held_units_def fp_def fitting_plans_def)
  show ?thesis
  proof (cases "r' > 0")
    case True
    then show ?thesis
      using zs(2) run unfolding found held_def fp_def by (simp add: assignment_ok_def)
  next
    case False
    then have "r' = 0" "zs \<noteq> []"
      using zs(2) run assms by (auto simp: assignment_ok_def assigned_def)
    then show ?thesis
      using zs(2) run unfolding found held_def fp_def by (cases zs) simp_all
  qed
next
  case False
  then have one: "units = 1" using assms by simp
  define held where "held = held_units L table s q start fin"
  define fp where "fp = fitting_plans plans start fin"
  have found: "get_same_plans_for_booking L table plans s q start fin units
      = (case List.find (\<lambda>p. pl_units p - 1 - held p \<ge> 0) fp of None \<Rightarrow> [] | Some p \<Rightarrow> [(p, 1)])"
    by (simp add: one get_same_plans_for_booking_def Let_def held_def held_units_def fp_def fitting_plans_def)
  show ?thesis
  proof (cases "List.find (\<lambda>p. pl_units p - 1 - held p \<ge> 0) fp")
    case None
    then have "\<not> (\<exists>p\<in>set fp. held p < pl_units p)"
      by (auto simp: find_None_iff)
    then have "sum_list (map (spare held) fp) \<le> 0"
      using sum_spare_pos [of held fp] by linarith
    then show ?thesis
      unfolding found held_def [symmetric] fp_def [symmetric] None by (simp add: one)
  next
    case (Some p)
    then have "p \<in> set fp" "pl_units p - 1 - held p \<ge> 0"
      using find_Some_in [OF Some] by auto
    then show ?thesis
      unfolding found held_def [symmetric] fp_def [symmetric] Some using sum_spare_pos [of held fp] by (auto simp: one assignment_ok_def assigned_def)
  qed
qed

lemma same_plans_room:
  assumes "interval_library L valid den" "units_known table" "0 < units"
    and pn: "(p, n) \<in> set (get_same_plans_for_booking L table plans s q start fin units)"
  shows "p \<in> set (fitting_plans plans start fin) \<and> 0 < n
     \<and> plan_load (filter (blocks (pl_id p) s q start fin) table) (pl_id p) t + n \<le> pl_units p"
proof -
  define held where "held = held_units L table s q start fin"
  obtain f fs where found: "get_same_plans_for_booking L table plans s q start fin units = f # fs"
    using pn by (cases "get_same_plans_for_booking L table plans s q start fin units") auto
  have "assignment_ok held units (fitting_plans plans start fin) 0 (f # fs)"
    using get_same_plans_split [OF assms(3), of L table s q start fin plans] by (simp add: found held_def)
  then have "p \<in> set (fitting_plans plans start fin)" "0 < n" "held p + n \<le> pl_units p"
    using pn unfolding found by (auto simp: assignment_ok_def)
  moreover have "plan_load (filter (blocks (pl_id p) s q start fin) table) (pl_id p) t \<le> held p"
    using count_bounds_load [OF assms(1,2)] by (simp add: held_def held_units_def)
  ultimately show ?thesis by simp
qed

lemma assign_units_from: "set (snd (assign_units held r ps acc)) \<subseteq> set acc \<union> (set ps \<times> UNIV)"
proof (induction ps arbitrary: r acc)
  case (Cons p ps)
  show ?case
    using Cons.IH [of "r - (pl_units p - held p)" "acc @ [(p, pl_units p - held p)]"] Cons.IH [of r acc]
    by (auto simp: Let_def)
qed simp

lemma same_plans_from:
  "set (get_same_plans_for_booking L table plans s q start fin units) \<subseteq> set plans \<times> UNIV"
proof -
  have "set (case assign_units held units ps [] of (r, acc) \<Rightarrow> if r > 0 then [] else acc) \<subseteq> set ps \<times> UNIV" for held ps
    using assign_units_from [of held units ps "[]"] by (cases "assign_units held units ps []") auto
  moreover have "set (case List.find P ps of None \<Rightarrow> [] | Some p \<Rightarrow> [(p, 1::int)]) \<subseteq> set ps \<times> UNIV" for P and ps :: "plan list"
    by (cases "List.find P ps") (auto dest: find_Some_in)
  ultimately show ?thesis
    unfolding get_same_plans_for_booking_def Let_def by (auto split: if_splits) fastforce+
qed


definition sample_plan :: plan where
  "sample_plan = \<lparr>pl_item_type = ''gpus'', pl_item_id = ''card-1'', pl_id = ''plan-1'', pl_subitem_id = ''A40-8Q'', pl_units = 3,
     pl_start = 0, pl_end = 100, pl_user_id = ''admin''\<rparr>"

definition sample_booking :: booking where
  "sample_booking = \<lparr>bk_id = ''b-1'', bk_item_id = ''d-1'', bk_item_type = ''desktop'', bk_units = 1,
     bk_reservables = [(''vgpus'', Some [''A40-8Q''])], bk_start = 10, bk_end = 20, bk_user_id = ''u-1'',
     bk_plans = [\<lparr>bp_plan_id = ''plan-1'', bp_item_id = ''card-1'', bp_subitem_id = ''A40-8Q'',
                  bp_priority = 5, bp_units_booked = Some 1\<rparr>]\<rparr>"


section \<open>Moving a booking\<close>

lemma time_object_rejected: "refused (get_competing_bookings rel table pr rs f (Time_object t) skip)"
  by (simp add: get_competing_bookings_def)

lemma provisioning_rejects_time_objects:
  "refused (booking_provisioning Ls visible own plans table now itm rs units pr f (Time_object t) skip)"
proof -
  have "refused (get_overridable_bookings table pr rs f (Time_object t) skip)"
    by (simp add: get_overridable_bookings_def time_object_rejected)
  then show ?thesis
    by (auto simp: booking_provisioning_def Let_def split: sum.splits list.splits)
qed

lemma update_refused:
  "refused (fst (update_booking Ls keys_holding visible own_bookings priority_id rules now p booking_id start fin w))
   \<and> snd (update_booking Ls keys_holding visible own_bookings priority_id rules now p booking_id start fin w) = w"
proof -
  have "refused (existing_booking_update_fits Ls keys_holding visible own_bookings priority_id rules now p b x y w)" for b x y
    using provisioning_rejects_time_objects
      [of Ls visible own_bookings "bw_plans w" "bw_bookings w" now _ "bk_reservables b" "bk_units b" _ "Time_object x" y "Some (bk_id b)"]
    by (auto simp: existing_booking_update_fits_def split: sum.splits) (metis refused_simps(2))
  then show ?thesis
    by (auto simp: update_booking_def split: option.splits sum.splits) (metis refused_simps(2))+
qed

text \<open>C40: no booking can be moved: whatever the planner holds, an update raises and leaves the bookings as they are, because the
  new window reaches the planner as time objects where it parses texts.\<close>

theorem update_never_succeeds:
  "refused (fst (update_booking Ls keys_holding visible own_bookings priority_id rules now p booking_id start fin w))
   \<and> snd (update_booking Ls keys_holding visible own_bookings priority_id rules now p booking_id start fin w) = w"
  by (rule update_refused)

section \<open>The load of the bookings nobody may displace\<close>

text \<open>
  A booking of a lower priority may be displaced, so what must fit are the bookings at the highest priority \<open>Q s\<close> that
  the rules give for a profile \<open>s\<close>. \<open>top_part\<close> keeps of a booking the plans it holds at that priority.
\<close>

definition top_part :: "(string \<Rightarrow> int) \<Rightarrow> booking \<Rightarrow> booking" where
  "top_part Q b = b\<lparr>bk_plans := filter (\<lambda>x. Q (bp_subitem_id x) \<le> bp_priority x) (bk_plans b)\<rparr>"

definition top_load :: "(string \<Rightarrow> int) \<Rightarrow> booking list \<Rightarrow> string \<Rightarrow> time \<Rightarrow> int" where
  "top_load Q table plan_id t = plan_load (map (top_part Q) table) plan_id t"

lemma top_part_sel [simp]:
  "bk_start (top_part Q b) = bk_start b" "bk_end (top_part Q b) = bk_end b" "booked_units (top_part Q b) = booked_units b"
  "bk_plans (top_part Q b) = filter (\<lambda>x. Q (bp_subitem_id x) \<le> bp_priority x) (bk_plans b)"
  by (simp_all add: top_part_def booked_units_def fun_eq_iff split: option.splits)

lemma plan_load_simps [simp]:
  "plan_load [] i t = 0" "plan_load (b # bs) i t = booking_load i t b + plan_load bs i t"
  "plan_load (bs @ cs) i t = plan_load bs i t + plan_load cs i t"
  by (simp_all add: plan_load_def)

lemma top_load_simps [simp]:
  "top_load Q [] i t = 0" "top_load Q (b # bs) i t = booking_load i t (top_part Q b) + top_load Q bs i t"
  "top_load Q (bs @ cs) i t = top_load Q bs i t + top_load Q cs i t"
  by (simp_all add: top_load_def)

definition units_of_known :: "booking \<Rightarrow> bool" where
  "units_of_known b \<longleftrightarrow> (\<forall>x\<in>set (bk_plans b). 0 \<le> booked_units b x)"

lemma units_known_simps [simp]:
  "units_known []" "units_known (b # bs) \<longleftrightarrow> units_of_known b \<and> units_known bs"
  by (auto simp: units_known_def units_of_known_def)

lemma booking_load_nonneg: "units_of_known b \<Longrightarrow> 0 \<le> booking_load i t (top_part Q b)"
  by (auto simp: booking_load_def units_of_known_def intro!: sum_list_nonneg)

lemma sum_list_filter_le:
  "(\<And>x. x \<in> set xs \<Longrightarrow> 0 \<le> f x) \<Longrightarrow> sum_list (map f (filter P xs)) \<le> (sum_list (map f xs) :: int)"
  by (induction xs) (auto simp: add_increasing)

lemma booking_load_top_le:
  assumes "units_of_known b"
  shows "booking_load i t (top_part Q b) \<le> booking_load i t b"
proof -
  have "sum_list (map (booked_units b) (filter (\<lambda>x. Q (bp_subitem_id x) \<le> bp_priority x) (filter (\<lambda>x. bp_plan_id x = i) (bk_plans b))))
      \<le> sum_list (map (booked_units b) (filter (\<lambda>x. bp_plan_id x = i) (bk_plans b)))"
    by (rule sum_list_filter_le) (use assms in \<open>auto simp: units_of_known_def\<close>)
  then show ?thesis
    by (simp add: booking_load_def conj_commute)
qed

lemma booking_load_absent: "\<not> in_plan i b \<Longrightarrow> booking_load i t b = 0"
  by (auto simp: booking_load_def in_plan_def list_ex_iff filter_False)

lemma top_load_filter_le: "units_known table \<Longrightarrow> top_load Q (filter P table) i t \<le> top_load Q table i t"
  by (induction table) (auto simp: booking_load_nonneg add_increasing)

section \<open>Integrity of the planner's tables\<close>

text \<open>A booking names the plans it holds, each with its profile, and the profile is one it asked for.\<close>

definition holds_known_plans :: "plan list \<Rightarrow> booking \<Rightarrow> bool" where
  "holds_known_plans plans b \<longleftrightarrow> (\<forall>x\<in>set (bk_plans b).
     (\<exists>p\<in>set plans. pl_id p = bp_plan_id x \<and> pl_subitem_id p = bp_subitem_id x)
     \<and> (\<exists>ss. map_of (bk_reservables b) ''vgpus'' = Some (Some ss) \<and> bp_subitem_id x \<in> set ss)
     \<and> 0 \<le> booked_units b x)"

definition planner_ok :: "(string \<Rightarrow> int) \<Rightarrow> plan list \<Rightarrow> booking list \<Rightarrow> bool" where
  "planner_ok Q plans table \<longleftrightarrow> distinct (map pl_id plans) \<and> (\<forall>p\<in>set plans. 0 \<le> pl_units p)
     \<and> (\<forall>b\<in>set table. holds_known_plans plans b)
     \<and> (\<forall>p\<in>set plans. \<forall>t. top_load Q table (pl_id p) t \<le> pl_units p)"

lemma planner_ok_units: "planner_ok Q plans table \<Longrightarrow> units_known table"
  by (auto simp: planner_ok_def holds_known_plans_def units_known_def)

lemma same_plan:
  "distinct (map pl_id plans) \<Longrightarrow> p \<in> set plans \<Longrightarrow> p' \<in> set plans \<Longrightarrow> pl_id p = pl_id p' \<Longrightarrow> p = p'"
  by (auto simp: distinct_map inj_on_def)

text \<open>Inside the window of a request, the undisplaceable load of a plan is load the request counts.\<close>

lemma booking_load_blocked:
  assumes "distinct (map pl_id plans)" "holds_known_plans plans b" "p \<in> set plans"
    "start \<le> t" "t \<le> fin" "q \<le> Q (pl_subitem_id p)" "\<not> blocks (pl_id p) (pl_subitem_id p) q start fin b"
  shows "booking_load (pl_id p) t (top_part Q b) = 0"
proof (rule ccontr)
  assume load: "booking_load (pl_id p) t (top_part Q b) \<noteq> 0"
  then have cov: "bk_start b \<le> t" "t \<le> bk_end b"
    by (auto simp: booking_load_def split: if_splits)
  have "in_plan (pl_id p) (top_part Q b)"
    using load booking_load_absent by blast
  then obtain x where x: "x \<in> set (bk_plans b)" "bp_plan_id x = pl_id p" "Q (bp_subitem_id x) \<le> bp_priority x"
    by (auto simp: in_plan_def list_ex_iff)
  then obtain p' ss where "p' \<in> set plans" "pl_id p' = pl_id p" and sub: "pl_subitem_id p' = bp_subitem_id x"
      and ss: "map_of (bk_reservables b) ''vgpus'' = Some (Some ss)" "bp_subitem_id x \<in> set ss"
    using assms(2) by (fastforce simp: holds_known_plans_def)
  then have "p' = p" using same_plan [OF assms(1)] assms(3) by blast
  then have "blocks (pl_id p) (pl_subitem_id p) q start fin b"
    using x ss sub cov assms(4-6) by (auto simp: blocks_def list_ex_iff intro!: bexI [of _ x])
  then show False using assms(7) by simp
qed

lemma top_load_blocked:
  assumes "distinct (map pl_id plans)" "p \<in> set plans" "start \<le> t" "t \<le> fin" "q \<le> Q (pl_subitem_id p)"
  shows "\<forall>b\<in>set table. holds_known_plans plans b \<Longrightarrow> top_load Q table (pl_id p) t
    \<le> plan_load (filter (blocks (pl_id p) (pl_subitem_id p) q start fin) table) (pl_id p) t"
proof (induction table)
  case (Cons b table)
  have "units_of_known b"
    using Cons.prems by (auto simp: holds_known_plans_def units_of_known_def)
  then show ?case
    using Cons booking_load_top_le [of b "pl_id p" t Q] booking_load_blocked [of plans b p start t fin q Q] assms by auto
qed simp

section \<open>Adding a booking keeps the capacity\<close>

lemma set_alist_set: "set (alist_set k v xs) \<subseteq> insert (k, v) (set xs)"
  by (induction k v xs rule: alist_set.induct) auto

lemma plans_per_subitem_sound:
  assumes "plans_per_subitem L table plans now pr start fin units ss acc = Inr found" "(s, pns) \<in> set found"
  shows "(s, pns) \<in> set acc \<or> (s \<in> set ss \<and> (\<exists>q. map_of pr s = Some q
     \<and> pns = get_same_plans_for_booking L table (get_subitems_planning plans [s] now) s q start fin units))"
  using assms
proof (induction ss arbitrary: acc)
  case Nil
  then show ?case by simp
next
  case (Cons x ss)
  then obtain q where q: "map_of pr x = Some q"
    by (cases "map_of pr x") auto
  let ?v = "get_same_plans_for_booking L table (get_subitems_planning plans [x] now) x q start fin units"
  have "(s, pns) \<in> set (alist_set x ?v acc) \<or> (s \<in> set ss \<and> (\<exists>q. map_of pr s = Some q
     \<and> pns = get_same_plans_for_booking L table (get_subitems_planning plans [s] now) s q start fin units))"
    using Cons.IH [of "alist_set x ?v acc"] Cons.prems q by simp
  then show ?case
    using set_alist_set [of x ?v acc] q by auto
qed

lemma new_booking_plans_sound:
  assumes "new_booking_plans L table plans now pr rs units start fin = Inr found"
  shows "distinct (map (\<lambda>pn. pl_item_id (fst pn)) (concat (map snd found)))
    \<and> (\<forall>(p, n)\<in>set (concat (map snd found)). \<exists>q. map_of pr (pl_subitem_id p) = Some q \<and> p \<in> set plans
         \<and> pl_subitem_id p \<in> snd ` set (requested_subitems rs)
         \<and> (p, n) \<in> set (get_same_plans_for_booking L table (get_subitems_planning plans [pl_subitem_id p] now)
                          (pl_subitem_id p) q start fin units))"
proof -
  obtain all where run: "plans_per_subitem L table plans now pr start fin units (map snd (requested_subitems rs)) [] = Inr all"
    using assms by (auto simp: new_booking_plans_def split: sum.splits)
  define ne where "ne = filter (\<lambda>kv. snd kv \<noteq> []) all"
  define good where "good = (\<lambda>p n. \<exists>q. map_of pr (pl_subitem_id p) = Some q \<and> p \<in> set plans
     \<and> pl_subitem_id p \<in> snd ` set (requested_subitems rs)
     \<and> (p, n) \<in> set (get_same_plans_for_booking L table (get_subitems_planning plans [pl_subitem_id p] now)
                      (pl_subitem_id p) q start fin units))"
  have found: "found = [] \<or> (found = ne \<and> distinct (map (\<lambda>pn. pl_item_id (fst pn)) (concat (map snd ne))))"
    using assms run
    by (auto simp: new_booking_plans_def Let_def ne_def length_remdups_eq [symmetric] length_remdups_card_conv card_distinct split: if_splits)
  show ?thesis
  proof (cases "found = []")
    case False
    have good: "good p n" if pn: "(p, n) \<in> set (concat (map snd found))" for p n
    proof -
      obtain s pns where s: "(s, pns) \<in> set all" "(p, n) \<in> set pns"
        using pn False found by (auto simp: ne_def)
      then obtain q where q: "map_of pr s = Some q" "s \<in> snd ` set (requested_subitems rs)"
          "pns = get_same_plans_for_booking L table (get_subitems_planning plans [s] now) s q start fin units"
        using plans_per_subitem_sound [OF run s(1)] by auto
      have "p \<in> set (get_subitems_planning plans [s] now)"
        using s(2) q(3) same_plans_from by fastforce
      then have "p \<in> set plans" "pl_subitem_id p = s"
        by (auto simp: get_subitems_planning_def)
      then show ?thesis using q s(2) by (auto simp: good_def)
    qed
    then have "\<forall>(p, n)\<in>set (concat (map snd found)). good p n"
      by blast
    moreover have "distinct (map (\<lambda>pn. pl_item_id (fst pn)) (concat (map snd found)))"
      using False found by simp
    ultimately show ?thesis
      unfolding good_def by simp
  qed simp
qed

text \<open>\<open>accepted\<close> is what a stored booking has passed.\<close>

definition accepted ::
  "('d, units_id) interval_lib \<Rightarrow> time \<Rightarrow> booking_world \<Rightarrow> (string \<times> string list option) list \<Rightarrow> int \<Rightarrow> (string \<times> int) list \<Rightarrow> booking \<Rightarrow> bool" where
  "accepted L now w rs units pr b \<longleftrightarrow> (\<exists>new_id u req start fin found. b = booking_row new_id u req units rs start fin pr found
     \<and> new_booking_plans L (bw_bookings w) (bw_plans w) now pr rs units start fin = Inr found)"

lemma acceptedI:
  "new_booking_plans L (bw_bookings w) (bw_plans w) now pr rs units start fin = Inr found
   \<Longrightarrow> accepted L now w rs units pr (booking_row new_id u req units rs start fin pr found)"
  unfolding accepted_def by blast

definition stores ::
  "('d, units_id) interval_lib \<Rightarrow> (string \<Rightarrow> string \<Rightarrow> ((string \<times> string list option) list \<times> int) access)
     \<Rightarrow> (string \<Rightarrow> string \<Rightarrow> string option) \<Rightarrow> priority_rule list \<Rightarrow> time \<Rightarrow> payload \<Rightarrow> booking_request \<Rightarrow> booking_world \<Rightarrow> booking_world \<Rightarrow> bool" where
  "stores L get_reservables pid rules now p req w w' \<longleftrightarrow> bw_plans w' = bw_plans w \<and> (bw_bookings w' = bw_bookings w
    \<or> (\<exists>rs units pr l b. get_reservables (rq_item_type req) (rq_item_id req) = Inr (rs, units)
         \<and> payload_priority pid rules p rs = Inr (pr, l) \<and> accepted L now w rs units pr b \<and> bw_bookings w' = bw_bookings w @ [b]))"

lemma stores_same: "stores L get_reservables pid rules now p req w w"
  by (simp add: stores_def)

lemma stores_new:
  assumes "get_reservables (rq_item_type req) (rq_item_id req) = Inr (rs, units)" "payload_priority pid rules p rs = Inr (pr, l)"
    "new_booking_plans L (bw_bookings w) (bw_plans w) now pr rs units start fin = Inr found"
    "bw_plans w' = bw_plans w" "bw_bookings w' = bw_bookings w @ [booking_row new_id u req units rs start fin pr found]"
  shows "stores L get_reservables pid rules now p req w w'"
  unfolding stores_def using assms acceptedI [OF assms(3)] by blast

lemma add_booking_stores:
  "stores L get_reservables pid rules now p req w (snd (add_booking L get_reservables pid rules lims now new_id p req w))"
  unfolding add_booking_def Let_def
  by (simp add: stores_same split: sum.split option.split prod.split) (auto intro: stores_new)

definition only_vgpus :: "(string \<times> string list option) list \<Rightarrow> bool" where
  "only_vgpus rs \<longleftrightarrow> distinct (map fst rs) \<and> (\<forall>k\<in>fst ` set rs. k = ''vgpus'')"

lemma only_vgpus_requested:
  assumes "only_vgpus rs" "s \<in> snd ` set (requested_subitems rs)"
  shows "\<exists>ss. map_of rs ''vgpus'' = Some (Some ss) \<and> s \<in> set ss"
proof -
  obtain k ss where "(k, Some ss) \<in> set rs" "s \<in> set ss"
    using assms(2) by (auto simp: requested_subitems_def split: option.splits)
  then show ?thesis
    using assms(1) by (force simp: only_vgpus_def)
qed

lemma filter_distinct_key:
  assumes "distinct (map f xs)" "x \<in> set xs"
  shows "filter (\<lambda>y. f y = f x) xs = [x]"
  using assms
proof (induction xs)
  case (Cons y ys)
  have new: "f y \<noteq> f z" if "z \<in> set ys" for z
    using Cons.prems(1) imageI [OF that, of f] by auto
  show ?case
  proof (cases "x = y")
    case True
    have "filter (\<lambda>z. f z = f y) ys = []"
      unfolding filter_empty_conv using new by metis
    then show ?thesis using True by simp
  next
    case False
    then have "x \<in> set ys" using Cons.prems(2) by simp
    then show ?thesis using Cons.IH Cons.prems(1) new [of x] by simp
  qed
qed simp

lemma distinct_map_refine:
  assumes "distinct (map f xs)" "\<And>x y. x \<in> set xs \<Longrightarrow> y \<in> set xs \<Longrightarrow> g x = g y \<Longrightarrow> f x = f y"
  shows "distinct (map g xs)"
  unfolding distinct_map inj_on_def using assms unfolding distinct_map inj_on_def by blast

lemma new_booking_plans_entry:
  assumes "new_booking_plans L table plans now pr rs units start fin = Inr found" "(p, n) \<in> set (concat (map snd found))"
  shows "\<exists>q. map_of pr (pl_subitem_id p) = Some q \<and> p \<in> set plans \<and> pl_subitem_id p \<in> snd ` set (requested_subitems rs)
     \<and> (p, n) \<in> set (get_same_plans_for_booking L table (get_subitems_planning plans [pl_subitem_id p] now)
                      (pl_subitem_id p) q start fin units)"
  using bspec [OF conjunct2 [OF new_booking_plans_sound [OF assms(1)]] assms(2)] by (simp only: prod.case)

text \<open>What a row stores of one chosen plan.\<close>

definition entry_of :: "(string \<times> int) list \<Rightarrow> plan \<times> int \<Rightarrow> booked_plan" where
  "entry_of pr = (\<lambda>(p, n). \<lparr>bp_plan_id = pl_id p, bp_item_id = pl_item_id p, bp_subitem_id = pl_subitem_id p,
     bp_priority = the (map_of pr (pl_subitem_id p)), bp_units_booked = Some n\<rparr>)"

lemma booking_row_sel:
  "bk_plans (booking_row new_id u req units rs start fin pr found) = map (entry_of pr) (concat (map snd found))"
  "bk_reservables (booking_row new_id u req units rs start fin pr found) = rs"
  "bk_start (booking_row new_id u req units rs start fin pr found) = start"
  "bk_end (booking_row new_id u req units rs start fin pr found) = fin"
  by (simp_all add: booking_row_def entry_of_def)

definition fits_beside :: "(string \<Rightarrow> int) \<Rightarrow> booking_world \<Rightarrow> (string \<times> string list option) list \<Rightarrow> (string \<times> int) list \<Rightarrow> time \<Rightarrow> time \<Rightarrow> plan \<Rightarrow> int \<Rightarrow> bool" where
  "fits_beside Q w rs pr start fin p n \<longleftrightarrow> p \<in> set (bw_plans w) \<and> pl_subitem_id p \<in> snd ` set (requested_subitems rs) \<and> 0 < n
     \<and> the (map_of pr (pl_subitem_id p)) \<le> Q (pl_subitem_id p)
     \<and> (\<forall>t. plan_load (filter (blocks (pl_id p) (pl_subitem_id p) (the (map_of pr (pl_subitem_id p))) start fin) (bw_bookings w)) (pl_id p) t
          + n \<le> pl_units p)"

lemma chosen_fits:
  assumes lib: "interval_library L valid den" and known: "units_known (bw_bookings w)" and units: "0 < units"
    and pr: "\<forall>(s, q)\<in>set pr. q \<le> Q s"
    and run: "new_booking_plans L (bw_bookings w) (bw_plans w) now pr rs units start fin = Inr found"
    and pn: "(p, n) \<in> set (concat (map snd found))"
  shows "fits_beside Q w rs pr start fin p n"
proof -
  obtain q where q: "map_of pr (pl_subitem_id p) = Some q" "p \<in> set (bw_plans w)" "pl_subitem_id p \<in> snd ` set (requested_subitems rs)"
      "(p, n) \<in> set (get_same_plans_for_booking L (bw_bookings w) (get_subitems_planning (bw_plans w) [pl_subitem_id p] now)
          (pl_subitem_id p) q start fin units)"
    using new_booking_plans_entry [OF run pn] by (elim exE conjE) (rule that)
  have "q \<le> Q (pl_subitem_id p)"
    using pr map_of_SomeD [OF q(1)] by auto
  then show ?thesis
    unfolding fits_beside_def using same_plans_room [OF lib known units q(4)] q by simp
qed

lemma chosen_distinct:
  assumes ids: "distinct (map pl_id (bw_plans w))"
    and run: "new_booking_plans L (bw_bookings w) (bw_plans w) now pr rs units start fin = Inr found"
  shows "distinct (map bp_plan_id (map (entry_of pr) (concat (map snd found))))"
proof -
  have "distinct (map (\<lambda>pn. pl_item_id (fst pn)) (concat (map snd found)))"
    by (rule conjunct1 [OF new_booking_plans_sound [OF run]])
  then have "distinct (map (\<lambda>pn. pl_id (fst pn)) (concat (map snd found)))"
  proof (rule distinct_map_refine)
    fix x y
    assume xy: "x \<in> set (concat (map snd found))" "y \<in> set (concat (map snd found))" "pl_id (fst x) = pl_id (fst y)"
    have "fst x \<in> set (bw_plans w)" "fst y \<in> set (bw_plans w)"
      using new_booking_plans_entry [OF run, of "fst x" "snd x"] new_booking_plans_entry [OF run, of "fst y" "snd y"] xy(1,2) by auto
    then have "fst x = fst y"
      using same_plan [OF ids] xy(3) by blast
    then show "pl_item_id (fst x) = pl_item_id (fst y)" by simp
  qed
  then show ?thesis
    by (simp only: map_map comp_def entry_of_def case_prod_unfold booked_plan.select_convs)
qed

text \<open>The share of a new booking fits above what nobody may displace.\<close>

lemma row_load_fits:
  assumes ok: "planner_ok Q (bw_plans w) (bw_bookings w)" and P: "P \<in> set (bw_plans w)"
    and plans: "bk_plans b = map (entry_of pr) pns" "bk_start b = start" "bk_end b = fin"
    and fits: "\<And>p n. (p, n) \<in> set pns \<Longrightarrow> fits_beside Q w rs pr start fin p n"
    and distinct: "distinct (map bp_plan_id (bk_plans b))"
  shows "top_load Q (bw_bookings w) (pl_id P) t + booking_load (pl_id P) t (top_part Q b) \<le> pl_units P"
proof (cases "booking_load (pl_id P) t (top_part Q b) = 0")
  case True
  then show ?thesis using ok P by (simp add: planner_ok_def)
next
  case False
  have ids: "distinct (map pl_id (bw_plans w))"
    using ok by (simp add: planner_ok_def)
  define top where "top = filter (\<lambda>x. Q (bp_subitem_id x) \<le> bp_priority x) (bk_plans b)"
  have win: "start \<le> t" "t \<le> fin"
      and load: "booking_load (pl_id P) t (top_part Q b) = sum_list (map (booked_units b) (filter (\<lambda>x. bp_plan_id x = pl_id P) top))"
    using False by (auto simp: booking_load_def plans(2,3) top_def split: if_splits)
  have "filter (\<lambda>x. bp_plan_id x = pl_id P) top \<noteq> []"
    using False load by auto
  then obtain x where x: "x \<in> set top" "bp_plan_id x = pl_id P"
    by (auto simp: filter_empty_conv)
  have "distinct (map bp_plan_id top)"
    unfolding top_def by (rule distinct_map_filter) (rule distinct)
  then have single: "filter (\<lambda>x. bp_plan_id x = pl_id P) top = [x]"
    using filter_distinct_key [of bp_plan_id top x] x by simp
  obtain p n where e: "x = entry_of pr (p, n)" and pn: "(p, n) \<in> set pns"
    using x(1) by (auto simp: top_def plans)
  have "p = P"
    by (rule same_plan [OF ids]) (use fits [OF pn] P x(2) in \<open>simp_all add: fits_beside_def e entry_of_def\<close>)
  then have "booking_load (pl_id P) t (top_part Q b) = n"
    using load single fits [OF pn] by (simp add: e fits_beside_def booked_units_def entry_of_def)
  moreover have "top_load Q (bw_bookings w) (pl_id P) t \<le> plan_load (filter (blocks (pl_id P) (pl_subitem_id P)
      (the (map_of pr (pl_subitem_id P))) start fin) (bw_bookings w)) (pl_id P) t"
    by (rule top_load_blocked [OF ids P win]) (use fits [OF pn] ok in \<open>auto simp: \<open>p = P\<close> planner_ok_def fits_beside_def\<close>)
  moreover have "plan_load (filter (blocks (pl_id P) (pl_subitem_id P)
      (the (map_of pr (pl_subitem_id P))) start fin) (bw_bookings w)) (pl_id P) t + n \<le> pl_units P"
    using fits [OF pn] by (simp add: \<open>p = P\<close> fits_beside_def)
  ultimately show ?thesis by linarith
qed

lemma row_holds_known_plans:
  assumes vg: "only_vgpus (bk_reservables b)" and plans: "bk_plans b = map (entry_of pr) pns"
    and fits: "\<And>p n. (p, n) \<in> set pns \<Longrightarrow> fits_beside Q w (bk_reservables b) pr start fin p n"
  shows "holds_known_plans (bw_plans w) b"
  unfolding holds_known_plans_def
proof
  fix x
  assume "x \<in> set (bk_plans b)"
  then obtain p n where x: "x = entry_of pr (p, n)" and pn: "(p, n) \<in> set pns"
    by (auto simp: plans)
  have "p \<in> set (bw_plans w)" "pl_id p = bp_plan_id x" "pl_subitem_id p = bp_subitem_id x" "0 \<le> booked_units b x"
    using fits [OF pn] by (simp_all add: x entry_of_def fits_beside_def booked_units_def)
  moreover have "\<exists>ss. map_of (bk_reservables b) ''vgpus'' = Some (Some ss) \<and> bp_subitem_id x \<in> set ss"
    using only_vgpus_requested [OF vg] fits [OF pn] by (simp add: x entry_of_def fits_beside_def)
  ultimately show "(\<exists>p\<in>set (bw_plans w). pl_id p = bp_plan_id x \<and> pl_subitem_id p = bp_subitem_id x)
      \<and> (\<exists>ss. map_of (bk_reservables b) ''vgpus'' = Some (Some ss) \<and> bp_subitem_id x \<in> set ss) \<and> 0 \<le> booked_units b x"
    by blast
qed

lemma accepted_row:
  assumes lib: "interval_library L valid den" and ok: "planner_ok Q (bw_plans w) (bw_bookings w)"
    and vg: "only_vgpus rs" and units: "0 < units" and pr: "\<forall>(s, q)\<in>set pr. q \<le> Q s"
    and acc: "accepted L now w rs units pr b"
  shows "planner_ok Q (bw_plans w) (bw_bookings w @ [b])"
proof -
  obtain new_id u req start fin found where b: "b = booking_row new_id u req units rs start fin pr found"
      and run: "new_booking_plans L (bw_bookings w) (bw_plans w) now pr rs units start fin = Inr found"
    using acc unfolding accepted_def by (elim exE conjE) (rule that)
  note row = booking_row_sel [of new_id u req units rs start fin pr found, folded b]
  note fits = chosen_fits [where Q = Q, OF lib planner_ok_units [OF ok] units pr run]
  have "distinct (map pl_id (bw_plans w))"
    using ok by (simp add: planner_ok_def)
  then have distinct: "distinct (map bp_plan_id (bk_plans b))"
    unfolding row(1) by (rule chosen_distinct [OF _ run])
  have "holds_known_plans (bw_plans w) b"
    by (rule row_holds_known_plans [where Q = Q and start = start and fin = fin, OF _ row(1)]) (simp_all only: row(2) vg fits)
  moreover have "top_load Q (bw_bookings w) (pl_id P) t + booking_load (pl_id P) t (top_part Q b) \<le> pl_units P"
    if "P \<in> set (bw_plans w)" for P t
    by (rule row_load_fits [OF ok that row(1,3,4) fits distinct])
  ultimately show ?thesis
    using ok by (simp add: planner_ok_def)
qed

section \<open>The other operations keep the capacity\<close>

definition plan_key :: "plan \<Rightarrow> string \<times> string \<times> int" where
  "plan_key p = (pl_id p, pl_subitem_id p, pl_units p)"

lemma all_plan_key: "(\<forall>p\<in>set plans. R (pl_id p) (pl_units p)) \<longleftrightarrow> (\<forall>k\<in>set (map plan_key plans). R (fst k) (snd (snd k)))"
  by (simp add: plan_key_def)

lemma ex_plan_key: "(\<exists>p\<in>set plans. pl_id p = i \<and> pl_subitem_id p = s) \<longleftrightarrow> (\<exists>k\<in>set (map plan_key plans). fst k = i \<and> fst (snd k) = s)"
  by (simp add: plan_key_def)

lemma planner_ok_cong:
  assumes "map plan_key plans' = map plan_key plans"
  shows "planner_ok Q plans' table \<longleftrightarrow> planner_ok Q plans table"
proof -
  have "map pl_id ps = map fst (map plan_key ps)" for ps
    by (simp add: plan_key_def)
  then have ids: "map pl_id plans' = map pl_id plans"
    using assms by metis
  have all: "(\<forall>p\<in>set plans'. R (pl_id p) (pl_units p)) \<longleftrightarrow> (\<forall>p\<in>set plans. R (pl_id p) (pl_units p))" for R
    unfolding all_plan_key assms ..
  have holds: "holds_known_plans plans' b \<longleftrightarrow> holds_known_plans plans b" for b
    unfolding holds_known_plans_def ex_plan_key assms ..
  show ?thesis
    unfolding planner_ok_def ids holds all [of "\<lambda>i u. 0 \<le> u"] all [of "\<lambda>i u. \<forall>t. top_load Q table i t \<le> u"] ..
qed

lemma map_key_update_row:
  "(\<And>e. plan_key (f e) = plan_key e) \<Longrightarrow> map plan_key (update_plan_row i f plans) = map plan_key plans"
  by (simp add: update_plan_row_def)

lemma place_plan_keys:
  assumes "place_plan io so jb ja p plans = Inr (i, plans')"
  shows "map plan_key plans' = map plan_key plans \<or> map plan_key plans' = map plan_key (plans @ [p])"
proof -
  have start: "map plan_key (snd (join_existing_plan_after_new_plan_start p ps)) = map plan_key ps" for ps
    by (auto simp: join_existing_plan_after_new_plan_start_def map_key_update_row plan_key_def split: option.splits)
  have fin: "map plan_key (snd (join_existing_plan_before_new_plan_end p ps)) = map plan_key ps" for ps
    by (auto simp: join_existing_plan_before_new_plan_end_def map_key_update_row plan_key_def split: option.splits)
  obtain j1 p1 where j1: "(if jb then join_existing_plan_after_new_plan_start p plans else (None, plans)) = (j1, p1)"
    by (meson surj_pair)
  obtain j2 p2 where j2: "(if ja then join_existing_plan_before_new_plan_end p p1 else (None, p1)) = (j2, p2)"
    by (meson surj_pair)
  have "map plan_key p1 = map plan_key plans" "map plan_key p2 = map plan_key p1"
    using start [of plans] j1 fin [of p1] j2 by (auto split: if_splits)
  moreover have "plans' = p2 \<or> plans' = p2 @ [p]"
    using assms by (auto simp: place_plan_def j1 j2 split: sum.splits option.splits)
  ultimately show ?thesis by auto
qed

lemma top_load_unused:
  assumes "\<forall>b\<in>set table. \<not> in_plan i b"
  shows "top_load Q table i t = 0"
  using assms
proof (induction table)
  case (Cons b table)
  have "\<not> in_plan i (top_part Q b)"
    using Cons.prems by (auto simp: in_plan_def list_ex_iff)
  then show ?case using Cons by (simp add: booking_load_absent)
qed simp

lemma planner_ok_new_plan:
  assumes "planner_ok Q plans table" "pl_id p \<notin> pl_id ` set plans" "0 \<le> pl_units p"
  shows "planner_ok Q (plans @ [p]) table"
proof -
  have "\<not> in_plan (pl_id p) b" if "b \<in> set table" for b
    using assms(1,2) that unfolding planner_ok_def holds_known_plans_def in_plan_def list_ex_iff by (metis imageI)
  then have "top_load Q table (pl_id p) t = 0" for t
    by (intro top_load_unused) blast
  moreover have "holds_known_plans (plans @ [p]) b" if "holds_known_plans plans b" for b
    using that by (auto simp: holds_known_plans_def)
  ultimately show ?thesis
    using assms by (simp add: planner_ok_def)
qed

definition profile_units_ok :: "(string \<Rightarrow> string \<Rightarrow> string \<Rightarrow> int option) \<Rightarrow> bool" where
  "profile_units_ok get_subitem_units \<longleftrightarrow> (\<forall>a b c n. get_subitem_units a b c = Some n \<longrightarrow> 0 \<le> n)"

lemma add_plan_ok:
  assumes "planner_ok Q plans table" "new_id \<notin> pl_id ` set plans" "profile_units_ok gsu"
    "add_plan gsu new_id user data plans = Inr (i, plans')"
  shows "planner_ok Q plans' table"
proof -
  obtain io so jb ja p where run: "place_plan io so jb ja p plans = Inr (i, plans')" and p: "pl_id p = new_id" "0 \<le> pl_units p"
    using assms(3,4) by (auto simp: profile_units_ok_def add_plan_def Let_def split: if_splits option.splits sum.splits)
  have "planner_ok Q (plans @ [p]) table"
    by (rule planner_ok_new_plan) (use assms p in simp_all)
  then show ?thesis
    using place_plan_keys [OF run] assms(1) planner_ok_cong by blast
qed

lemma planner_ok_filter:
  assumes "planner_ok Q plans table"
  shows "planner_ok Q plans (filter P table)"
  using assms top_load_filter_le [OF planner_ok_units [OF assms]] unfolding planner_ok_def
  by (fastforce intro: order_trans)

text \<open>Dropping plans, with the bookings losing what they hold of them.\<close>

lemma planner_ok_drop_plans:
  assumes ok: "planner_ok Q plans table" and unused: "\<And>b x. b \<in> set table \<Longrightarrow> x \<in> set (bk_plans b) \<Longrightarrow> bp_plan_id x \<notin> D"
  shows "planner_ok Q (filter (\<lambda>p. pl_id p \<notin> D) plans) table"
proof -
  have "holds_known_plans (filter (\<lambda>p. pl_id p \<notin> D) plans) b" if "b \<in> set table" for b
    using ok unused [OF that] that unfolding planner_ok_def holds_known_plans_def by fastforce
  then show ?thesis
    using ok by (simp add: planner_ok_def distinct_map_filter)
qed

definition detach :: "string set \<Rightarrow> booking \<Rightarrow> booking" where
  "detach D b = b\<lparr>bk_plans := filter (\<lambda>x. bp_plan_id x \<notin> D) (bk_plans b)\<rparr>"

lemma detach_sel [simp]:
  "bk_start (detach D b) = bk_start b" "bk_end (detach D b) = bk_end b" "booked_units (detach D b) = booked_units b"
  "bk_plans (detach D b) = filter (\<lambda>x. bp_plan_id x \<notin> D) (bk_plans b)" "bk_reservables (detach D b) = bk_reservables b"
  by (simp_all add: detach_def booked_units_def fun_eq_iff split: option.splits)

lemma booking_load_detach:
  assumes "units_of_known b"
  shows "booking_load i t (top_part Q (detach D b)) \<le> booking_load i t (top_part Q b)"
proof -
  have "sum_list (map (booked_units b) (filter (\<lambda>x. bp_plan_id x \<notin> D) (filter (\<lambda>x. bp_plan_id x = i \<and> Q (bp_subitem_id x) \<le> bp_priority x) (bk_plans b))))
      \<le> sum_list (map (booked_units b) (filter (\<lambda>x. bp_plan_id x = i \<and> Q (bp_subitem_id x) \<le> bp_priority x) (bk_plans b)))"
    by (rule sum_list_filter_le) (use assms in \<open>auto simp: units_of_known_def\<close>)
  then show ?thesis
    by (simp add: booking_load_def conj_commute conj_left_commute conj_assoc)
qed

lemma planner_ok_detach:
  assumes "planner_ok Q plans table"
  shows "planner_ok Q plans (map (detach D) table)"
proof -
  have "units_known table" by (rule planner_ok_units [OF assms])
  then have "top_load Q (map (detach D) table) i t \<le> top_load Q table i t" for i t
  proof (induction table)
    case (Cons b table)
    then show ?case using booking_load_detach [of b i t Q D] by simp
  qed simp
  moreover have "holds_known_plans plans (detach D b)" if "holds_known_plans plans b" for b
    using that by (simp add: holds_known_plans_def)
  ultimately show ?thesis
    using assms unfolding planner_ok_def by (fastforce intro: order_trans)
qed

lemma delete_plan_ok:
  assumes "planner_ok Q plans table" "delete_plan i plans table = Inr (plans', table')"
  shows "planner_ok Q plans' table'"
proof -
  have "planner_ok Q (filter (\<lambda>p. pl_id p \<notin> {i}) plans) (filter (\<lambda>b. \<not> in_plan i b) table)"
    by (rule planner_ok_drop_plans [OF planner_ok_filter [OF assms(1)]]) (auto simp: in_plan_def list_ex_iff)
  then show ?thesis
    using assms(2) by (auto simp: delete_plan_def split: if_splits)
qed

lemma delete_card_subitem_plans_ok:
  assumes ok: "planner_ok Q plans table" and run: "delete_card_subitem_plans item sub plans table = (n, plans', table')"
  shows "planner_ok Q plans' table'"
proof -
  define D where "D = set (map pl_id (filter (\<lambda>p. pl_item_id p = item \<and> pl_subitem_id p = sub) plans))"
  define left where "left = filter (\<lambda>b. \<not> list_ex (\<lambda>x. bp_plan_id x \<in> D) (bk_plans b) \<or> filter (\<lambda>x. bp_plan_id x \<notin> D) (bk_plans b) \<noteq> []) table"
  have same: "detach D b = b" if "\<not> list_ex (\<lambda>x. bp_plan_id x \<in> D) (bk_plans b)" for b
    using that by (simp add: detach_def list_ex_iff filter_id_conv)
  have "planner_ok Q (filter (\<lambda>p. pl_id p \<notin> D) plans) (map (detach D) left)"
    by (rule planner_ok_drop_plans [OF planner_ok_detach]) (auto simp: left_def planner_ok_filter [OF ok])
  moreover have detached: "map (\<lambda>b. if list_ex (\<lambda>x. bp_plan_id x \<in> D) (bk_plans b)
      then b\<lparr>bk_plans := filter (\<lambda>x. bp_plan_id x \<notin> D) (bk_plans b)\<rparr> else b) left = map (detach D) left"
    using same by (auto simp: detach_def)
  moreover have "(plans', table') = (plans, table) \<or> (plans', table') = (filter (\<lambda>p. pl_id p \<notin> D) plans, map (detach D) left)"
    using run unfolding delete_card_subitem_plans_def Let_def D_def [symmetric] left_def [symmetric] detached
    by (simp split: if_splits)
  ultimately show ?thesis
    using ok by auto
qed

lemma update_plan_ok:
  assumes "planner_ok Q plans table" "new_id \<notin> pl_id ` set plans" "profile_units_ok gsu"
    "update_plan gsu new_id user i start fin plans table = (table', r)"
  shows "planner_ok Q (case r of Inl _ \<Rightarrow> plans | Inr (_, plans') \<Rightarrow> plans') table'"
proof -
  have "planner_ok Q plans table'"
    using assms(1,4) by (auto simp: update_plan_def Let_def planner_ok_filter split: option.splits)
  moreover have "planner_ok Q ps table'" if res: "r = Inr (k, ps)" for k ps
  proof -
    obtain data where "add_plan gsu new_id user data plans = Inr (k, ps)"
      using assms(4) res by (auto simp: update_plan_def Let_def split: option.splits)
    then show ?thesis
      using add_plan_ok [OF \<open>planner_ok Q plans table'\<close> assms(2,3)] by blast
  qed
  ultimately show ?thesis
    by (simp split: sum.split)
qed

definition fewer_bookings :: "booking_world \<Rightarrow> booking_world \<Rightarrow> bool" where
  "fewer_bookings w w' \<longleftrightarrow> bw_plans w' = bw_plans w \<and> (\<exists>P. bw_bookings w' = filter P (bw_bookings w))"

lemma fewer_bookingsI:
  "fewer_bookings w w"
  "bw_plans v = bw_plans w \<Longrightarrow> bw_bookings v = bw_bookings w \<Longrightarrow> fewer_bookings w (v\<lparr>bw_bookings := filter P (bw_bookings v)\<rparr>)"
proof -
  show "fewer_bookings w w"
    unfolding fewer_bookings_def by (intro conjI exI [of _ "\<lambda>_. True"]) simp_all
  show "fewer_bookings w (v\<lparr>bw_bookings := filter P (bw_bookings v)\<rparr>)"
    if "bw_plans v = bw_plans w" "bw_bookings v = bw_bookings w"
    unfolding fewer_bookings_def using that by (intro conjI exI [of _ P]) simp_all
qed

lemma delete_booking_fewer: "fewer_bookings w (snd (delete_booking status tagged now i w))"
proof -
  have "bw_plans (release_desktops ds w) = bw_plans w" "bw_bookings (release_desktops ds w) = bw_bookings w" for ds
    by (simp_all add: release_desktops_def)
  then have gone: "fewer_bookings w ((release_desktops ds w)\<lparr>bw_bookings := filter P (bw_bookings w)\<rparr>)" for ds P
    using fewer_bookingsI(2) [of "release_desktops ds w" w P] by simp
  show ?thesis
    by (simp add: delete_booking_def Let_def fewer_bookingsI gone \<open>\<And>ds. bw_bookings (release_desktops ds w) = bw_bookings w\<close> split: option.split)
qed

section \<open>Capacity of the planner under every operation\<close>

text \<open>
  One operation of the planner or of the bookings, in any world. \<open>Q\<close> bounds the priorities the rules give. A booking asks for GPU profiles
  and for at least one unit, and a new plan has an unused id. Each operation is one step: adding a booking or a plan holds a lease on the
  profiles or the card from its check to its write. The deletions take no lease, so a deletion inside that section is outside this model.
\<close>

inductive booking_step :: "('d, units_id) interval_lib \<Rightarrow> (string \<Rightarrow> int) \<Rightarrow> booking_world \<Rightarrow> booking_world \<Rightarrow> bool"
  for L :: "('d, units_id) interval_lib" and Q :: "string \<Rightarrow> int" where
  new_booking: "(\<And>ty i rs n. get_reservables ty i = Inr (rs, n) \<Longrightarrow> only_vgpus rs \<and> 0 < n)
    \<Longrightarrow> (\<And>rs pr l. payload_priority pid rules p rs = Inr (pr, l) \<Longrightarrow> \<forall>(s, q)\<in>set pr. q \<le> Q s)
    \<Longrightarrow> booking_step L Q w (snd (add_booking L get_reservables pid rules lims now new_id p req w))"
| move_booking: "booking_step L Q w (snd (update_booking (Ls :: ('d, 'd, 'd, 'd, 'd) planner_libs) keys_holding visible own_bookings pid rules now p i start fin w))"
| drop_booking: "booking_step L Q w (snd (delete_booking status tagged now i w))"
| new_plan: "new_id \<notin> pl_id ` set (bw_plans w) \<Longrightarrow> profile_units_ok get_subitem_units
    \<Longrightarrow> add_plan get_subitem_units new_id user data (bw_plans w) = Inr (i, plans) \<Longrightarrow> booking_step L Q w (w\<lparr>bw_plans := plans\<rparr>)"
| change_plan: "new_id \<notin> pl_id ` set (bw_plans w) \<Longrightarrow> profile_units_ok get_subitem_units
    \<Longrightarrow> update_plan get_subitem_units new_id user i start fin (bw_plans w) (bw_bookings w) = (bookings, r)
    \<Longrightarrow> booking_step L Q w (w\<lparr>bw_plans := (case r of Inl _ \<Rightarrow> bw_plans w | Inr (_, plans) \<Rightarrow> plans), bw_bookings := bookings\<rparr>)"
| drop_plan: "delete_plan i (bw_plans w) (bw_bookings w) = Inr (plans, bookings)
    \<Longrightarrow> booking_step L Q w (w\<lparr>bw_plans := plans, bw_bookings := bookings\<rparr>)"
| disable_profile: "delete_card_subitem_plans itm sub (bw_plans w) (bw_bookings w) = (n, plans, bookings)
    \<Longrightarrow> booking_step L Q w (w\<lparr>bw_plans := plans, bw_bookings := bookings\<rparr>)"
| elsewhere: "booking_step L Q w (w\<lparr>bw_tables := db, bw_desktop_booking := f\<rparr>)"

definition world_ok :: "(string \<Rightarrow> int) \<Rightarrow> booking_world \<Rightarrow> bool" where
  "world_ok Q w \<longleftrightarrow> planner_ok Q (bw_plans w) (bw_bookings w)"

lemma update_booking_keeps: "snd (update_booking Ls keys_holding visible own_bookings pid rules now p i start fin w) = w"
  by (rule update_refused [THEN conjunct2])

lemma add_booking_ok:
  assumes lib: "interval_library L valid den" and ok: "world_ok Q w"
    and shape: "\<And>ty i rs n. get_reservables ty i = Inr (rs, n) \<Longrightarrow> only_vgpus rs \<and> 0 < n"
    and pr: "\<And>rs pr l. payload_priority pid rules p rs = Inr (pr, l) \<Longrightarrow> \<forall>(s, q)\<in>set pr. q \<le> Q s"
  shows "world_ok Q (snd (add_booking L get_reservables pid rules lims now new_id p req w))" (is "world_ok Q ?w'")
proof -
  have st: "stores L get_reservables pid rules now p req w ?w'"
    by (rule add_booking_stores)
  show ?thesis
  proof (cases "bw_bookings ?w' = bw_bookings w")
    case True
    then show ?thesis
      using st ok by (simp add: stores_def world_ok_def)
  next
    case False
    then obtain rs units prs l b where b: "get_reservables (rq_item_type req) (rq_item_id req) = Inr (rs, units)"
        "payload_priority pid rules p rs = Inr (prs, l)" "accepted L now w rs units prs b" "bw_bookings ?w' = bw_bookings w @ [b]"
      using st unfolding stores_def by blast
    have "planner_ok Q (bw_plans w) (bw_bookings w @ [b])"
      using accepted_row [OF lib _ _ _ pr [OF b(2)] b(3)] shape [OF b(1)] ok by (simp add: world_ok_def)
    then show ?thesis
      using st b(4) by (simp add: stores_def world_ok_def)
  qed
qed

interpretation capacity: invariant_system "booking_step L Q" "\<lambda>w. interval_library L valid den \<longrightarrow> world_ok Q w" for L Q valid den
proof unfold_locales
  fix w w'
  assume step: "booking_step L Q w w'" and inv: "interval_library L valid den \<longrightarrow> world_ok Q w"
  show "interval_library L valid den \<longrightarrow> world_ok Q w'"
  proof
    assume lib: "interval_library L valid den"
    have ok: "planner_ok Q (bw_plans w) (bw_bookings w)"
      using inv lib by (simp add: world_ok_def)
    from step show "world_ok Q w'"
    proof cases
      case (new_booking get_reservables pid rules p lims now new_id req)
      then show ?thesis using add_booking_ok [OF lib] inv lib by blast
    next
      case move_booking
      then show ?thesis using ok by (simp add: update_booking_keeps world_ok_def)
    next
      case (drop_booking status tagged now i)
      then show ?thesis
        using delete_booking_fewer [of w status tagged now i] planner_ok_filter [OF ok]
        unfolding fewer_bookings_def world_ok_def by auto
    next
      case new_plan
      then show ?thesis using add_plan_ok [OF ok] by (simp add: world_ok_def)
    next
      case change_plan
      then show ?thesis using update_plan_ok [OF ok] by (simp add: world_ok_def)
    next
      case drop_plan
      then show ?thesis using delete_plan_ok [OF ok] by (simp add: world_ok_def)
    next
      case disable_profile
      then show ?thesis using delete_card_subitem_plans_ok [OF ok] by (simp add: world_ok_def)
    next
      case elsewhere
      then show ?thesis using ok by (simp add: world_ok_def)
    qed
  qed
qed

text \<open>C5: starting from an empty planner, whatever sequence of operations on plans and bookings runs, at every instant the units
  that bookings of the highest priority hold of a plan stay within the units of the plan, and every booking names existing plans only.\<close>

theorem bookings_never_exceed_capacity:
  assumes "interval_library L valid den" "(booking_step L Q)\<^sup>*\<^sup>* w0 w" "bw_plans w0 = []" "bw_bookings w0 = []"
  shows "(\<forall>p\<in>set (bw_plans w). \<forall>t. top_load Q (bw_bookings w) (pl_id p) t \<le> pl_units p)
     \<and> (\<forall>b\<in>set (bw_bookings w). \<forall>x\<in>set (bk_plans b). \<exists>p\<in>set (bw_plans w). pl_id p = bp_plan_id x \<and> pl_subitem_id p = bp_subitem_id x)"
proof -
  have "world_ok Q w0"
    using assms(3,4) by (simp add: world_ok_def planner_ok_def)
  then have "world_ok Q w"
    using capacity.reach_inv [OF assms(2), of valid den] assms(1) by blast
  then show ?thesis
    by (auto simp: world_ok_def planner_ok_def holds_known_plans_def)
qed

text \<open>The priority of a request is that of a rule, or zero.\<close>

lemma first_match_in: "first_match f x rules = Inr (Some ru) \<Longrightarrow> ru \<in> set rules"
  by (induction f x rules rule: first_match.induct) (auto split: sum.splits if_splits)

lemma user_matches_in:
  assumes "user_matches_priority_rule p rules = Inr (Some ru)"
  shows "ru \<in> set rules"
proof -
  have either: "a = Inr (Some ru) \<or> b = Inr (Some ru)" if "or_match a b = Inr (Some ru)" for a b
    using that by (auto simp: or_match_def split: sum.splits option.splits)
  have "(if rules = [] then Inr None else with_user p (\<lambda>u. first_match al_users u rules)) = Inr (Some ru)
      \<or> first_match al_groups (p_group_id p) rules = Inr (Some ru) \<or> first_match al_categories (p_category_id p) rules = Inr (Some ru)
      \<or> first_match al_roles (p_role_id p) rules = Inr (Some ru)"
    using assms either unfolding user_matches_priority_rule_def by blast
  then show ?thesis
    by (auto simp: with_user_def dest: first_match_in split: if_splits option.splits)
qed

lemma subitem_priority_bound:
  assumes "\<forall>ru\<in>set rules. ru_priority ru \<le> c" "0 \<le> c" "subitem_priority rules p i = Inr (q, l)"
  shows "q \<le> c"
proof -
  have bound: "ru_priority ru \<le> c" if "user_matches_priority_rule p (rules_of rules k) = Inr (Some ru)" for k ru
    using user_matches_in [OF that] assms(1) by (simp add: rules_of_def)
  then show ?thesis
    using assms(2,3) by (auto simp: subitem_priority_def get_user_default_priority_def rule_limits_def split: sum.splits option.splits)
qed

lemma payload_priority_bound:
  assumes "\<forall>ru\<in>set rules. ru_priority ru \<le> c" "0 \<le> c" "payload_priority pid rules p rs = Inr (pr, l)"
  shows "\<forall>(s, q)\<in>set pr. q \<le> c"
proof -
  have "priority_loop pid rules p xs acc = Inr (pr, l) \<Longrightarrow> \<forall>(s, q)\<in>set (fst acc). q \<le> c \<Longrightarrow> \<forall>(s, q)\<in>set pr. q \<le> c" for xs acc
  proof (induction xs arbitrary: acc)
    case (Cons x xs)
    obtain k s where x: "x = (k, s)" by (cases x)
    obtain q new new' where q: "subitem_priority rules p (pid k s) = Inr (q, new)" "most_restrictive_rule new (snd acc) = Inr new'"
      using Cons.prems(1) by (auto simp: x split: sum.splits)
    have "\<forall>(s, q)\<in>set (alist_set s q (fst acc)). q \<le> c"
      using Cons.prems(2) subitem_priority_bound [OF assms(1,2) q(1)] set_alist_set [of s q "fst acc"] by auto
    then show ?case
      using Cons.IH [of "(alist_set s q (fst acc), Some new')"] Cons.prems(1) q by (simp add: x)
  qed simp
  from this [of "requested_subitems rs" "([], None)"] show ?thesis
    using assms(3) by (simp add: payload_priority_def)
qed

definition empty_planner :: booking_world where
  "empty_planner = \<lparr>bw_tables = example_users, bw_plans = [], bw_bookings = [], bw_desktop_booking = (\<lambda>d. None)\<rparr>"

definition day_plan :: plan where
  "day_plan = \<lparr>pl_item_type = ''gpus'', pl_item_id = ''card-1'', pl_id = ''plan-1'', pl_subitem_id = ''A40-8Q'', pl_units = 1,
     pl_start = 300, pl_end = 86399, pl_user_id = ''root''\<rparr>"

definition everybody_rule :: priority_rule where
  "everybody_rule = \<lparr>ru_rule_id = ''default'', ru_priority = 5, ru_forbid_time = 60, ru_max_time = 600, ru_max_items = 3,
     ru_allowed = \<lparr>al_roles = Listed [], al_categories = Off, al_groups = Off, al_users = Off\<rparr>\<rparr>"

definition booked_planner :: booking_world where
  "booked_planner = snd (add_booking pieces (\<lambda>_ _. Inr ([(''vgpus'', Some [''A40-8Q''])], 1)) (\<lambda>_ _. None) [everybody_rule] None 0 ''b-1''
     \<lparr>p_user_id = Some ''root'', p_role_id = ''admin'', p_category_id = ''c'', p_group_id = ''g''\<rparr>
     \<lparr>rq_start = Some 600, rq_end = Some 1200, rq_item_type = ''desktop'', rq_item_id = ''d-1'', rq_now = False\<rparr>
     (empty_planner\<lparr>bw_plans := [day_plan]\<rparr>))"

theorem bookings_never_exceed_capacity_witness:
  "interval_library pieces valid_pieces snd \<and> (booking_step pieces (\<lambda>_. 5))\<^sup>*\<^sup>* empty_planner booked_planner
   \<and> bw_plans booked_planner = [day_plan] \<and> length (bw_bookings booked_planner) = 1
   \<and> top_load (\<lambda>_. 5) (bw_bookings booked_planner) ''plan-1'' 900 = 1
   \<and> top_load (\<lambda>_. 5) (bw_bookings booked_planner) (pl_id day_plan) 900 \<le> pl_units day_plan"
proof -
  have lib: "interval_library pieces valid_pieces snd"
    by (rule piece_library.interval_library_axioms)
  have "add_plan (\<lambda>_ _ _. Some 1) ''plan-1'' ''root''
      \<lparr>da_item_type = ''gpus'', da_item_id = ''card-1'', da_subitem_id = ''A40-8Q'', da_start = 100, da_end = 86400\<rparr> (bw_plans empty_planner)
      = Inr (''plan-1'', [day_plan])"
    by code_simp
  then have "booking_step pieces (\<lambda>_. 5) empty_planner (empty_planner\<lparr>bw_plans := [day_plan]\<rparr>)"
    by (intro booking_step.new_plan) (simp_all add: empty_planner_def profile_units_ok_def)
  moreover have "booking_step pieces (\<lambda>_. 5) (empty_planner\<lparr>bw_plans := [day_plan]\<rparr>) booked_planner"
    unfolding booked_planner_def
  proof (rule booking_step.new_booking)
    show "\<forall>(s, q)\<in>set pr. q \<le> 5" if "payload_priority (\<lambda>_ _. None) [everybody_rule] p rs = Inr (pr, l)" for p rs pr l
      by (rule payload_priority_bound [OF _ _ that]) (simp_all add: everybody_rule_def)
  qed (auto simp: only_vgpus_def)
  ultimately have run: "(booking_step pieces (\<lambda>_. 5))\<^sup>*\<^sup>* empty_planner booked_planner"
    by (meson converse_rtranclp_into_rtranclp r_into_rtranclp)
  have final: "bw_plans booked_planner = [day_plan]" "length (bw_bookings booked_planner) = 1"
      "top_load (\<lambda>_. 5) (bw_bookings booked_planner) ''plan-1'' 900 = 1"
    by code_simp+
  then show ?thesis
    using bookings_never_exceed_capacity [OF lib run] lib run by (simp add: empty_planner_def)
qed

section \<open>What the planner reports as free\<close>

definition event_covers :: "time \<Rightarrow> event \<Rightarrow> bool" where
  "event_covers t e \<longleftrightarrow> ev_start e \<le> t \<and> t \<le> ev_end e"

definition units_at :: "time \<Rightarrow> booking list \<Rightarrow> int" where
  "units_at t bs = sum_list (map bk_units (filter (\<lambda>b. bk_start b \<le> t \<and> t \<le> bk_end b) bs))"

text \<open>The value of an instant once the bookings are taken off the plans.\<close>

definition taken_off :: "availability \<Rightarrow> int \<Rightarrow> int \<Rightarrow> availability \<Rightarrow> bool" where
  "taken_off v n k v' \<longleftrightarrow> av_units v' = av_units v \<and> av_nonoverridable v' = av_nonoverridable v + n \<and> av_overridable v' = av_overridable v + k"

lemma foldl_taken_off:
  "taken_off v (sum_list (map av_units vs)) 0 (foldl nonoverridable_op v vs)"
  "taken_off v 0 (sum_list (map av_units vs)) (foldl overridable_op v vs)"
proof -
  show "taken_off v (sum_list (map av_units vs)) 0 (foldl nonoverridable_op v vs)"
    by (induction vs arbitrary: v) (simp_all add: taken_off_def nonoverridable_op_def)
  show "taken_off v 0 (sum_list (map av_units vs)) (foldl overridable_op v vs)"
    by (induction vs arbitrary: v) (simp_all add: taken_off_def overridable_op_def)
qed

lemma covering_bookings: "sum_list (map av_units (covering (map booking_value bs) t)) = units_at t bs"
  by (induction bs) (auto simp: covering_def booking_value_def units_at_def)

definition plan_portions :: "('d, availability) interval_lib \<Rightarrow> event list \<Rightarrow> 'd" where
  "plan_portions L evs = convert_plans_to_portions L (map (\<lambda>e. (ev_start e, ev_end e,
     \<lparr>av_id = ev_id e, av_units = the (ev_units e), av_nonoverridable = 0, av_overridable = 0\<rparr>)) evs)"

lemma availability_event:
  assumes lib: "interval_library L valid den"
    and v1: "join_all nonoverridable_op (den (plan_portions L evs) t) (covering (map booking_value nonoverridable) t) = Some v1"
  shows "\<exists>e\<in>set (compute_overridable_bookings L overridable nonoverridable evs units). \<exists>v. event_covers t e
     \<and> taken_off v1 0 (units_at t overridable) v \<and> ev_units e = Some (free_units v) \<and> ev_type e = event_type_of units v"
proof -
  define d1 where "d1 = accumulate L nonoverridable_op (plan_portions L evs) (map booking_value nonoverridable)"
  define d2 where "d2 = accumulate L overridable_op d1 (map booking_value overridable)"
  have valid: "valid (plan_portions L evs)" "valid d1" "valid d2"
    unfolding d2_def d1_def plan_portions_def
    by (simp_all add: interval_library.valid_accumulate [OF lib] interval_library.valid_convert [OF lib])
  define v where "v = foldl overridable_op v1 (covering (map booking_value overridable) t)"
  have "den d1 t = Some v1"
    unfolding d1_def interval_library.den_accumulate [OF lib valid(1)] by (rule v1)
  then have "den d2 t = Some v"
    unfolding d2_def interval_library.den_accumulate [OF lib valid(2)] by (simp add: join_all_def v_def)
  then obtain a where a: "(a, v) \<in> set (il_atoms L d2)" "in_atom a t"
    using interval_library.atoms_cover [OF lib valid(3)] by blast
  have off: "taken_off v1 0 (units_at t overridable) v"
    using foldl_taken_off(2) [of v1 "covering (map booking_value overridable) t"] by (simp add: v_def covering_bookings)
  define e where "e = atom_event a (free_units v) (av_id v) [] (event_type_of units v)"
  have "e \<in> set (compute_overridable_bookings L overridable nonoverridable evs units)"
    using a(1) by (force simp: compute_overridable_bookings_def Let_def e_def plan_portions_def [symmetric] d1_def [symmetric] d2_def [symmetric])
  moreover have "event_covers t e" "ev_units e = Some (free_units v)" "ev_type e = event_type_of units v"
    using a(2) by (auto simp: e_def atom_event_def event_covers_def in_atom_def split: if_splits)
  ultimately show ?thesis using off by blast
qed

lemma covering_events:
  "covering (map (\<lambda>e. (ev_start e, ev_end e, f e)) evs) t = map f (filter (event_covers t) evs)"
  by (induction evs) (simp_all add: covering_def event_covers_def)

lemma den_plan_portions:
  assumes "interval_library L valid den"
  shows "den (plan_portions L evs) t = (if filter (event_covers t) evs = [] then None
     else Some \<lparr>av_id = ev_id (last (filter (event_covers t) evs)), av_units = the (ev_units (last (filter (event_covers t) evs))),
                av_nonoverridable = 0, av_overridable = 0\<rparr>)"
  unfolding plan_portions_def interval_library.den_convert [OF assms] covering_events
  by (cases "filter (event_covers t) evs" rule: rev_cases) simp_all

text \<open>C16: at an instant inside a plan, the planner answers with the units of the plan less those of the bookings the caller must respect,
  and calls it available, overridable or unavailable according to whether the request fits beside all bookings, beside those alone, or not.\<close>

theorem availability_exact:
  assumes "interval_library L valid den" "filter (event_covers t) evs \<noteq> []"
  shows "\<exists>e\<in>set (compute_overridable_bookings L overridable nonoverridable evs units). event_covers t e
     \<and> ev_units e = Some (the (ev_units (last (filter (event_covers t) evs))) - units_at t nonoverridable)
     \<and> ev_type e = (if the (ev_units (last (filter (event_covers t) evs))) - units_at t nonoverridable < units then ''unavailable''
         else if the (ev_units (last (filter (event_covers t) evs))) - units_at t nonoverridable - units_at t overridable < units then ''overridable''
         else ''available'')"
proof -
  define p where "p = last (filter (event_covers t) evs)"
  define v0 where "v0 = \<lparr>av_id = ev_id p, av_units = the (ev_units p), av_nonoverridable = 0, av_overridable = 0\<rparr>"
  define v1 where "v1 = foldl nonoverridable_op v0 (covering (map booking_value nonoverridable) t)"
  have "join_all nonoverridable_op (den (plan_portions L evs) t) (covering (map booking_value nonoverridable) t) = Some v1"
    using assms(2) by (simp add: den_plan_portions [OF assms(1)] join_all_def v1_def v0_def p_def)
  from availability_event [OF assms(1) this, of overridable units]
  obtain e v where "e \<in> set (compute_overridable_bookings L overridable nonoverridable evs units)" "event_covers t e"
      and off: "taken_off v1 0 (units_at t overridable) v"
      and "ev_units e = Some (free_units v)" "ev_type e = event_type_of units v"
    by blast
  moreover have "taken_off v0 (units_at t nonoverridable) 0 v1"
    using foldl_taken_off(1) [of v0 "covering (map booking_value nonoverridable) t"] by (simp add: v1_def covering_bookings)
  then have "free_units v = the (ev_units p) - units_at t nonoverridable" "av_overridable v = units_at t overridable"
    using off by (simp_all add: taken_off_def v0_def free_units_def)
  ultimately show ?thesis
    unfolding p_def [symmetric] by (intro bexI [of _ e]) (simp_all add: event_type_of_def)
qed

definition sample_event :: event where
  "sample_event = \<lparr>ev_start = 0, ev_end = 100, ev_units = Some 3, ev_ids = [''plan-1''], ev_id = ''plan-1'', ev_type = ''available'', ev_subitem = []\<rparr>"

theorem availability_exact_witness:
  "interval_library pieces valid_pieces snd \<and> filter (event_covers 15) [sample_event] = [sample_event] \<and> units_at 15 [sample_booking] = 1
   \<and> (\<exists>e\<in>set (compute_overridable_bookings pieces [] [sample_booking] [sample_event] 2).
        event_covers 15 e \<and> ev_units e = Some 2 \<and> ev_type e = ''available'')"
proof -
  have lib: "interval_library pieces valid_pieces snd"
    by (rule piece_library.interval_library_axioms)
  have one: "filter (event_covers 15) [sample_event] = [sample_event]" "units_at 15 [sample_booking] = 1" "units_at 15 [] = 0"
      "ev_units sample_event = Some 3"
    by (simp_all add: sample_event_def sample_booking_def event_covers_def units_at_def)
  then show ?thesis
    using availability_exact [OF lib, of 15 "[sample_event]" "[]" "[sample_booking]" 2] lib by (simp only: one) (simp add: one)
qed

text \<open>Outside every plan the planner invents room: at an instant that no plan contains and one booking does, it reports the units of that
  booking as free, and the instant as available for requests up to that size.\<close>

theorem booking_without_plan_reported_free:
  assumes "interval_library L valid den" "filter (event_covers t) evs = []"
    "filter (\<lambda>b. bk_start b \<le> t \<and> t \<le> bk_end b) nonoverridable = [b]" "units_at t overridable = 0" "units \<le> bk_units b"
  shows "\<exists>e\<in>set (compute_overridable_bookings L overridable nonoverridable evs units). event_covers t e
     \<and> ev_units e = Some (bk_units b) \<and> ev_type e = ''available''"
proof -
  define v1 where "v1 = \<lparr>av_id = bk_id b, av_units = bk_units b, av_nonoverridable = 0, av_overridable = 0\<rparr>"
  have "covering (map booking_value bs) t = map (\<lambda>b. snd (snd (booking_value b))) (filter (\<lambda>b. bk_start b \<le> t \<and> t \<le> bk_end b) bs)" for bs
    by (induction bs) (simp_all add: covering_def booking_value_def)
  then have "covering (map booking_value nonoverridable) t = [v1]"
    using assms(3) by (simp add: booking_value_def v1_def)
  then have "join_all nonoverridable_op (den (plan_portions L evs) t) (covering (map booking_value nonoverridable) t) = Some v1"
    using assms(2) by (simp add: den_plan_portions [OF assms(1)] join_all_def)
  from availability_event [OF assms(1) this, of overridable units]
  obtain e v where "e \<in> set (compute_overridable_bookings L overridable nonoverridable evs units)" "event_covers t e"
      and off: "taken_off v1 0 (units_at t overridable) v"
      and "ev_units e = Some (free_units v)" "ev_type e = event_type_of units v"
    by blast
  moreover have "free_units v = bk_units b" "av_overridable v = 0"
    using off assms(4) by (simp_all add: taken_off_def v1_def free_units_def)
  ultimately show ?thesis
    using assms(5) by (intro bexI [of _ e]) (simp_all add: event_type_of_def)
qed

theorem booking_without_plan_reported_free_witness:
  "interval_library pieces valid_pieces snd
   \<and> (\<exists>e\<in>set (compute_overridable_bookings pieces [] [sample_booking] [] 1). event_covers 15 e \<and> ev_units e = Some 1 \<and> ev_type e = ''available'')"
proof -
  have lib: "interval_library pieces valid_pieces snd"
    by (rule piece_library.interval_library_axioms)
  show ?thesis
    using booking_without_plan_reported_free [OF lib, of 15 "[]" "[sample_booking]" sample_booking "[]" 1] lib
    by (simp add: sample_booking_def units_at_def)
qed

section \<open>Placing a booking ignores delegated cards\<close>

text \<open>A card delegated to the school, a manager of the office, and their request for one unit of the profile planned on that card.\<close>

definition office_manager :: payload where
  "office_manager = \<lparr>p_user_id = Some ''boss'', p_role_id = ''manager'', p_category_id = ''office'', p_group_id = ''staff''\<rparr>"

definition school_cards :: "gpu_row list" where
  "school_cards = [\<lparr>g_id = ''card-1'', g_category = Some ''school'', g_profiles_enabled = [''A40-8Q'']\<rparr>]"

definition office_booking :: "booking access \<times> booking_world" where
  "office_booking = add_booking pieces (\<lambda>_ _. Inr ([(''vgpus'', Some [''A40-8Q''])], 1)) (\<lambda>_ _. None) [everybody_rule] None 0 ''b-2'' office_manager
     \<lparr>rq_start = Some 600, rq_end = Some 1200, rq_item_type = ''desktop'', rq_item_id = ''tpl'', rq_now = False\<rparr>
     (empty_planner\<lparr>bw_plans := [day_plan]\<rparr>)"


end
