(* ===== verification/Spec2Isabelle.thy ===== *)
theory Spec2Isabelle
  imports Fleet Gpu_Profiles Gpu_Pool Balancer Migration_Plan Migration_Safety Migration_Load Token_Gate Booking_Safety
begin

text \<open>
  A verification development for IsardVDI, a virtual desktop platform. The repository holds an API
  (\<open>component/apiv4\<close>), an engine that drives libvirt hosts (\<open>engine\<close>), storage workers on Redis queues
  (\<open>docker/storage\<close>), a shared Python library (\<open>component/_common\<close>, here \<open>common\<close>) and several smaller
  services and frontends. Modelled here is the decision logic these parts share: what runs when, where a
  desktop is placed, what happens to GPU pools, how storage is moved between pools, and who may do what.

  \<^bold>\<open>Conventions.\<close> Each theory models one component, its definitions in the order of the code and named after
  it. A Python string is \<open>string\<close>, a dictionary whose order or duplicates matter is an association list, an
  optional field is an option field of a record, a float is an exact rational or a value with infinities
  and not-a-number, an unbounded integer is \<open>int\<close>. An exception is a value: \<open>py_error + 'a\<close> (\<open>Prelude\<close>) or
  \<open>access_error + 'a\<close> (\<open>Access_Control\<close>), so that every raise and early return is a branch. The clock, random
  numbers, database and Redis answers, the JWT library, the interval library of the planner and the
  sessions service are arguments; what is assumed of them is a named hypothesis. \<open>Prelude\<close> also holds the interface \<open>invariant_system\<close> (a step
  relation with an invariant), interpreted by the worker fleet, the burst of starts, the migration
  runner and the booking planner.

  \<^bold>\<open>Storage queues and the resource governor.\<close> \<open>Queue_Tiers\<close> (\<open>common/lib/queue_tiers.py\<close>): the lane of a
  storage task. Deletes, maintenance and whole-disk moves never reach a foreground lane, rewriting lands
  on a served lane and is idempotent. \<open>Governor\<close> (\<open>resource_governor.py\<close>, \<open>governor_schedule.py\<close>,
  configuration merge of \<open>governed_worker.py\<close>): schedules against the minutes of the week, scheduled caps,
  and that no configuration can wedge a worker. \<open>Governed_Worker\<close> (\<open>governed_worker.py\<close>): the Redis
  accounting, its Lua scripts, dequeue order, admission and release; fair shares of the weighted rotation.
  \<open>Fleet\<close>: any interleaving of any number of workers, crashes included, keeps every cap.

  \<^bold>\<open>GPUs.\<close> \<open>Gpu_Profiles\<close> (\<open>gpu_pool_policy.py\<close>, \<open>gpu_realizability.py\<close>): profile names, the reconcile decision,
  catalogue pruning. \<open>Gpu_Pool\<close> (\<open>vgpu_state.py\<close>, the engine's \<open>_gpu_pool.py\<close>, \<open>gpu_multitenancy.py\<close>): pool
  reconcile and trim, release of a desktop's devices, tenant isolation of plans.

  \<^bold>\<open>Bookings.\<close> \<open>Booking_Plans\<close> (\<open>lib/bookings/reservables_planner.py\<close>): the plans of a card; adding a plan keeps
  the plans of a card apart, except when it fills the gap between two of them. \<open>Booking_Capacity\<close>
  (\<open>reservables_planner_compute.py\<close>, \<open>bookings.py\<close>): availability, priorities, placing, adding, moving and deleting
  a booking. The library of interval dictionaries is the interface \<open>interval_library\<close>, which states its documented
  laws and is interpreted on a concrete dictionary \<open>pieces\<close>. \<open>Booking_Safety\<close>: a booking is placed exactly when it
  fits, bookings that nobody may displace never exceed a plan under any sequence of operations, the planner's
  answer is exact inside a plan, and where moving, placing and reporting fall short of their contract.

  \<^bold>\<open>Placement in the engine.\<close> \<open>Memory_Placement\<close> (\<open>memory_placement.py\<close>, \<open>numa_balancer.py\<close>, \<open>mem_stats.py\<close>):
  hugepage and NUMA choice. \<open>Hypervisor_Filter\<close> (\<open>services/db/hypervisors.py\<close>): which hosts may run a desktop.
  \<open>Balancer\<close> (\<open>balancers.py\<close>): strategies, starts in flight, and that a burst never overcommits a host.

  \<^bold>\<open>Storage migration.\<close> \<open>Migration_Ledger\<close> (\<open>models/storage_migration.py\<close>): states, totals by deltas against
  totals recomputed, claims. \<open>Migration_Plan\<close> and \<open>Migration_Window\<close> (\<open>lib/storage/migration.py\<close>): backing
  chains, subtrees, budgets, conflicts, windows. \<open>Migration_Saga\<close>: the next action of a disk and a tree.
  \<open>Migration_Runner\<close> (\<open>migration_run.py\<close>): every handler and the step of a tree; \<open>Migration_Safety\<close>: from a
  fresh ledger only superseded or abandoned files are deleted, committed disks were verified, failed
  trees settle. \<open>Migration_Load\<close>: the adaptive parallelism.

  \<^bold>\<open>Access.\<close> \<open>Access_Control\<close> (\<open>helpers/alloweds.py\<close>, the ownership checks of \<open>helpers.py\<close> and \<open>recycle_bin.py\<close>,
  \<open>apiv4/dependencies/alloweds.py\<close>): sharing rules as Python check and as database filter, which agree;
  listings; type soundness of rules under updates; ownership and tenant isolation, stated once for the
  checks that promise the interface \<open>ownership_check\<close>; the bastion clean-up. \<open>Token_Gate\<close> (\<open>helpers/token.py\<close>,
  \<open>api_sessions.py\<close>, \<open>apiv4/dependencies/jwt_token.py\<close>): what a passed gate implies about the token.

  \<^bold>\<open>Bounds and fuel.\<close> No definition uses fuel: recursions are structural or carry a termination proof, and
  the walk of a backing chain, which does not end on every infinite graph, is a partial function that is
  shown to return on every finite one. The schedule scans look eight days ahead as the code does, and the
  schedule reads the first sixteen entries, the bound of the code.

  \<^bold>\<open>Not modelled.\<close> Parts whose content is input and output: libvirt and SSH control of hosts, the XML of
  domains, qemu-img and file operations of the storage workers, network set-up of the VPN and of open
  vSwitch, database migrations and seeds, the HTTP routes and response schemas, web frontends, the Go
  services. Caches with a time to live are not modelled: a read sees the stored value. Row queries that
  only decorate results, logging, notifications and metrics are left out of the components modelled.
  The manifest lists each part with its reason.
\<close>

end
